(* ===== verification/Refmon_Prelude.thy ===== *)
theory Refmon_Prelude
  imports Main "HOL-Library.Word" "HOL-Library.Monad_Syntax"
begin

unbundle bit_operations_syntax

text \<open>
  The prelude of the development: C strings and pointers to them, the error numbers, flag
  words, numbers printed in decimal and hexadecimal, and the collections that carry the
  automation.

  A C string is the list of its characters before the terminating NUL, so
  \<^term>\<open>strlen\<close> is the length of the list, and an index equal to the length reads the
  terminator. A pointer \<open>char *\<close> is an \<open>option\<close>: \<^term>\<open>None\<close> is NULL. A function of the
  program whose execution may make an invalid memory access (or never return from a spin lock)
  has an \<open>option\<close> result: \<^term>\<open>None\<close> is that crash.
\<close>

named_theorems mem_simps \<open>how the operations change the allocator's bookkeeping\<close>
named_theorems frame_simps \<open>the fields an operation does not touch\<close>
named_theorems outcome \<open>what a successful run of an operation says\<close>

type_synonym cptr = "string option"

type_synonym u8 = "8 word"
type_synonym u32 = "32 word"
type_synonym u64 = "64 word"

subsection \<open>Error numbers\<close>

abbreviation EPERM :: int where "EPERM \<equiv> 1"
abbreviation ENOENT :: int where "ENOENT \<equiv> 2"
abbreviation EIO :: int where "EIO \<equiv> 5"
abbreviation EBADF :: int where "EBADF \<equiv> 9"
abbreviation ENOMEM :: int where "ENOMEM \<equiv> 12"
abbreviation EACCES :: int where "EACCES \<equiv> 13"
abbreviation EFAULT :: int where "EFAULT \<equiv> 14"
abbreviation EEXIST :: int where "EEXIST \<equiv> 17"
abbreviation EINVAL :: int where "EINVAL \<equiv> 22"
abbreviation ENOTRECOVERABLE :: int where "ENOTRECOVERABLE \<equiv> 131"

subsection \<open>C strings\<close>

abbreviation NUL :: char where "NUL \<equiv> CHR 0x00"

abbreviation strlen :: "string \<Rightarrow> nat" where "strlen \<equiv> length"

text \<open>The standard library's \<open>strncmp\<close>: characters compare as unsigned bytes.\<close>

fun strncmp :: "string \<Rightarrow> string \<Rightarrow> nat \<Rightarrow> int" where
  "strncmp xs ys 0 = 0"
| "strncmp [] [] (Suc n) = 0"
| "strncmp [] (y # ys) (Suc n) = - 1"
| "strncmp (x # xs) [] (Suc n) = 1"
| "strncmp (x # xs) (y # ys) (Suc n) =
     (if x = y then strncmp xs ys n
      else if (of_char x :: nat) < of_char y then - 1 else 1)"

lemma strncmp_eq_0_iff: "strncmp xs ys n = 0 \<longleftrightarrow> take n xs = take n ys"
  by (induction xs ys n rule: strncmp.induct) auto

lemma strncmp_prefix_iff: "strncmp xs ys (length xs) = 0 \<longleftrightarrow> (\<exists>zs. ys = xs @ zs)"
proof
  assume "strncmp xs ys (length xs) = 0"
  then have "xs = take (length xs) ys" by (simp add: strncmp_eq_0_iff)
  then have "ys = xs @ drop (length xs) ys" by (metis append_take_drop_id)
  then show "\<exists>zs. ys = xs @ zs" ..
qed (auto simp: strncmp_eq_0_iff)

text \<open>The macro \<open>MATCH_STRING\<close> of \<open>misc/misc.h\<close>: equal on the first string's length, and
  of equal length.\<close>

definition match_string :: "string \<Rightarrow> string \<Rightarrow> bool" where
  "match_string str1 str2 \<longleftrightarrow>
     strncmp str1 str2 (strlen str1) = 0 \<and> strlen str1 = strlen str2"

lemma match_string_iff [simp]: "match_string s t \<longleftrightarrow> s = t"
  by (auto simp: match_string_def strncmp_eq_0_iff)

text \<open>Reading one character: the terminator at the end, out of bounds after it.\<close>

definition char_at :: "string \<Rightarrow> nat \<Rightarrow> char option" where
  "char_at s i = (if i < length s then Some (s ! i) else if i = length s then Some NUL else None)"

text \<open>The string a buffer holds: its bytes up to the first NUL.\<close>

definition cstr :: "char list \<Rightarrow> string" where
  "cstr buf = takeWhile (\<lambda>c. c \<noteq> NUL) buf"

definition nul_free :: "string \<Rightarrow> bool" where
  "nul_free s \<longleftrightarrow> NUL \<notin> set s"

lemma nul_free_simps [simp]:
  "nul_free []" "nul_free (c # s) \<longleftrightarrow> c \<noteq> NUL \<and> nul_free s"
  "nul_free (s @ t) \<longleftrightarrow> nul_free s \<and> nul_free t"
  by (auto simp: nul_free_def)

lemma cstr_append_NUL: "nul_free s \<Longrightarrow> cstr (s @ NUL # r) = s"
  by (induction s) (auto simp: cstr_def)

text \<open>Storing a string and its terminator into a buffer; outside the buffer is a crash.\<close>

definition put_str :: "char list \<Rightarrow> nat \<Rightarrow> string \<Rightarrow> char list option" where
  "put_str buf i s =
     (if i + length s < length buf
      then Some (take i buf @ s @ [NUL] @ drop (i + length s + 1) buf) else None)"

definition put_char :: "char list \<Rightarrow> nat \<Rightarrow> char \<Rightarrow> char list option" where
  "put_char buf i c = (if i < length buf then Some (buf[i := c]) else None)"

text \<open>\<open>snprintf\<close>: the length of the whole text, and what the buffer holds.\<close>

definition snprintf :: "nat \<Rightarrow> string \<Rightarrow> nat \<times> string" where
  "snprintf n text = (length text, take (n - 1) text)"

subsection \<open>Numbers as text\<close>

definition digit_char :: "nat \<Rightarrow> char" where
  "digit_char d = char_of (if d < 10 then 48 + d else 87 + d)"

text \<open>\<open>%02x\<close> of a byte.\<close>

definition hex2 :: "u8 \<Rightarrow> string" where
  "hex2 b = [digit_char (unat b div 16), digit_char (unat b mod 16)]"

text \<open>\<open>%u\<close> and \<open>%lu\<close> of a natural number, \<open>%d\<close> of an integer.\<close>

fun dec_nat :: "nat \<Rightarrow> string" where
  "dec_nat n = (if n < 10 then [digit_char n] else dec_nat (n div 10) @ [digit_char (n mod 10)])"

declare dec_nat.simps [simp del]

definition dec_int :: "int \<Rightarrow> string" where
  "dec_int i = (if i < 0 then CHR ''-'' # dec_nat (nat (- i)) else dec_nat (nat i))"

subsection \<open>Flag words\<close>

definition has_flag :: "u32 \<Rightarrow> u32 \<Rightarrow> bool" where
  "has_flag w f \<longleftrightarrow> w AND f \<noteq> 0"

end
