(* ===== verification/Refmon_Model.thy ===== *)
theory Refmon_Model
  imports Refmon_Prelude
begin

text \<open>
  The directory \<open>model/\<close>: the monitor's states and their names (\<open>state.c\<close>, \<open>state.h\<close>), the
  registry's entries (\<open>registry.h\<close>) and the single instance (\<open>instance.c\<close>,
  \<open>instance.h\<close>). The intrusive list of the registry is the list of its entries, in order.
  The interface \<open>codec\<close> is met here by the state names, and in \<open>Hashing\<close> by the
  hexadecimal digests.
\<close>

subsection \<open>A value and its text\<close>

text \<open>
  Printing and reading back: what is printed for a good value reads as that value, and only
  the text printed for a value reads as it.
\<close>

locale codec =
  fixes good :: "'v \<Rightarrow> bool"
    and enc :: "'v \<Rightarrow> string option"
    and dec :: "string \<Rightarrow> 'v option"
  assumes enc_total: "good v \<Longrightarrow> \<exists>t. enc v = Some t"
    and dec_enc: "good v \<Longrightarrow> enc v = Some t \<Longrightarrow> dec t = Some v"
    and enc_dec: "dec t = Some v \<Longrightarrow> good v \<and> enc v = Some t"
begin

lemma enc_inj: "good v \<Longrightarrow> good w \<Longrightarrow> enc v = enc w \<Longrightarrow> v = w"
  by (metis dec_enc enc_total option.inject)

lemma enc_eq_iff: "good v \<Longrightarrow> good w \<Longrightarrow> enc v = enc w \<longleftrightarrow> v = w"
  by (auto dest: enc_inj)

lemma dec_inj: "dec t = Some v \<Longrightarrow> dec u = Some v \<Longrightarrow> t = u"
  by (metis enc_dec option.inject)

lemma dec_total_iff: "(\<exists>v. dec t = Some v) \<longleftrightarrow> (\<exists>v. good v \<and> enc v = Some t)"
  by (auto dest: enc_dec dec_enc)

end

subsection \<open>The states\<close>

text \<open>
  \<open>enum refmon_state\<close>. \<open>string_to_state\<close> casts \<open>-EINVAL\<close> to the enumeration when the
  string names no state, so the type also holds integers that are no enumerator.
\<close>

datatype refmon_state = OFF | ON | REC_OFF | REC_ON | Not_a_state int

definition is_enumerator :: "refmon_state \<Rightarrow> bool" where
  "is_enumerator st \<longleftrightarrow> st \<in> {OFF, ON, REC_OFF, REC_ON}"

abbreviation REFMON_STATE_STRING_OFF :: string where
  "REFMON_STATE_STRING_OFF \<equiv> ''OFF''"
abbreviation REFMON_STATE_STRING_ON :: string where
  "REFMON_STATE_STRING_ON \<equiv> ''ON''"
abbreviation REFMON_STATE_STRING_RECOFF :: string where
  "REFMON_STATE_STRING_RECOFF \<equiv> ''REC-OFF''"
abbreviation REFMON_STATE_STRING_RECON :: string where
  "REFMON_STATE_STRING_RECON \<equiv> ''REC-ON''"

definition string_to_state :: "string \<Rightarrow> refmon_state" where
  "string_to_state s =
     (if match_string s REFMON_STATE_STRING_OFF then OFF
      else if match_string s REFMON_STATE_STRING_ON then ON
      else if match_string s REFMON_STATE_STRING_RECOFF then REC_OFF
      else if match_string s REFMON_STATE_STRING_RECON then REC_ON
      else Not_a_state (- EINVAL))"

definition state_to_string :: "refmon_state \<Rightarrow> cptr" where
  "state_to_string st =
     (if st = OFF then Some REFMON_STATE_STRING_OFF
      else if st = ON then Some REFMON_STATE_STRING_ON
      else if st = REC_OFF then Some REFMON_STATE_STRING_RECOFF
      else if st = REC_ON then Some REFMON_STATE_STRING_RECON
      else None)"

definition is_state_valid :: "string \<Rightarrow> bool" where
  "is_state_valid s \<longleftrightarrow>
     match_string s REFMON_STATE_STRING_OFF \<or> match_string s REFMON_STATE_STRING_ON \<or>
     match_string s REFMON_STATE_STRING_RECOFF \<or> match_string s REFMON_STATE_STRING_RECON"

lemma is_state_valid_iff: "is_state_valid s \<longleftrightarrow> is_enumerator (string_to_state s)"
  by (simp add: is_state_valid_def string_to_state_def is_enumerator_def)

lemma string_to_state_simps [simp]:
  "string_to_state ''OFF'' = OFF" "string_to_state ''ON'' = ON"
  "string_to_state ''REC-OFF'' = REC_OFF" "string_to_state ''REC-ON'' = REC_ON"
  by (simp_all add: string_to_state_def)

lemma state_to_string_simps [simp]:
  "state_to_string OFF = Some ''OFF''" "state_to_string ON = Some ''ON''"
  "state_to_string REC_OFF = Some ''REC-OFF''" "state_to_string REC_ON = Some ''REC-ON''"
  "state_to_string (Not_a_state i) = None"
  by (simp_all add: state_to_string_def)

text \<open>What a reader of a state's name gets: the state, if the string names one.\<close>

definition read_state :: "string \<Rightarrow> refmon_state option" where
  "read_state s = (if is_state_valid s then Some (string_to_state s) else None)"

interpretation state_name: codec is_enumerator state_to_string read_state
proof unfold_locales
  fix v assume "is_enumerator v"
  then show "\<exists>t. state_to_string v = Some t"
    by (auto simp: is_enumerator_def)
next
  fix v t assume "is_enumerator v" "state_to_string v = Some t"
  then show "read_state t = Some v"
    by (auto simp: is_enumerator_def read_state_def is_state_valid_def)
next
  fix t v assume "read_state t = Some v"
  then show "is_enumerator v \<and> state_to_string v = Some t"
    by (auto simp: is_enumerator_def read_state_def is_state_valid_def split: if_splits)
qed

subsection \<open>The registry and the instance\<close>

record path_identifier =
  path :: cptr
  ino_no :: u64

record registry_entry =
  registered :: path_identifier
  resolved :: path_identifier

text \<open>\<open>struct refmon\<close>; a lock is true while it is held.\<close>

record refmon =
  state :: refmon_state
  registry :: "registry_entry list"
  password :: cptr
  spinlock_inst :: bool
  spinlock_probing :: bool

definition is_off :: "refmon \<Rightarrow> bool" where
  "is_off the_instance \<longleftrightarrow> state the_instance = OFF \<or> state the_instance = REC_OFF"

definition is_on :: "refmon \<Rightarrow> bool" where
  "is_on the_instance \<longleftrightarrow> \<not> is_off the_instance"

definition is_reconf :: "refmon \<Rightarrow> bool" where
  "is_reconf the_instance \<longleftrightarrow> state the_instance = REC_OFF \<or> state the_instance = REC_ON"

lemmas instance_tests = is_on_def is_off_def is_reconf_def

text \<open>
  Every string that names a state sets exactly the two flags its name spells: \<open>REC-\<close> for
  reconfigurable, and \<open>ON\<close> or \<open>OFF\<close> at the end.
\<close>

lemma state_flags:
  assumes "is_state_valid s" and "state r = string_to_state s"
  shows "is_reconf r \<longleftrightarrow> take 4 s = ''REC-''"
    and "is_on r \<longleftrightarrow> drop (length s - 2) s = ''ON''"
  using assms by (auto simp: is_state_valid_def instance_tests)

end
