(* ===== verification/Kernel.thy ===== *)
theory Kernel
  imports Refmon_Model
begin

text \<open>
  What the module uses of the kernel, and the state of the whole module.

  The record \<open>kenv\<close> holds the kernel's side of one call: the functions of the kernel (the
  VFS, the allocator's verdicts, the crypto API, kprobes) are parameters, with one value for
  each call of the program. A theorem that relies on documented behaviour of the kernel names it as
  a hypothesis on this record. The record \<open>kmem\<close> is the allocator's and the scheduler's
  bookkeeping: allocations asked for, blocks outstanding, the depth of sections that must not sleep,
  and whether an allocation that may sleep was ever made in one. The record \<open>ksys\<close> is the
  module's global variables with the kernel objects they drive.
\<close>

subsection \<open>Probes\<close>

text \<open>The five \<open>struct kretprobe\<close> variables of \<open>probing/probing-handlers.c\<close>.\<close>

datatype probe = krp_vfs_open | krp_filp_open | krp_vfs_unlink | krp_vfs_mkdir | krp_vfs_rmdir

instantiation probe :: enum
begin

definition enum_probe :: "probe list" where
  "enum_probe = [krp_vfs_open, krp_filp_open, krp_vfs_unlink, krp_vfs_mkdir, krp_vfs_rmdir]"

definition enum_all_probe :: "(probe \<Rightarrow> bool) \<Rightarrow> bool" where
  "enum_all_probe P \<longleftrightarrow> P krp_vfs_open \<and> P krp_filp_open \<and> P krp_vfs_unlink \<and>
     P krp_vfs_mkdir \<and> P krp_vfs_rmdir"

definition enum_ex_probe :: "(probe \<Rightarrow> bool) \<Rightarrow> bool" where
  "enum_ex_probe P \<longleftrightarrow> P krp_vfs_open \<or> P krp_filp_open \<or> P krp_vfs_unlink \<or>
     P krp_vfs_mkdir \<or> P krp_vfs_rmdir"

instance
proof
  have *: "x \<in> set (enum_class.enum :: probe list)" for x
    by (cases x) (simp_all add: enum_probe_def)
  then show "UNIV = set (enum_class.enum :: probe list)" by blast
  show "distinct (enum_class.enum :: probe list)" by (simp add: enum_probe_def)
  show "enum_class.enum_all P \<longleftrightarrow> Ball UNIV P" for P :: "probe \<Rightarrow> bool"
    unfolding enum_all_probe_def by (metis UNIV_I probe.exhaust)
  show "enum_class.enum_ex P \<longleftrightarrow> Bex UNIV P" for P :: "probe \<Rightarrow> bool"
    unfolding enum_ex_probe_def by (metis UNIV_I probe.exhaust)
qed

end

lemma all_probe: "(\<forall>p::probe. P p) \<longleftrightarrow> P krp_vfs_open \<and> P krp_filp_open \<and> P krp_vfs_unlink \<and>
    P krp_vfs_mkdir \<and> P krp_vfs_rmdir"
  by (metis probe.exhaust)

subsection \<open>The kernel's side of a call\<close>

type_synonym dentry = u64

record kenv =
  kmalloc_ok :: "nat \<Rightarrow> bool"                    \<comment> \<open>does the n-th allocation succeed\<close>
  junk :: "nat \<Rightarrow> char"                          \<comment> \<open>bytes of a fresh allocation\<close>
  stale :: "string \<Rightarrow> string"                    \<comment> \<open>a string read from its block after the free\<close>
  kern_path :: "string \<Rightarrow> bool \<Rightarrow> dentry option"  \<comment> \<open>with LOOKUP_FOLLOW or without\<close>
  dentry_path_raw :: "dentry \<Rightarrow> cptr"            \<comment> \<open>None is an ERR_PTR\<close>
  d_path_pwd :: cptr                           \<comment> \<open>d_path of current->fs->pwd\<close>
  i_ino :: "dentry \<Rightarrow> u64"
  i_isdir :: "dentry \<Rightarrow> bool"
  euid :: u32
  uid :: u32
  tgid :: int
  tid :: int
  exe_dentry :: "dentry option"                \<comment> \<open>None where current->mm is NULL\<close>
  copy_from_user :: "string \<Rightarrow> cptr"
  copy_to_user_ok :: bool
  shash_alloc_ok :: bool
  shash_init_ret :: int
  shash_update_ret :: "string \<Rightarrow> int"
  shash_final_ret :: int
  sha256 :: "string \<Rightarrow> u8 list"
  filp_open_ok :: "string \<Rightarrow> bool"
  kernel_read :: "string \<Rightarrow> nat \<Rightarrow> int + string"  \<comment> \<open>at an offset; Inl is a negative code\<close>
  register_ret :: "probe \<Rightarrow> int"
  enable_ret :: "probe \<Rightarrow> int"
  disable_ret :: "probe \<Rightarrow> int"
  path_dentry :: "u64 \<Rightarrow> dentry"                 \<comment> \<open>p->dentry of a struct path *\<close>
  f_flags :: "u64 \<Rightarrow> u32"                        \<comment> \<open>f->f_flags of a struct file *\<close>
  linux_version :: nat
  proc_create_ok :: "string \<Rightarrow> bool"
  the_syscall_table :: u64                     \<comment> \<open>the module parameter\<close>
  sc_addr_set_state :: u64                     \<comment> \<open>where the four calls were linked\<close>
  sc_addr_reconf_add :: u64
  sc_addr_reconf_rm :: u64
  sc_addr_flush :: u64

definition KERNEL_VERSION :: "nat \<Rightarrow> nat \<Rightarrow> nat \<Rightarrow> nat" where
  "KERNEL_VERSION a b c = a * 65536 + b * 256 + c"

text \<open>The documented behaviour that theorems name as hypotheses.\<close>

definition no_oom :: "kenv \<Rightarrow> bool" where
  "no_oom env \<longleftrightarrow> (\<forall>n. kmalloc_ok env n)"

definition crypto_ok :: "kenv \<Rightarrow> bool" where
  "crypto_ok env \<longleftrightarrow> shash_alloc_ok env \<and> shash_init_ret env = 0 \<and>
     (\<forall>x. shash_update_ret env x = 0) \<and> shash_final_ret env = 0 \<and>
     (\<forall>x. length (sha256 env x) = 32)"

definition user_ok :: "kenv \<Rightarrow> bool" where
  "user_ok env \<longleftrightarrow> (\<forall>u. copy_from_user env u = Some u)"

definition stale_ok :: "kenv \<Rightarrow> bool" where
  "stale_ok env \<longleftrightarrow> (\<forall>p. stale env p = p)"

lemma no_oomD [simp]: "no_oom env \<Longrightarrow> kmalloc_ok env n"
  by (simp add: no_oom_def)

lemma user_okD [simp]: "user_ok env \<Longrightarrow> copy_from_user env u = Some u"
  by (simp add: user_ok_def)

lemma stale_okD [simp]: "stale_ok env \<Longrightarrow> stale env p = p"
  by (simp add: stale_ok_def)

subsection \<open>The allocator\<close>

datatype gfp = GFP_KERNEL | GFP_ATOMIC

record kmem =
  allocs :: nat
  live :: int
  preempt :: nat
  slept :: bool

text \<open>
  One call of \<open>kmalloc\<close>: its verdict and the bookkeeping. \<open>GFP_KERNEL\<close> may sleep.
\<close>

definition kmalloc :: "kenv \<Rightarrow> gfp \<Rightarrow> kmem \<Rightarrow> bool \<times> kmem" where
  "kmalloc env g m =
     (let ok = kmalloc_ok env (allocs m) in
      (ok, m\<lparr>allocs := Suc (allocs m),
             live := live m + (if ok then 1 else 0),
             slept := slept m \<or> (g = GFP_KERNEL \<and> 0 < preempt m)\<rparr>))"

definition kfree :: "kmem \<Rightarrow> kmem" where
  "kfree m = m\<lparr>live := live m - 1\<rparr>"

lemma kmalloc_preempt: "kmalloc env g m = (ok, m') \<Longrightarrow> preempt m' = preempt m"
  by (auto simp: kmalloc_def Let_def)

lemma kmalloc_live: "kmalloc env g m = (ok, m') \<Longrightarrow> live m' = live m + (if ok then 1 else 0)"
  by (auto simp: kmalloc_def Let_def)

lemma kmalloc_slept: "kmalloc env g m = (ok, m') \<Longrightarrow>
    slept m' \<longleftrightarrow> slept m \<or> (g = GFP_KERNEL \<and> 0 < preempt m)"
  by (auto simp: kmalloc_def Let_def)

lemma kmalloc_no_oom: "no_oom env \<Longrightarrow> kmalloc env g m = (ok, m') \<Longrightarrow> ok"
  by (auto simp: kmalloc_def Let_def)

lemma kfree_simps [mem_simps]:
  "preempt (kfree m) = preempt m" "live (kfree m) = live m - 1" "slept (kfree m) = slept m"
  by (simp_all add: kfree_def)

subsection \<open>The module's state\<close>

record registered_syscall_codes =
  sc_code_set_state :: int
  sc_code_reconf_add :: int
  sc_code_reconf_rm :: int
  sc_code_flush :: int

record log_dataset =
  ld_tgid :: int
  ld_tid :: int
  ld_uid :: u32
  ld_euid :: u32
  prog_path :: string

record ksys =
  the_inst :: refmon                   \<comment> \<open>the_instance\<close>
  mem :: kmem
  probe_registered :: "probe \<Rightarrow> bool"
  probe_enabled :: "probe \<Rightarrow> bool"
  works :: "log_dataset list"          \<comment> \<open>scheduled works, in order\<close>
  log_file :: "string list"            \<comment> \<open>the buffers written to the log, in order\<close>
  proc_files :: "string list"
  sct :: "int \<Rightarrow> u64"                  \<comment> \<open>memory, as unsigned longs from the table on\<close>
  hw_cr0 :: u64                        \<comment> \<open>the register\<close>
  cr0 :: u64                           \<comment> \<open>the variable of scth.c\<close>
  restore :: "int list"
  the_ni_syscall :: u64
  new_sys_call_array :: "u64 list"
  syscall_codes :: registered_syscall_codes

subsection \<open>Spin locks\<close>

text \<open>
  Taking a lock that is held never returns: on the one path this model follows, its holder is
  the caller itself. While a spin lock is held, sleeping is not allowed.
\<close>

definition preempt_disable :: "kmem \<Rightarrow> kmem" where
  "preempt_disable m = m\<lparr>preempt := Suc (preempt m)\<rparr>"

definition preempt_enable :: "kmem \<Rightarrow> kmem" where
  "preempt_enable m = m\<lparr>preempt := preempt m - 1\<rparr>"

definition spin_instance_lock :: "ksys \<Rightarrow> ksys option" where
  "spin_instance_lock s =
     (if spinlock_inst (the_inst s) then None
      else Some (s\<lparr>the_inst := (the_inst s)\<lparr>spinlock_inst := True\<rparr>,
                   mem := preempt_disable (mem s)\<rparr>))"

definition spin_instance_unlock :: "ksys \<Rightarrow> ksys" where
  "spin_instance_unlock s =
     s\<lparr>the_inst := (the_inst s)\<lparr>spinlock_inst := False\<rparr>, mem := preempt_enable (mem s)\<rparr>"

definition spin_probing_lock :: "ksys \<Rightarrow> ksys option" where
  "spin_probing_lock s =
     (if spinlock_probing (the_inst s) then None
      else Some (s\<lparr>the_inst := (the_inst s)\<lparr>spinlock_probing := True\<rparr>,
                   mem := preempt_disable (mem s)\<rparr>))"

definition spin_probing_unlock :: "ksys \<Rightarrow> ksys" where
  "spin_probing_unlock s =
     s\<lparr>the_inst := (the_inst s)\<lparr>spinlock_probing := False\<rparr>, mem := preempt_enable (mem s)\<rparr>"

lemmas spin_defs = spin_instance_lock_def spin_instance_unlock_def
  spin_probing_lock_def spin_probing_unlock_def preempt_disable_def preempt_enable_def

end
