(* ===== verification/Scth.thy ===== *)
theory Scth
  imports Kernel
begin

text \<open>
  \<open>lib/scth/scth.c\<close>: finding unused entries of the system call table, and the write protection of
  kernel memory. The entries that are not implemented all hold the address of
  \<open>sys_ni_syscall\<close>, so the search is for an address that is repeated. The table is read through
  \<open>p\<close>, a pointer to unsigned longs.
\<close>

definition MAX_ACQUIRES :: int where "MAX_ACQUIRES = 5"

definition X86_CR0_WP :: u64 where "X86_CR0_WP = 0x00010000"

subsection \<open>Write protection\<close>

definition write_cr0_forced :: "u64 \<Rightarrow> ksys \<Rightarrow> ksys" where
  "write_cr0_forced val s = s\<lparr>hw_cr0 := val\<rparr>"

definition protect_memory :: "ksys \<Rightarrow> ksys" where
  "protect_memory s = write_cr0_forced (cr0 s) s"

definition unprotect_memory :: "ksys \<Rightarrow> ksys" where
  "unprotect_memory s =
     (let s1 = s\<lparr>cr0 := hw_cr0 s\<rparr> in write_cr0_forced (cr0 s1 AND NOT X86_CR0_WP) s1)"

text \<open>The hardware: a write to the table faults while the protection is on.\<close>

definition write_protected :: "ksys \<Rightarrow> bool" where
  "write_protected s \<longleftrightarrow> hw_cr0 s AND X86_CR0_WP \<noteq> 0"

lemmas protection_defs = protect_memory_def unprotect_memory_def write_cr0_forced_def

lemma unprotected: "\<not> write_protected (unprotect_memory s)"
proof -
  have "(w AND NOT X86_CR0_WP) AND X86_CR0_WP = 0" for w
    by (rule bit_eqI) (auto simp: bit_simps)
  then show ?thesis by (simp add: write_protected_def protection_defs Let_def)
qed

subsection \<open>The search\<close>

text \<open>
  The local array \<open>restore\<close> as the list of what was stored, so its length is \<open>ret\<close> and
  \<open>j\<close> is one less. One guarded store, \<open>if (j < num_acquires - 1) restore[++j] = e\<close>:
\<close>

definition acquire :: "int \<Rightarrow> nat \<Rightarrow> nat list \<Rightarrow> nat list" where
  "acquire num_acquires e acq =
     (if int (length acq) - 1 < num_acquires - 1 then acq @ [e] else acq)"

text \<open>The loop on \<open>k\<close>.\<close>

function acquire_loop :: "(nat \<Rightarrow> u64) \<Rightarrow> int \<Rightarrow> nat \<Rightarrow> nat \<Rightarrow> nat list \<Rightarrow> nat list" where
  "acquire_loop p num_acquires i k acq =
     (if k < 256 \<and> int (length acq) - 1 < num_acquires - 1
      then acquire_loop p num_acquires i (k + 1) (if p i = p k then acq @ [k] else acq)
      else acq)"
  by auto
termination by (relation "measure (\<lambda>(p, n, i, k, r). 256 - k)") auto

declare acquire_loop.simps [simp del]

text \<open>
  The loop on \<open>z\<close>: at the first entry that holds the same address it acquires \<open>i\<close>, that entry and
  the following ones, and ends the search; \<^term>\<open>None\<close> when there is no such entry.
\<close>

function same_address_loop :: "(nat \<Rightarrow> u64) \<Rightarrow> int \<Rightarrow> nat \<Rightarrow> nat \<Rightarrow> nat list option" where
  "same_address_loop p num_acquires i z =
     (if z < 256
      then if p i = p z
           then Some (acquire_loop p num_acquires i (z + 1)
                  (acquire num_acquires z (acquire num_acquires i [])))
           else same_address_loop p num_acquires i (z + 1)
      else None)"
  by auto
termination by (relation "measure (\<lambda>(p, n, i, z). 256 - z)") auto

declare same_address_loop.simps [simp del]

text \<open>The loop on \<open>i\<close>, with the address that was found.\<close>

function entries_loop :: "(nat \<Rightarrow> u64) \<Rightarrow> int \<Rightarrow> nat \<Rightarrow> (u64 \<times> nat list) option" where
  "entries_loop p num_acquires i =
     (if i < 256
      then case same_address_loop p num_acquires i (i + 1) of
             Some acq \<Rightarrow> Some (p i, acq)
           | None \<Rightarrow> entries_loop p num_acquires (i + 1)
      else None)"
  by auto
termination by (relation "measure (\<lambda>(p, n, i). 256 - i)") auto

declare entries_loop.simps [simp del]

text \<open>\<open>get_entries\<close>: what it returns, and the two locations it writes on success.\<close>

definition get_entries ::
    "int list \<Rightarrow> int \<Rightarrow> (nat \<Rightarrow> u64) \<Rightarrow> u64 \<Rightarrow> int \<times> int list \<times> u64" where
  "get_entries entry_ids num_acquires p sys_ni_sys_call =
     (if num_acquires < 1 then (- 1, entry_ids, sys_ni_sys_call)
      else if num_acquires > MAX_ACQUIRES then (- 1, entry_ids, sys_ni_sys_call)
      else case entries_loop p num_acquires 0 of
        None \<Rightarrow> (- 1, entry_ids, sys_ni_sys_call)
      | Some (addr, acq) \<Rightarrow>
          let ret = int (length acq) in
          if ret = num_acquires
          then (ret, map int acq @ drop (length acq) entry_ids, addr)
          else (- 1, entry_ids, sys_ni_sys_call))"

subsection \<open>What the search finds\<close>

text \<open>The entries from \<open>i\<close> on that hold the address of entry \<open>i\<close>.\<close>

definition sharing :: "(nat \<Rightarrow> u64) \<Rightarrow> nat \<Rightarrow> nat list" where
  "sharing p i = filter (\<lambda>k. p k = p i) [i..<256]"

text \<open>The first entry whose address a later one repeats.\<close>

definition first_shared :: "(nat \<Rightarrow> u64) \<Rightarrow> nat option" where
  "first_shared p = find (\<lambda>i. 2 \<le> length (sharing p i)) [0..<256]"

lemma acquire_loop_eq:
  assumes "length acq \<le> nat num_acquires"
  shows "acquire_loop p num_acquires i k acq =
    take (nat num_acquires) (acq @ filter (\<lambda>k. p k = p i) [k..<256])"
  using assms
proof (induction p num_acquires i k acq rule: acquire_loop.induct)
  case (1 p num_acquires i k acq)
  show ?case
  proof (cases "k < 256 \<and> int (length acq) - 1 < num_acquires - 1")
    case True
    let ?r = "if p i = p k then acq @ [k] else acq"
    have "length ?r \<le> nat num_acquires" using True by auto
    then have "acquire_loop p num_acquires i k acq =
        take (nat num_acquires) (?r @ filter (\<lambda>k. p k = p i) [k + 1..<256])"
      using 1(1) True by (simp add: acquire_loop.simps [of _ _ _ k])
    moreover have "[k..<256] = k # [k + 1..<256]" using True by (simp add: upt_conv_Cons)
    ultimately show ?thesis by (cases "p k = p i") (simp_all add: eq_commute [of "p i"])
  next
    case False
    then have "256 \<le> k \<or> nat num_acquires = length acq" using 1(2) by linarith
    with False 1(2) show ?thesis by (auto simp: acquire_loop.simps [of _ _ _ k])
  qed
qed

lemma same_address_loop_eq:
  assumes "1 \<le> num_acquires"
  shows "same_address_loop p num_acquires i z =
    (let r = filter (\<lambda>k. p k = p i) [z..<256] in
     if r = [] then None else Some (take (nat num_acquires) (i # r)))"
  using assms
proof (induction p num_acquires i z rule: same_address_loop.induct)
  case (1 p num_acquires i z)
  note assms = 1(2)
  show ?case
  proof (cases "z < 256")
    case True
    then have upt: "[z..<256] = z # [z + 1..<256]" by (simp add: upt_conv_Cons)
    show ?thesis
    proof (cases "p i = p z")
      case True
      have "acquire num_acquires z (acquire num_acquires i []) = take (nat num_acquires) [i, z]"
      proof (cases "num_acquires = 1")
        case True then show ?thesis by (simp add: acquire_def)
      next
        case False
        then have "2 \<le> num_acquires" using assms by linarith
        then have "2 \<le> nat num_acquires" "0 < num_acquires" "1 < num_acquires" by simp_all
        then show ?thesis by (simp add: acquire_def)
      qed
      then have "same_address_loop p num_acquires i z =
          Some (take (nat num_acquires) (take (nat num_acquires) [i, z] @
            filter (\<lambda>k. p k = p i) [z + 1..<256]))"
        using True \<open>z < 256\<close> acquire_loop_eq [of "take (nat num_acquires) [i, z]" num_acquires p i "z + 1"]
        by (simp add: same_address_loop.simps [of _ _ _ z])
      also have "take (nat num_acquires) (take (nat num_acquires) [i, z] @ r) =
          take (nat num_acquires) ([i, z] @ r)" for r
        by (cases "2 \<le> nat num_acquires") (auto simp: take_Cons' not_le)
      finally show ?thesis using True upt by simp
    next
      case False
      then show ?thesis using 1 \<open>z < 256\<close> upt by (simp add: same_address_loop.simps [of _ _ _ z])
    qed
  next
    case False
    then show ?thesis by (simp add: same_address_loop.simps [of _ _ _ z])
  qed
qed

lemma sharing_Cons:
  assumes "i < 256"
  shows "sharing p i = i # filter (\<lambda>k. p k = p i) [i + 1..<256]"
  using assms by (simp add: sharing_def upt_conv_Cons)

lemma entries_loop_eq:
  assumes "1 \<le> num_acquires"
  shows "entries_loop p num_acquires i =
    map_option (\<lambda>i. (p i, take (nat num_acquires) (sharing p i)))
      (find (\<lambda>i. 2 \<le> length (sharing p i)) [i..<256])"
  using assms
proof (induction p num_acquires i rule: entries_loop.induct)
  case (1 p num_acquires i)
  note assms = 1(2)
  show ?case
  proof (cases "i < 256")
    case False
    then show ?thesis by (simp add: entries_loop.simps [of _ _ i])
  next
    case True
    let ?r = "filter (\<lambda>k. p k = p i) [i + 1..<256]"
    have upt: "[i..<256] = i # [i + 1..<256]" using True by (simp add: upt_conv_Cons)
    have z: "same_address_loop p num_acquires i (i + 1) =
        (if ?r = [] then None else Some (take (nat num_acquires) (sharing p i)))"
      unfolding same_address_loop_eq [OF assms] Let_def sharing_Cons [OF True] ..
    have len: "2 \<le> length (sharing p i) \<longleftrightarrow> ?r \<noteq> []"
      using sharing_Cons [OF True, of p] by (cases ?r) simp_all
    show ?thesis
    proof (cases "?r = []")
      case r: True
      then have "entries_loop p num_acquires i = entries_loop p num_acquires (i + 1)"
        using True z by (simp add: entries_loop.simps [of _ _ i])
      moreover have "find (\<lambda>i. 2 \<le> length (sharing p i)) [i..<256] =
          find (\<lambda>i. 2 \<le> length (sharing p i)) [i + 1..<256]"
        using len r unfolding upt by simp
      ultimately show ?thesis using 1 True z r by simp
    next
      case False
      then have "find (\<lambda>i. 2 \<le> length (sharing p i)) [i..<256] = Some i"
        using len unfolding upt by simp
      with False True z show ?thesis by (simp add: entries_loop.simps [of _ _ i])
    qed
  qed
qed

text \<open>\<open>get_entries\<close> without its loops.\<close>

lemma get_entries_eq:
  assumes "1 \<le> num_acquires" and "num_acquires \<le> 5"
  shows "get_entries entry_ids num_acquires p ni =
    (case first_shared p of
       None \<Rightarrow> (- 1, entry_ids, ni)
     | Some i \<Rightarrow>
         if nat num_acquires \<le> length (sharing p i)
         then (num_acquires, map int (take (nat num_acquires) (sharing p i)) @
                 drop (nat num_acquires) entry_ids, p i)
         else (- 1, entry_ids, ni))"
  using assms
  by (auto simp: get_entries_def entries_loop_eq first_shared_def MAX_ACQUIRES_def Let_def min_def
      split: option.splits)

lemma find_upt_first:
  assumes "find P [a..<b] = Some i"
  shows "a \<le> i" "i < b" "P i" "\<And>j. a \<le> j \<Longrightarrow> j < i \<Longrightarrow> \<not> P j"
proof -
  obtain n where n: "n < length [a..<b]" "P ([a..<b] ! n)" "i = [a..<b] ! n"
      "\<And>j. j < n \<Longrightarrow> \<not> P ([a..<b] ! j)"
    using assms by (auto simp: find_Some_iff)
  then have i: "i = a + n" by simp
  with n show "a \<le> i" "i < b" "P i" by auto
  fix j assume "a \<le> j" "j < i"
  then show "\<not> P j" using n(4) [of "j - a"] i n(1) by simp
qed

lemma sharing_props:
  "sorted (sharing p i)" "distinct (sharing p i)"
  "k \<in> set (sharing p i) \<longleftrightarrow> i \<le> k \<and> k < 256 \<and> p k = p i"
  by (auto simp: sharing_def sorted_wrt_filter)

text \<open>
  A success: as many entries as asked for, in increasing order, inside the table, all holding the
  address that is reported, which another entry holds too.
\<close>

lemma get_entries_success:
  assumes "get_entries entry_ids num_acquires p ni = (ret, ids, addr)" and "ret \<noteq> - 1"
    and "length entry_ids = nat num_acquires"
  obtains slots where "ids = map int slots" "length slots = nat num_acquires" "ret = num_acquires"
    "sorted slots" "distinct slots" "\<And>k. k \<in> set slots \<Longrightarrow> k < 256 \<and> p k = addr"
    "\<exists>i < 256. \<exists>j < 256. i \<noteq> j \<and> p i = addr \<and> p j = addr"
proof -
  have n: "1 \<le> num_acquires" "num_acquires \<le> 5"
    using assms(1,2) by (auto simp: get_entries_def MAX_ACQUIRES_def split: if_splits)
  note eq = assms(1) [unfolded get_entries_eq [OF n]]
  obtain i where i: "first_shared p = Some i" using eq assms(2) by (cases "first_shared p") simp_all
  have len: "nat num_acquires \<le> length (sharing p i)"
    using eq assms(2) unfolding i by (simp split: if_splits)
  have ids: "ids = map int (take (nat num_acquires) (sharing p i))" "addr = p i" "ret = num_acquires"
    using eq len assms(3) unfolding i by auto
  note found = find_upt_first [OF i [unfolded first_shared_def]]
  obtain a b r where ab: "sharing p i = a # b # r"
    using found(3) by (cases "sharing p i"; cases "tl (sharing p i)") auto
  then have "a \<in> set (sharing p i)" "b \<in> set (sharing p i)" by simp_all
  then have "a < 256" "b < 256" "p a = addr" "p b = addr"
    unfolding sharing_props ids(2) by blast+
  moreover have "a \<noteq> b" using sharing_props(2) [of p i] ab by auto
  ultimately have two: "\<exists>i < 256. \<exists>j < 256. i \<noteq> j \<and> p i = addr \<and> p j = addr" by blast
  let ?slots = "take (nat num_acquires) (sharing p i)"
  show thesis
  proof (rule that)
    show "ids = map int ?slots" "ret = num_acquires" by (rule ids)+
    show "length ?slots = nat num_acquires" using len by simp
    show "sorted ?slots" "distinct ?slots" using sharing_props(1,2) [of p i] by (simp_all add: sorted_wrt_take)
    show "k < 256 \<and> p k = addr" if "k \<in> set ?slots" for k
      using in_set_takeD [OF that] unfolding sharing_props ids(2) by blast
    show "\<exists>i < 256. \<exists>j < 256. i \<noteq> j \<and> p i = addr \<and> p j = addr" by (rule two)
  qed
qed

end
