(* ===== verification/Fsutils.thy ===== *)
theory Fsutils
  imports Kernel
begin

text \<open>
  \<open>misc/fsutils.c\<close>: paths, their resolution, and the search of the registry. Each operation that
  allocates threads the allocator's bookkeeping; the search only reads. The second half
  gives what the operations compute without memory failures (\<open>below\<close>, \<open>protects\<close>, \<open>resolve_path\<close>) and
  shows that the code either computes that or returns NULL.
\<close>

abbreviation PATH_MAX :: nat where "PATH_MAX \<equiv> 4096"

abbreviation REFMON_SEARCH_CRIT_REGISTERED_PATH :: u32 where
  "REFMON_SEARCH_CRIT_REGISTERED_PATH \<equiv> 0x01"
abbreviation REFMON_SEARCH_CRIT_REGISTERED_INO :: u32 where
  "REFMON_SEARCH_CRIT_REGISTERED_INO \<equiv> 0x02"
abbreviation REFMON_SEARCH_CRIT_ABSOLUTE_PATH :: u32 where
  "REFMON_SEARCH_CRIT_ABSOLUTE_PATH \<equiv> 0x04"
abbreviation REFMON_SEARCH_CRIT_ABSOLUTE_INO :: u32 where
  "REFMON_SEARCH_CRIT_ABSOLUTE_INO \<equiv> 0x08"
abbreviation REFMON_SEARCH_CRIT_SUBDIR_CHECK :: u32 where
  "REFMON_SEARCH_CRIT_SUBDIR_CHECK \<equiv> 0x10"

abbreviation REFMON_FSUTILS_RESOLVE_LINKS :: u32 where
  "REFMON_FSUTILS_RESOLVE_LINKS \<equiv> 0x01"
abbreviation REFMON_FSUTILS_IGNORE_ABSOLUTE_PATHS :: u32 where
  "REFMON_FSUTILS_IGNORE_ABSOLUTE_PATHS \<equiv> 0x02"

text \<open>\<open>-1\<close>, as the unsigned long it is compared with.\<close>

abbreviation REFMON_NO_INO_NO :: u64 where "REFMON_NO_INO_NO \<equiv> - 1"

subsection \<open>Tests on paths\<close>

text \<open>\<open>is_subpath\<close>: the test of the next character reads the second string only after the
  first was found to be a prefix of it.\<close>

definition is_subpath :: "string \<Rightarrow> string \<Rightarrow> bool option" where
  "is_subpath base_path sub_path =
     (if strncmp base_path sub_path (strlen base_path) = 0
      then do {
        c \<leftarrow> char_at sub_path (strlen base_path);
        Some (c = NUL \<or> c = CHR ''/'')
      }
      else Some False)"

text \<open>\<open>is_dir\<close>: 1, 0, or -1 when the path does not resolve.\<close>

definition is_dir :: "kenv \<Rightarrow> string \<Rightarrow> int" where
  "is_dir env p =
     (case kern_path env p True of
        None \<Rightarrow> - 1
      | Some d \<Rightarrow> if i_isdir env d then 1 else 0)"

definition is_resolved :: "string \<Rightarrow> bool" where
  "is_resolved p \<longleftrightarrow> char_at p 0 = Some (CHR ''/'')"

text \<open>\<open>extract_ino_no_from_path\<close>, without following a final link.\<close>

definition extract_ino_no_from_path :: "kenv \<Rightarrow> string \<Rightarrow> u64" where
  "extract_ino_no_from_path env p =
     (case kern_path env p False of None \<Rightarrow> REFMON_NO_INO_NO | Some d \<Rightarrow> i_ino env d)"

subsection \<open>Searching the registry\<close>

text \<open>\<open>MATCH_STRING\<close> on pointers: NULL is a crash.\<close>

definition match_ptr :: "cptr \<Rightarrow> cptr \<Rightarrow> bool option" where
  "match_ptr p q = do { a \<leftarrow> p; b \<leftarrow> q; Some (match_string a b) }"

text \<open>\<open>A || B\<close> and \<open>A && B\<close> of C, where evaluating the right side may crash.\<close>

definition c_or :: "bool option \<Rightarrow> bool option \<Rightarrow> bool option" where
  "c_or a b = do { x \<leftarrow> a; if x then Some True else b }"

definition c_and :: "bool option \<Rightarrow> bool option \<Rightarrow> bool option" where
  "c_and a b = do { x \<leftarrow> a; if x then b else Some False }"

text \<open>The condition of the loop of \<open>search_entry\<close>.\<close>

definition entry_matches ::
    "kenv \<Rightarrow> path_identifier \<Rightarrow> u32 \<Rightarrow> registry_entry \<Rightarrow> bool option" where
  "entry_matches env pid search_criteria curr_node =
     c_or (c_and (Some (has_flag search_criteria REFMON_SEARCH_CRIT_REGISTERED_PATH))
                 (match_ptr (path (registered curr_node)) (path pid)))
     (c_or (Some (has_flag search_criteria REFMON_SEARCH_CRIT_REGISTERED_INO \<and>
                  ino_no (registered curr_node) = ino_no pid))
     (c_or (c_and (Some (has_flag search_criteria REFMON_SEARCH_CRIT_ABSOLUTE_PATH))
                  (match_ptr (path (resolved curr_node)) (path pid)))
     (c_or (Some (has_flag search_criteria REFMON_SEARCH_CRIT_ABSOLUTE_INO \<and>
                  ino_no (resolved curr_node) = ino_no pid))
           (c_and (Some (has_flag search_criteria REFMON_SEARCH_CRIT_SUBDIR_CHECK))
                  (do {
                     base \<leftarrow> path (resolved curr_node);
                     c_and (Some (is_dir env base \<noteq> 0))
                           (do { p \<leftarrow> path pid; is_subpath base p })
                   })))))"

fun search_loop ::
    "kenv \<Rightarrow> path_identifier \<Rightarrow> u32 \<Rightarrow> registry_entry list \<Rightarrow> registry_entry option option" where
  "search_loop env pid search_criteria [] = Some None"
| "search_loop env pid search_criteria (curr_node # nodes) = do {
     found \<leftarrow> entry_matches env pid search_criteria curr_node;
     if found then Some (Some curr_node) else search_loop env pid search_criteria nodes
   }"

text \<open>\<open>search_entry\<close>: the outer option is a crash, the inner one the pointer it returns.\<close>

definition search_entry ::
    "kenv \<Rightarrow> registry_entry list \<Rightarrow> path_identifier \<Rightarrow> u32 \<Rightarrow> registry_entry option option" where
  "search_entry env reg pid search_criteria =
     (if reg = [] then Some None
      else case path pid of
        None \<Rightarrow> Some None
      | Some p \<Rightarrow>
          if match_string p '''' \<and>
             (has_flag search_criteria REFMON_SEARCH_CRIT_REGISTERED_PATH \<or>
              has_flag search_criteria REFMON_SEARCH_CRIT_ABSOLUTE_PATH \<or>
              has_flag search_criteria REFMON_SEARCH_CRIT_SUBDIR_CHECK)
          then Some None
          else search_loop env pid search_criteria reg)"

definition is_eligible :: "kenv \<Rightarrow> registry_entry list \<Rightarrow> path_identifier \<Rightarrow> int option" where
  "is_eligible env reg pid = do {
     ret \<leftarrow> search_entry env reg pid
       (REFMON_SEARCH_CRIT_ABSOLUTE_PATH OR REFMON_SEARCH_CRIT_ABSOLUTE_INO OR
        REFMON_SEARCH_CRIT_SUBDIR_CHECK);
     Some (if ret = None then 0 else 1)
   }"

subsection \<open>Resolving paths\<close>

text \<open>
  \<open>resolve_path_alloc\<close>. An absolute path is returned as it is when the flags say so, links
  or not. A resolved path is a pointer into the buffer it was printed in; nothing is freed.
\<close>

definition resolve_path_alloc :: "kenv \<Rightarrow> cptr \<Rightarrow> u32 \<Rightarrow> kmem \<Rightarrow> cptr \<times> kmem" where
  "resolve_path_alloc env input_path flags m =
     (case input_path of
        None \<Rightarrow> (None, m)
      | Some input \<Rightarrow>
          if strlen input = 0 then (None, m)
          else let (ok, m1) = kmalloc env GFP_KERNEL m in
          if \<not> ok then (None, m1)
          else if has_flag flags REFMON_FSUTILS_IGNORE_ABSOLUTE_PATHS \<and> is_resolved input
          then (Some input, m1)
          else let (ok, m2) = kmalloc env GFP_KERNEL m1 in
          if \<not> ok then (None, m2)
          else if has_flag flags REFMON_FSUTILS_RESOLVE_LINKS
          then (case kern_path env input True of
                  None \<Rightarrow> (None, m2)
                | Some d \<Rightarrow>
                    (case dentry_path_raw env d of
                       None \<Rightarrow> (None, m2)
                     | Some temp \<Rightarrow> if strlen temp \<ge> PATH_MAX then (None, m2) else (Some temp, m2)))
          else (case d_path_pwd env of
                  None \<Rightarrow> (None, m2)
                | Some temp \<Rightarrow>
                    let out = temp @ ''/'' @ input in
                    if strlen out \<ge> PATH_MAX then (None, m2) else (Some out, m2)))"

text \<open>
  \<open>extract_path_from_dentry\<close>: the path lies in the buffer that is freed before the return, so
  what the caller reads is \<^term>\<open>stale\<close>. When \<open>dentry_path_raw\<close> fails, the code appends to the
  error pointer: a crash.
\<close>

definition extract_path_from_dentry :: "kenv \<Rightarrow> dentry \<Rightarrow> kmem \<Rightarrow> (cptr \<times> kmem) option" where
  "extract_path_from_dentry env d m =
     (let (ok, m1) = kmalloc env GFP_ATOMIC m in
      if \<not> ok then Some (None, m1)
      else case dentry_path_raw env d of
        None \<Rightarrow> None
      | Some ret \<Rightarrow> Some (Some (stale env ret), kfree m1))"

definition find_entry_by_regpath_alloc ::
    "kenv \<Rightarrow> registry_entry list \<Rightarrow> cptr \<Rightarrow> kmem \<Rightarrow> (registry_entry option \<times> kmem) option" where
  "find_entry_by_regpath_alloc env reg registered_path m =
     (let (solved, m1) = resolve_path_alloc env registered_path
            REFMON_FSUTILS_IGNORE_ABSOLUTE_PATHS m in
      case solved of
        None \<Rightarrow> Some (None, m1)
      | Some _ \<Rightarrow> do {
          ret \<leftarrow> search_entry env reg \<lparr>path = solved, ino_no = REFMON_NO_INO_NO\<rparr>
                   REFMON_SEARCH_CRIT_REGISTERED_PATH;
          Some (ret, m1)
        })"

subsection \<open>Reading a path never leaves its string\<close>

lemma is_subpath_total: "\<exists>b. is_subpath base p = Some b"
  by (auto simp: is_subpath_def strncmp_prefix_iff char_at_def)

text \<open>\<open>p\<close> is the directory \<open>base\<close> or lies below it.\<close>

definition below :: "string \<Rightarrow> string \<Rightarrow> bool" where
  "below base p \<longleftrightarrow> is_subpath base p = Some True"

lemma is_subpath_below: "is_subpath base p = Some (below base p)"
  using is_subpath_total [of base p] by (auto simp: below_def)

lemma below_iff:
  assumes "nul_free p"
  shows "below base p \<longleftrightarrow> p = base \<or> (\<exists>rest. p = base @ ''/'' @ rest)"
proof (cases "\<exists>zs. p = base @ zs")
  case True
  then obtain zs where p: "p = base @ zs" ..
  show ?thesis
  proof (cases zs)
    case Nil
    with p show ?thesis by (simp add: below_def is_subpath_def strncmp_eq_0_iff char_at_def)
  next
    case (Cons z zs')
    with p assms show ?thesis
      by (auto simp: below_def is_subpath_def strncmp_eq_0_iff char_at_def)
  qed
next
  case False
  then have "strncmp base p (length base) \<noteq> 0" by (simp add: strncmp_prefix_iff)
  with False show ?thesis by (auto simp: below_def is_subpath_def)
qed

lemma below_refl [simp]: "below p p"
  by (simp add: below_def is_subpath_def strncmp_eq_0_iff char_at_def)

lemma below_child: "below base (base @ ''/'' @ rest)"
  by (simp add: below_def is_subpath_def strncmp_eq_0_iff char_at_def)

lemma is_resolved_iff [simp]: "is_resolved p \<longleftrightarrow> (\<exists>q. p = CHR ''/'' # q)"
  by (cases p) (auto simp: is_resolved_def char_at_def)

subsection \<open>Well-formed entries\<close>

text \<open>Both paths are there, the registered one is absolute, and no inode number is the
  reserved one.\<close>

definition wf_entry :: "registry_entry \<Rightarrow> bool" where
  "wf_entry e \<longleftrightarrow>
     (\<exists>p. path (registered e) = Some p \<and> is_resolved p) \<and>
     (\<exists>q. path (resolved e) = Some q) \<and>
     ino_no (registered e) \<noteq> REFMON_NO_INO_NO \<and> ino_no (resolved e) \<noteq> REFMON_NO_INO_NO"

abbreviation wf_entries :: "registry_entry list \<Rightarrow> bool" where
  "wf_entries reg \<equiv> \<forall>e\<in>set reg. wf_entry e"

text \<open>An entry protects a path with an inode number.\<close>

definition protects :: "kenv \<Rightarrow> registry_entry \<Rightarrow> string \<Rightarrow> u64 \<Rightarrow> bool" where
  "protects env e p i \<longleftrightarrow>
     path (resolved e) = Some p \<or> ino_no (resolved e) = i \<or>
     (\<exists>base. path (resolved e) = Some base \<and> is_dir env base \<noteq> 0 \<and> below base p)"

lemma has_flag_simps [simp]:
  "has_flag (4 OR 8 OR 16) 1 = False" "has_flag (4 OR 8 OR 16) 2 = False"
  "has_flag (4 OR 8 OR 16) 4 = True" "has_flag (4 OR 8 OR 16) 8 = True"
  "has_flag (4 OR 8 OR 16) 16 = True"
  "has_flag 1 1 = True" "has_flag 1 2 = False" "has_flag 1 4 = False"
  "has_flag 1 8 = False" "has_flag 1 16 = False" "has_flag 2 1 = False" "has_flag 2 2 = True"
  "has_flag (1 OR 2) 1 = True" "has_flag (1 OR 2) 2 = True"
  by (simp_all add: has_flag_def)

text \<open>The criteria of \<open>is_eligible\<close>, as one number.\<close>

lemma eligible_criteria: "(4 OR 8 OR 16 :: u32) = 28"
  by simp

lemma has_flag_28 [simp]:
  "has_flag 28 1 = False" "has_flag 28 2 = False" "has_flag 28 4 = True" "has_flag 28 8 = True"
  "has_flag 28 16 = True"
  by (simp_all add: has_flag_def)

lemma entry_matches_eligible:
  assumes "wf_entry e"
  shows "entry_matches env \<lparr>path = Some p, ino_no = i\<rparr> 28 e = Some (protects env e p i)"
  using assms
  by (auto simp: wf_entry_def entry_matches_def protects_def match_ptr_def c_or_def c_and_def
      is_subpath_below)

lemma entry_matches_registered:
  assumes "wf_entry e"
  shows "entry_matches env \<lparr>path = Some p, ino_no = i\<rparr> 1 e = Some (path (registered e) = Some p)"
  using assms
  by (auto simp: wf_entry_def entry_matches_def match_ptr_def c_or_def c_and_def)

lemma search_loop_eq:
  assumes "\<And>e. e \<in> set reg \<Longrightarrow> entry_matches env pid crit e = Some (P e)"
  shows "search_loop env pid crit reg = Some (find P reg)"
  using assms by (induction reg) auto

lemma search_entry_registered:
  assumes "wf_entries reg" and "p \<noteq> ''''"
  shows "search_entry env reg \<lparr>path = Some p, ino_no = i\<rparr> 1 =
    Some (find (\<lambda>e. path (registered e) = Some p) reg)"
  using assms search_loop_eq [of reg env _ 1 "\<lambda>e. path (registered e) = Some p"]
  by (auto simp: search_entry_def entry_matches_registered)

text \<open>The decision of the probes: some entry protects the path.\<close>

lemma is_eligible_iff:
  assumes "wf_entries reg" and "p \<noteq> ''''"
  shows "is_eligible env reg \<lparr>path = Some p, ino_no = i\<rparr> =
    Some (if \<exists>e\<in>set reg. protects env e p i then 1 else 0)"
proof -
  have "search_entry env reg \<lparr>path = Some p, ino_no = i\<rparr> 28 =
      Some (find (\<lambda>e. protects env e p i) reg)"
    using assms search_loop_eq [of reg env _ 28 "\<lambda>e. protects env e p i"]
    by (auto simp: search_entry_def entry_matches_eligible)
  then show ?thesis
    unfolding is_eligible_def eligible_criteria by (auto simp: find_None_iff)
qed

subsection \<open>Resolution without memory failures\<close>

definition resolve_path :: "kenv \<Rightarrow> cptr \<Rightarrow> u32 \<Rightarrow> cptr" where
  "resolve_path env input_path flags = do {
     input \<leftarrow> input_path;
     if input = '''' then None
     else if has_flag flags REFMON_FSUTILS_IGNORE_ABSOLUTE_PATHS \<and> is_resolved input then Some input
     else do {
       out \<leftarrow> (if has_flag flags REFMON_FSUTILS_RESOLVE_LINKS
                then do { d \<leftarrow> kern_path env input True; dentry_path_raw env d }
                else do { cwd \<leftarrow> d_path_pwd env; Some (cwd @ ''/'' @ input) });
       if strlen out < PATH_MAX then Some out else None
     }
   }"

lemma resolve_path_alloc_sound:
  assumes "resolve_path_alloc env inp fl m = (r, m')"
  shows "r = None \<or> r = resolve_path env inp fl"
  using assms
  by (auto simp: resolve_path_alloc_def resolve_path_def Let_def
      split: option.splits prod.splits if_splits)

lemma resolve_path_alloc_mem:
  assumes "resolve_path_alloc env inp fl m = (r, m')"
  shows "preempt m' = preempt m" and "live m \<le> live m'" and "slept m \<Longrightarrow> slept m'"
  using assms
  by (auto simp: resolve_path_alloc_def Let_def kmalloc_def
      split: option.splits prod.splits if_splits)

lemma resolve_path_alloc_no_oom:
  assumes "no_oom env" and "resolve_path_alloc env inp fl m = (r, m')"
  shows "r = resolve_path env inp fl"
  using assms
  by (auto simp: resolve_path_alloc_def resolve_path_def Let_def kmalloc_def
      split: option.splits prod.splits if_splits)

lemma resolve_path_absolute:
  "is_resolved p \<Longrightarrow> has_flag fl 2 \<Longrightarrow> resolve_path env (Some p) fl = Some p"
  by (auto simp: resolve_path_def)

text \<open>The working directory's path starts at the root.\<close>

definition pwd_absolute :: "kenv \<Rightarrow> bool" where
  "pwd_absolute env \<longleftrightarrow> (\<forall>p. d_path_pwd env = Some p \<longrightarrow> is_resolved p)"

lemma resolve_path_is_resolved:
  assumes "pwd_absolute env" and "resolve_path env inp 2 = Some p"
  shows "is_resolved p"
  using assms
  by (fastforce simp: resolve_path_def pwd_absolute_def bind_eq_Some_conv split: if_splits)

subsection \<open>Finding an entry by its registered path\<close>

definition lookup_reg :: "registry_entry list \<Rightarrow> string \<Rightarrow> registry_entry option" where
  "lookup_reg reg p = find (\<lambda>e. path (registered e) = Some p) reg"

lemma find_entry_resolved:
  assumes "wf_entries reg" and "is_resolved p"
    and "find_entry_by_regpath_alloc env reg (Some p) m = Some (r, m')"
  shows "r = None \<or> r = lookup_reg reg p"
proof -
  obtain solved m1 where s: "resolve_path_alloc env (Some p) 2 m = (solved, m1)"
    by (cases "resolve_path_alloc env (Some p) 2 m")
  then have "solved = None \<or> solved = Some p"
    using resolve_path_alloc_sound [OF s] assms(2) by (simp add: resolve_path_absolute)
  then show ?thesis
    using assms s search_entry_registered [OF assms(1), of p env]
    by (auto simp: find_entry_by_regpath_alloc_def lookup_reg_def)
qed

lemma find_entry_no_oom:
  assumes "no_oom env" and "wf_entries reg" and "is_resolved p"
  shows "\<exists>m'. find_entry_by_regpath_alloc env reg (Some p) m = Some (lookup_reg reg p, m')"
proof -
  obtain solved m1 where s: "resolve_path_alloc env (Some p) 2 m = (solved, m1)"
    by (cases "resolve_path_alloc env (Some p) 2 m")
  then have "solved = Some p"
    using resolve_path_alloc_no_oom [OF assms(1) s] assms(3) by (simp add: resolve_path_absolute)
  then show ?thesis
    using assms s search_entry_registered [OF assms(2), of p env]
    by (auto simp: find_entry_by_regpath_alloc_def lookup_reg_def)
qed

lemma find_entry_mem:
  assumes "find_entry_by_regpath_alloc env reg inp m = Some (r, m')"
  shows "preempt m' = preempt m" and "live m \<le> live m'" and "slept m \<Longrightarrow> slept m'"
  using assms resolve_path_alloc_mem
  by (auto simp: find_entry_by_regpath_alloc_def Let_def bind_eq_Some_conv
      split: option.splits prod.splits)

subsection \<open>The path of a dentry\<close>

lemma extract_path_mem:
  assumes "extract_path_from_dentry env d m = Some (r, m')"
  shows "preempt m' = preempt m" and "slept m' = slept m" and "live m' = live m"
  using assms
  by (auto simp: extract_path_from_dentry_def kmalloc_def kfree_def Let_def
      split: option.splits if_splits)

lemma extract_path_sound:
  assumes "extract_path_from_dentry env d m = Some (Some p, m')"
  shows "\<exists>q. dentry_path_raw env d = Some q \<and> p = stale env q"
  using assms
  by (auto simp: extract_path_from_dentry_def Let_def split: option.splits prod.splits if_splits)

lemma extract_path_no_oom:
  assumes "no_oom env" and "dentry_path_raw env d = Some p"
  shows "\<exists>m'. extract_path_from_dentry env d m = Some (Some (stale env p), m')"
  using assms by (simp add: extract_path_from_dentry_def kmalloc_def Let_def)

end
