(* ===== verification/Hashing.thy ===== *)
theory Hashing
  imports Kernel
begin

text \<open>
  \<open>misc/misc.c\<close>: SHA-256 digests as hexadecimal strings. The digest itself and the return
  codes of the crypto API are parameters; the buffer the digits are printed into is modelled byte
  by byte, so that the bounds of every write are part of the model.
\<close>

abbreviation SHA256_DIGEST_SIZE :: nat where "SHA256_DIGEST_SIZE \<equiv> 32"

definition HASH_STRING_SIZE :: nat where
  "HASH_STRING_SIZE = 2 * SHA256_DIGEST_SIZE + 1"

text \<open>The loop of \<open>hexconv\<close>: \<open>k\<close> rounds are left, the next is round \<open>i\<close>.\<close>

fun hexconv_loop :: "u8 list \<Rightarrow> nat \<Rightarrow> nat \<Rightarrow> char list \<Rightarrow> char list option" where
  "hexconv_loop hash 0 i out = Some out"
| "hexconv_loop hash (Suc k) i out =
     (if i < length hash
      then do {
        out1 \<leftarrow> put_str out (i * 2) (hex2 (hash ! i));
        hexconv_loop hash k (Suc i) out1
      }
      else None)"

definition hexconv :: "u8 list \<Rightarrow> char list \<Rightarrow> nat \<Rightarrow> char list option" where
  "hexconv hash out hash_size = do {
     out1 \<leftarrow> hexconv_loop hash hash_size 0 out;
     put_char out1 (hash_size * 2) NUL
   }"

text \<open>The digits that are to come out.\<close>

definition hex_string :: "u8 list \<Rightarrow> string" where
  "hex_string hash = concat (map hex2 hash)"

subsection \<open>Hexadecimal digits\<close>

lemma of_char_digit_char: "d < 16 \<Longrightarrow> of_char (digit_char d) = (if d < 10 then 48 + d else 87 + d)"
  by (simp add: digit_char_def)

lemma digit_char_not_NUL [simp]: "d < 16 \<Longrightarrow> digit_char d \<noteq> NUL"
proof
  assume "d < 16" and "digit_char d = NUL"
  then have "of_char (digit_char d) = (0::nat)" by simp
  with \<open>d < 16\<close> show False by (simp add: of_char_digit_char split: if_splits)
qed

definition hex_value :: "char \<Rightarrow> nat option" where
  "hex_value c = (let n = of_char c in
     if 48 \<le> n \<and> n < 58 then Some (n - 48)
     else if 97 \<le> n \<and> n < 103 then Some (n - 87) else None)"

lemma hex_value_digit_char [simp]: "d < 16 \<Longrightarrow> hex_value (digit_char d) = Some d"
  by (simp add: hex_value_def of_char_digit_char Let_def)

lemma hex_value_Some_iff: "hex_value c = Some d \<longleftrightarrow> d < 16 \<and> c = digit_char d"
proof
  assume "hex_value c = Some d"
  then have "d < 16 \<and> of_char c = (if d < 10 then 48 + d else 87 + d)"
    by (auto simp: hex_value_def Let_def split: if_splits)
  then show "d < 16 \<and> c = digit_char d"
    unfolding digit_char_def by (metis char_of_char)
qed auto

lemma unat_u8_digits: "unat (b::u8) div 16 < 16" "unat (b::u8) mod 16 < 16"
  using unsigned_less [of b, where ?'a = nat] by (auto simp: less_mult_imp_div_less)

lemma length_hex2 [simp]: "length (hex2 b) = 2"
  by (simp add: hex2_def)

lemma nul_free_hex2 [simp]: "nul_free (hex2 b)"
  by (simp add: hex2_def unat_u8_digits)

lemma length_hex_string [simp]: "length (hex_string hash) = 2 * length hash"
  by (induction hash) (simp_all add: hex_string_def)

lemma nul_free_hex_string [simp]: "nul_free (hex_string hash)"
  by (induction hash) (simp_all add: hex_string_def)

text \<open>Reading the digits back.\<close>

fun unhex :: "string \<Rightarrow> u8 list option" where
  "unhex [] = Some []"
| "unhex [c] = None"
| "unhex (c # d # cs) = do {
     h \<leftarrow> hex_value c;
     l \<leftarrow> hex_value d;
     bs \<leftarrow> unhex cs;
     Some (of_nat (16 * h + l) # bs)
   }"

lemma unhex_hex2: "unhex (hex2 b @ cs) = map_option ((#) b) (unhex cs)"
proof -
  have "16 * (unat b div 16) + unat b mod 16 = unat b" by simp
  then have "of_nat (16 * (unat b div 16) + unat b mod 16) = b" by (simp only: unsigned_of_nat word_of_nat_eq_iff) (metis of_nat_unat ucast_id)
  then show ?thesis
    by (cases "unhex cs") (simp_all add: hex2_def unat_u8_digits del: of_nat_add of_nat_mult)
qed

lemma unhex_hex_string [simp]: "unhex (hex_string bs) = Some bs"
  by (induction bs) (simp_all add: hex_string_def unhex_hex2)

lemma unat_of_nat_byte: "h < 16 \<Longrightarrow> l < 16 \<Longrightarrow> unat (of_nat (16 * h + l) :: u8) = 16 * h + l"
  by (simp only: unsigned_of_nat) (simp add: take_bit_eq_mod)

lemma hex2_of_nat: "h < 16 \<Longrightarrow> l < 16 \<Longrightarrow> hex2 (of_nat (16 * h + l)) = [digit_char h, digit_char l]"
  unfolding hex2_def by (simp only: unat_of_nat_byte) simp

lemma hex_string_unhex: "unhex cs = Some bs \<Longrightarrow> hex_string bs = cs"
proof (induction cs arbitrary: bs rule: unhex.induct)
  case (3 c d cs)
  then obtain h l bs' where hl: "hex_value c = Some h" "hex_value d = Some l"
    and bs': "unhex cs = Some bs'" and bs: "bs = of_nat (16 * h + l) # bs'"
    by (auto simp: bind_eq_Some_conv)
  have "hex_string bs' = cs" by (rule "3.IH" [OF hl bs'])
  with hl bs show ?case
    using hex2_of_nat [of h l] by (simp add: hex_string_def hex_value_Some_iff)
qed (simp_all add: hex_string_def)

interpretation hex_digest: codec "\<lambda>_. True" "\<lambda>bs. Some (hex_string bs)" unhex
  by unfold_locales (auto dest: hex_string_unhex)

lemma hex_string_eq_iff [simp]: "hex_string a = hex_string b \<longleftrightarrow> a = b"
  using hex_digest.enc_eq_iff [of a b] by simp

subsection \<open>The printing loop\<close>

lemma put_str_Some [simp]:
  "i + length s < length buf \<Longrightarrow>
     put_str buf i s = Some (take i buf @ s @ [NUL] @ drop (i + length s + 1) buf)"
  by (simp add: put_str_def)

lemma hexconv_loop_fills:
  assumes "i + k \<le> length hash" and "2 * (i + k) < length out"
    and "take (2 * i) out = hex_string (take i hash)"
  shows "\<exists>out'. hexconv_loop hash k i out = Some out' \<and> length out' = length out \<and>
    take (2 * (i + k)) out' = hex_string (take (i + k) hash)"
  using assms
proof (induction k arbitrary: i out)
  case 0
  then show ?case by simp
next
  case (Suc k)
  let ?out = "take (i * 2) out @ hex2 (hash ! i) @ [NUL] @ drop (i * 2 + 2 + 1) out"
  have "take (2 * Suc i) ?out = take (2 * i) out @ hex2 (hash ! i)"
    using Suc.prems(2) by (simp add: mult.commute min_def)
  also have "\<dots> = hex_string (take (Suc i) hash)"
    using Suc.prems(1,3) by (simp add: hex_string_def take_Suc_conv_app_nth)
  finally have "take (2 * Suc i) ?out = hex_string (take (Suc i) hash)" .
  moreover have "length ?out = length out" using Suc.prems(2) by simp
  ultimately obtain out' where "hexconv_loop hash k (Suc i) ?out = Some out' \<and>
      length out' = length out \<and> take (2 * (Suc i + k)) out' = hex_string (take (Suc i + k) hash)"
    using Suc.IH [of "Suc i" ?out] Suc.prems by auto
  moreover have "put_str out (i * 2) (hex2 (hash ! i)) = Some ?out" "i < length hash"
    using Suc.prems by simp_all
  ultimately show ?case by simp
qed

lemma cstr_take_upd: "nul_free (take n buf) \<Longrightarrow> n < length buf \<Longrightarrow> cstr (buf[n := NUL]) = take n buf"
  by (simp add: upd_conv_take_nth_drop cstr_append_NUL)

lemma hexconv_ok:
  assumes "length hash = n" and "2 * n < length out"
  shows "\<exists>out'. hexconv hash out n = Some out' \<and> length out' = length out \<and>
    cstr out' = hex_string hash"
proof -
  obtain out1 where l: "hexconv_loop hash n 0 out = Some out1" "length out1 = length out"
    and t: "take (2 * n) out1 = hex_string hash"
    using hexconv_loop_fills [of 0 n hash out] assms by (auto simp: hex_string_def)
  have "nul_free (take (2 * n) out1)" unfolding t by simp
  then have "cstr (out1[2 * n := NUL]) = hex_string hash"
    using cstr_take_upd [of "2 * n" out1] l(2) t assms(2) by simp
  then show ?thesis
    using l assms(2) by (simp add: hexconv_def put_char_def mult.commute)
qed

subsection \<open>The hash context\<close>

text \<open>
  \<open>alloc_hash_desc\<close>: true is a descriptor, false is NULL. One block is outstanding after a success.
\<close>

definition alloc_hash_desc :: "kenv \<Rightarrow> kmem \<Rightarrow> bool \<times> kmem" where
  "alloc_hash_desc env m =
     (if \<not> shash_alloc_ok env then (False, m) else kmalloc env GFP_KERNEL m)"

text \<open>\<open>shash_comp\<close>: the return code and, when it is 0, the digest.\<close>

definition shash_comp :: "kenv \<Rightarrow> string \<Rightarrow> int \<times> u8 list" where
  "shash_comp env input =
     (if shash_init_ret env \<noteq> 0 then (shash_init_ret env, [])
      else if shash_update_ret env input \<noteq> 0 then (shash_update_ret env input, [])
      else if shash_final_ret env \<noteq> 0 then (shash_final_ret env, [])
      else (0, sha256 env input))"

text \<open>A fresh block: its bytes are whatever the allocator left there.\<close>

definition fresh_buf :: "kenv \<Rightarrow> nat \<Rightarrow> char list" where
  "fresh_buf env n = map (junk env) [0..<n]"

lemma length_fresh_buf [simp]: "length (fresh_buf env n) = n"
  by (simp add: fresh_buf_def)

text \<open>
  \<open>hashgen_str\<close>. When the output buffer cannot be allocated, the code jumps past the
  assignment of \<open>desc\<close> and frees the uninitialised pointer: a crash. When the digest fails, the
  output buffer is not freed.
\<close>

definition hashgen_str :: "kenv \<Rightarrow> string \<Rightarrow> kmem \<Rightarrow> (cptr \<times> kmem) option" where
  "hashgen_str env str m =
     (let (ok, m1) = kmalloc env GFP_KERNEL m in
      if \<not> ok then None
      else let (ok, m2) = alloc_hash_desc env m1 in
      if \<not> ok then Some (None, m2)
      else let (ret, hash) = shash_comp env str in
      if ret \<noteq> 0 then Some (None, kfree m2)
      else do {
        out \<leftarrow> hexconv hash (fresh_buf env HASH_STRING_SIZE) SHA256_DIGEST_SIZE;
        Some (Some (cstr out), kfree m2)
      })"

text \<open>
  The reading loop of \<open>hashgen_filecont\<close>: \<open>None\<close> is a file that never ends; otherwise the
  last return code and the bytes that went into the hash.
\<close>

abbreviation buf_size :: nat where "buf_size \<equiv> 4096"

partial_function (option) hash_file_loop ::
    "kenv \<Rightarrow> string \<Rightarrow> nat \<Rightarrow> string \<Rightarrow> (int \<times> string) option" where
  "hash_file_loop env filepath offset hashed =
     (case kernel_read env filepath offset of
        Inl err \<Rightarrow> Some (err, hashed)
      | Inr chunk \<Rightarrow>
          if chunk = [] then Some (0, hashed)
          else if shash_update_ret env chunk \<noteq> 0 then Some (shash_update_ret env chunk, hashed)
          else hash_file_loop env filepath (offset + length chunk) (hashed @ chunk))"

text \<open>
  \<open>hashgen_filecont\<close>. The three early exits before the file is open jump to the label that
  closes it: a crash on an uninitialised pointer.
\<close>

definition hashgen_filecont :: "kenv \<Rightarrow> string \<Rightarrow> kmem \<Rightarrow> (cptr \<times> kmem) option" where
  "hashgen_filecont env filepath m =
     (let (ok, m1) = kmalloc env GFP_KERNEL m in
      if \<not> ok then None
      else let (ok, m2) = kmalloc env GFP_KERNEL m1 in
      if \<not> ok then None
      else let (ok, m3) = alloc_hash_desc env m2 in
      if \<not> ok then None
      else let fail = Some (None, kfree (kfree (kfree m3))) in
      if shash_init_ret env \<noteq> 0 then fail
      else if \<not> filp_open_ok env filepath then fail
      else do {
        (ret, hashed) \<leftarrow> hash_file_loop env filepath 0 [];
        if ret \<noteq> 0 then fail
        else if shash_final_ret env \<noteq> 0 then fail
        else do {
          out \<leftarrow> hexconv (sha256 env hashed) (fresh_buf env HASH_STRING_SIZE) SHA256_DIGEST_SIZE;
          Some (Some (cstr out), kfree (kfree m3))
        }
      })"

text \<open>\<open>check_list_init\<close>: both links of the head point at the head.\<close>

definition check_list_init :: "'a list \<Rightarrow> bool" where
  "check_list_init l \<longleftrightarrow> l = []"

subsection \<open>What the digests are\<close>

text \<open>The hexadecimal SHA-256 of a string, as the instance stores it.\<close>

definition digest_of :: "kenv \<Rightarrow> string \<Rightarrow> string" where
  "digest_of env str = hex_string (sha256 env str)"

lemma hexconv_digest:
  "length hash = 32 \<Longrightarrow>
     \<exists>out. hexconv hash (fresh_buf env HASH_STRING_SIZE) 32 = Some out \<and> cstr out = hex_string hash"
  using hexconv_ok [of hash 32 "fresh_buf env HASH_STRING_SIZE"]
  by (auto simp: HASH_STRING_SIZE_def)

lemma shash_comp_ok: "crypto_ok env \<Longrightarrow> shash_comp env s = (0, sha256 env s)"
  by (simp add: shash_comp_def crypto_ok_def)

lemma shash_comp_0D: "shash_comp env s = (0, hash) \<Longrightarrow> hash = sha256 env s"
  by (auto simp: shash_comp_def split: if_splits)

text \<open>A successful run: memory that is enough and a crypto API that works.\<close>

lemma hashgen_str_ok:
  assumes "no_oom env" and "crypto_ok env"
  shows "\<exists>m'. hashgen_str env str m = Some (Some (digest_of env str), m') \<and>
    preempt m' = preempt m \<and> live m' = live m + 1 \<and> (slept m' \<longleftrightarrow> slept m \<or> 0 < preempt m)"
proof -
  have "length (sha256 env str) = 32" using assms(2) by (simp add: crypto_ok_def)
  then obtain out where "hexconv (sha256 env str) (fresh_buf env HASH_STRING_SIZE) 32 = Some out"
    "cstr out = hex_string (sha256 env str)" using hexconv_digest by blast
  with assms show ?thesis
    by (auto simp: hashgen_str_def alloc_hash_desc_def kmalloc_def Let_def shash_comp_ok
        digest_of_def kfree_def crypto_ok_def)
qed

text \<open>Whatever the allocator and the crypto API do, a digest that comes out is the right one.\<close>

lemma hashgen_str_sound:
  assumes "hashgen_str env str m = Some (Some h, m')" and "\<And>x. length (sha256 env x) = 32"
  shows "h = digest_of env str"
proof -
  obtain out where "hexconv (sha256 env str) (fresh_buf env HASH_STRING_SIZE) 32 = Some out"
    "cstr out = hex_string (sha256 env str)" using hexconv_digest assms(2) by blast
  with assms(1) show ?thesis
    by (auto simp: hashgen_str_def Let_def digest_of_def bind_eq_Some_conv
        split: prod.splits if_splits dest!: shash_comp_0D)
qed

lemma hashgen_str_preempt [mem_simps]:
  "hashgen_str env str m = Some (r, m') \<Longrightarrow> preempt m' = preempt m"
  by (auto simp: hashgen_str_def alloc_hash_desc_def Let_def kfree_simps bind_eq_Some_conv
      split: prod.splits if_splits dest!: kmalloc_preempt)

text \<open>
  A file that holds \<open>c\<close>: each read gives a piece of what is left, at most a buffer long, and
  nothing only at the end.
\<close>

definition file_holds :: "kenv \<Rightarrow> string \<Rightarrow> string \<Rightarrow> bool" where
  "file_holds env p c \<longleftrightarrow>
     filp_open_ok env p \<and>
     (\<forall>off. \<exists>n. kernel_read env p off = Inr (take n (drop off c)) \<and> 0 < n \<and> n \<le> buf_size)"

lemma hash_file_loop_all:
  assumes "file_holds env p c" and "\<And>x. shash_update_ret env x = 0" and "off \<le> length c"
  shows "hash_file_loop env p off (take off c) = Some (0, c)"
  using assms(3)
proof (induction "length c - off" arbitrary: off rule: less_induct)
  case less
  obtain n where n: "kernel_read env p off = Inr (take n (drop off c))" "0 < n"
    using assms(1) unfolding file_holds_def by blast
  show ?case
  proof (cases "off = length c")
    case True
    with n show ?thesis by (simp add: hash_file_loop.simps)
  next
    case False
    let ?chunk = "take n (drop off c)" and ?off = "off + min n (length c - off)"
    have "length ?chunk = min n (length c - off)" by simp
    moreover have "?chunk \<noteq> []" using False less.prems n(2) by simp
    moreover have "take off c @ ?chunk = take ?off c"
      by (cases "n \<le> length c - off") (simp_all add: take_add)
    moreover have "hash_file_loop env p ?off (take ?off c) = Some (0, c)"
      using False less.prems n(2) by (intro less.hyps) auto
    ultimately show ?thesis
      using n(1) assms(2) by (simp add: hash_file_loop.simps [of env p off] min.commute)
  qed
qed

text \<open>Hashing a file in pieces is hashing its contents.\<close>

lemma hashgen_filecont_ok:
  assumes "no_oom env" and "crypto_ok env" and "file_holds env p c"
  shows "\<exists>m'. hashgen_filecont env p m = Some (Some (digest_of env c), m') \<and>
    preempt m' = preempt m \<and> live m' = live m + 1 \<and> (slept m' \<longleftrightarrow> slept m \<or> 0 < preempt m)"
proof -
  have "length (sha256 env c) = 32" using assms(2) by (simp add: crypto_ok_def)
  then obtain out where "hexconv (sha256 env c) (fresh_buf env HASH_STRING_SIZE) 32 = Some out"
    "cstr out = hex_string (sha256 env c)" using hexconv_digest by blast
  moreover have "hash_file_loop env p 0 [] = Some (0, c)"
    using hash_file_loop_all [of env p c 0] assms by (simp add: crypto_ok_def)
  moreover have "filp_open_ok env p" using assms(3) by (simp add: file_holds_def)
  ultimately show ?thesis
    using assms(1,2) by (auto simp: hashgen_filecont_def alloc_hash_desc_def kmalloc_def Let_def
        digest_of_def kfree_def crypto_ok_def)
qed


lemma hashgen_filecont_preempt [mem_simps]:
  "hashgen_filecont env p m = Some (r, m') \<Longrightarrow> preempt m' = preempt m"
  by (auto simp: hashgen_filecont_def alloc_hash_desc_def Let_def kfree_simps bind_eq_Some_conv
      split: prod.splits if_splits dest!: kmalloc_preempt)

end
