(* ===== verification/Safety.thy ===== *)
theory Safety
  imports Hashing
begin

text \<open>
  \<open>syscalls/safety.c\<close>: who may call what. The checks read the instance and thread the allocator's
  bookkeeping. \<open>safety_verdict\<close> is what they decide when memory and the crypto API do not fail;
  without that, a check that passes has still seen root, a reconfigurable state and the password.
\<close>

abbreviation REFMON_SAFETY_CHECK_NONE :: u32 where "REFMON_SAFETY_CHECK_NONE \<equiv> 0x0"
abbreviation REFMON_SAFETY_CHECK_ROOT :: u32 where "REFMON_SAFETY_CHECK_ROOT \<equiv> 0x1"
abbreviation REFMON_SAFETY_CHECK_RECONF :: u32 where "REFMON_SAFETY_CHECK_RECONF \<equiv> 0x2"
abbreviation REFMON_SAFETY_CHECK_PASSWORD :: u32 where "REFMON_SAFETY_CHECK_PASSWORD \<equiv> 0x4"

text \<open>\<open>is_euid_root\<close>: user ids are unsigned, so the first branch is never taken.\<close>

definition is_euid_root :: "kenv \<Rightarrow> int" where
  "is_euid_root env =
     (if euid env < 0 then sint (euid env) else if euid env = 0 then 1 else 0)"

text \<open>\<open>sanitize_user_input_alloc\<close>: the length is taken before the test for NULL.\<close>

definition sanitize_user_input_alloc :: "kenv \<Rightarrow> cptr \<Rightarrow> kmem \<Rightarrow> (cptr \<times> kmem) option" where
  "sanitize_user_input_alloc env unsafe_input m =
     (case unsafe_input of
        None \<Rightarrow> None
      | Some input \<Rightarrow>
          if match_string input '''' then Some (None, m)
          else let (ok, m1) = kmalloc env GFP_ATOMIC m in
          if \<not> ok then Some (None, m1)
          else case copy_from_user env input of
            None \<Rightarrow> Some (None, kfree m1)
          | Some safe_output \<Rightarrow> Some (Some safe_output, m1))"

definition check_reconf :: "refmon \<Rightarrow> int" where
  "check_reconf r = (if \<not> is_reconf r then - 1 else 0)"

text \<open>
  \<open>MATCH_STRING(hashgen_str(safe_password), the_instance.password)\<close>. The macro repeats its first
  argument: the password is hashed for the comparison, for its length, and, when the comparison
  finds no difference, a third time for the second length. A NULL hash is a crash.
\<close>

definition password_matches ::
    "kenv \<Rightarrow> string \<Rightarrow> cptr \<Rightarrow> kmem \<Rightarrow> (bool \<times> kmem) option" where
  "password_matches env safe_password stored_ptr m = do {
     (str1, m1) \<leftarrow> hashgen_str env safe_password m;
     (str2, m2) \<leftarrow> hashgen_str env safe_password m1;
     h1 \<leftarrow> str1;
     h2 \<leftarrow> str2;
     stored \<leftarrow> stored_ptr;
     if strncmp h1 stored (strlen h2) = 0
     then do {
       (str3, m3) \<leftarrow> hashgen_str env safe_password m2;
       h3 \<leftarrow> str3;
       Some (strlen h3 = strlen stored, m3)
     }
     else Some (False, m2)
   }"

text \<open>The last block of \<open>safety_checks\<close> with its exit: \<open>FREE(safe_password)\<close>.\<close>

definition check_password :: "kenv \<Rightarrow> cptr \<Rightarrow> refmon \<Rightarrow> kmem \<Rightarrow> (int \<times> kmem) option" where
  "check_password env arg r m = do {
     (safe_password, m1) \<leftarrow> sanitize_user_input_alloc env arg m;
     case safe_password of
       None \<Rightarrow> Some (- EINVAL, m1)
     | Some pw \<Rightarrow> do {
         (same, m2) \<leftarrow> password_matches env pw (password r) m1;
         if \<not> same then Some (- EACCES, kfree m2) else Some (0, kfree m2)
       }
   }"

text \<open>\<open>safety_checks\<close>; \<open>caught\<close> counts the checks that were recognised.\<close>

definition safety_checks ::
    "kenv \<Rightarrow> u32 \<Rightarrow> cptr \<Rightarrow> refmon \<Rightarrow> kmem \<Rightarrow> (int \<times> kmem) option" where
  "safety_checks env checks arg r m =
     (let caught = of_bool (has_flag checks REFMON_SAFETY_CHECK_ROOT) +
                   of_bool (has_flag checks REFMON_SAFETY_CHECK_RECONF) +
                   (of_bool (has_flag checks REFMON_SAFETY_CHECK_PASSWORD) :: nat);
          is_root = is_euid_root env in
      if has_flag checks REFMON_SAFETY_CHECK_NONE then Some (0, m)
      else if has_flag checks REFMON_SAFETY_CHECK_ROOT \<and> is_root < 0 then Some (- EINVAL, m)
      else if has_flag checks REFMON_SAFETY_CHECK_ROOT \<and> is_root = 0 then Some (- EACCES, m)
      else if has_flag checks REFMON_SAFETY_CHECK_RECONF \<and> check_reconf r \<noteq> 0
      then Some (- EPERM, m)
      else if has_flag checks REFMON_SAFETY_CHECK_PASSWORD then check_password env arg r m
      else if caught = 0 then Some (- ENOTRECOVERABLE, m)
      else Some (0, m))"

subsection \<open>The single checks\<close>

lemma is_euid_root_simp [simp]: "is_euid_root env = (if euid env = 0 then 1 else 0)"
  by (simp add: is_euid_root_def)

lemma check_reconf_simp [simp]: "check_reconf r = (if is_reconf r then 0 else - 1)"
  by (simp add: check_reconf_def)

lemma sanitize_mem:
  assumes "sanitize_user_input_alloc env u m = Some (r, m')"
  shows "preempt m' = preempt m"
    and "live m' = live m + (if r = None then 0 else 1)" and "slept m' = slept m"
  using assms
  by (auto simp: sanitize_user_input_alloc_def kmalloc_def kfree_def Let_def
      split: option.splits if_splits)

text \<open>What a sanitized string is: the copy of a string that is not empty.\<close>

lemma sanitize_outcome [outcome]:
  assumes "sanitize_user_input_alloc env u m = Some (Some t, m')"
  shows "\<exists>input. u = Some input \<and> input \<noteq> '''' \<and> copy_from_user env input = Some t"
  using assms
  by (auto simp: sanitize_user_input_alloc_def Let_def split: option.splits prod.splits if_splits)

lemma sanitize_ok:
  assumes "no_oom env" and "user_ok env"
  shows "\<exists>m'. sanitize_user_input_alloc env (Some u) m = Some (if u = '''' then None else Some u, m')"
  using assms by (simp add: sanitize_user_input_alloc_def kmalloc_def Let_def)

lemma password_matches_sound:
  assumes "password_matches env pw stored m = Some (True, m')"
    and len: "\<And>x. length (sha256 env x) = 32"
  shows "stored = Some (digest_of env pw)"
proof -
  obtain m1 m2 m3 h1 h2 h3 t where
    h: "hashgen_str env pw m = Some (Some h1, m1)" "hashgen_str env pw m1 = Some (Some h2, m2)"
      "hashgen_str env pw m2 = Some (Some h3, m3)"
    and t: "stored = Some t" "strncmp h1 t (length h2) = 0" "length h3 = length t"
    using assms(1) by (auto simp: password_matches_def bind_eq_Some_conv split: if_splits)
  have "h1 = digest_of env pw" "h2 = digest_of env pw" "h3 = digest_of env pw"
    using h len by (blast dest: hashgen_str_sound)+
  with t show ?thesis by (simp add: strncmp_eq_0_iff)
qed

lemma password_matches_ok:
  assumes "no_oom env" and "crypto_ok env"
  shows "\<exists>m'. password_matches env pw (Some stored) m = Some (stored = digest_of env pw, m')"
proof -
  obtain m1 where 1: "hashgen_str env pw m = Some (Some (digest_of env pw), m1)"
    using hashgen_str_ok [OF assms] by blast
  obtain m2 where 2: "hashgen_str env pw m1 = Some (Some (digest_of env pw), m2)"
    using hashgen_str_ok [OF assms] by blast
  obtain m3 where 3: "hashgen_str env pw m2 = Some (Some (digest_of env pw), m3)"
    using hashgen_str_ok [OF assms] by blast
  show ?thesis
    by (auto simp: password_matches_def 1 2 3 strncmp_eq_0_iff)
qed

lemma password_matches_preempt:
  assumes "password_matches env pw stored m = Some (b, m')"
  shows "preempt m' = preempt m"
proof -
  obtain r1 r2 m1 m2 where h: "hashgen_str env pw m = Some (r1, m1)" "hashgen_str env pw m1 = Some (r2, m2)"
    and "m' = m2 \<or> (\<exists>r3. hashgen_str env pw m2 = Some (r3, m'))"
    using assms by (auto simp: password_matches_def bind_eq_Some_conv split: if_splits)
  then show ?thesis by (metis hashgen_str_preempt)
qed

lemma check_password_preempt:
  assumes "check_password env arg r m = Some (ret, m')"
  shows "preempt m' = preempt m"
proof -
  obtain sp m1 where s: "sanitize_user_input_alloc env arg m = Some (sp, m1)"
    using assms by (auto simp: check_password_def bind_eq_Some_conv)
  show ?thesis
  proof (cases sp)
    case None
    with s assms show ?thesis by (simp add: check_password_def sanitize_mem(1))
  next
    case (Some pw)
    then obtain b m2 where "password_matches env pw (password r) m1 = Some (b, m2)" "m' = kfree m2"
      using s assms by (auto simp: check_password_def bind_eq_Some_conv split: if_splits)
    with s show ?thesis by (simp add: sanitize_mem(1) password_matches_preempt mem_simps)
  qed
qed

lemma safety_checks_preempt:
  "safety_checks env checks arg r m = Some (ret, m') \<Longrightarrow> preempt m' = preempt m"
  by (auto simp: safety_checks_def Let_def split: if_splits dest: check_password_preempt)

lemma check_password_sound:
  assumes "check_password env arg r m = Some (0, m')" and len: "\<And>x. length (sha256 env x) = 32"
  shows "\<exists>input pw. arg = Some input \<and> copy_from_user env input = Some pw \<and>
    password r = Some (digest_of env pw)"
proof -
  obtain pw m1 m2 where "sanitize_user_input_alloc env arg m = Some (Some pw, m1)"
    and "password_matches env pw (password r) m1 = Some (True, m2)"
    using assms(1) by (auto simp: check_password_def bind_eq_Some_conv split: option.splits if_splits)
  then show ?thesis using sanitize_outcome password_matches_sound [OF _ len] by blast
qed

text \<open>The error codes a password check gives.\<close>

lemma check_password_codes:
  "check_password env arg r m = Some (ret, m') \<Longrightarrow> ret \<in> {0, - EINVAL, - EACCES}"
  by (auto simp: check_password_def bind_eq_Some_conv split: option.splits if_splits)

lemma check_password_ok:
  assumes "no_oom env" and "crypto_ok env" and "user_ok env" and "password r = Some stored"
  shows "\<exists>m'. check_password env (Some w) r m =
    Some (if w = '''' then - EINVAL else if stored = digest_of env w then 0 else - EACCES, m')"
proof -
  obtain m1 where 1: "sanitize_user_input_alloc env (Some w) m =
      Some (if w = '''' then None else Some w, m1)"
    using sanitize_ok [OF assms(1,3)] by blast
  obtain m2 where "password_matches env w (Some stored) m1 = Some (stored = digest_of env w, m2)"
    using password_matches_ok [OF assms(1,2)] by blast
  with 1 show ?thesis using assms(4) by (auto simp: check_password_def)
qed

subsection \<open>The checks of the handlers\<close>

abbreviation RECONF_CHECKS :: u32 where
  "RECONF_CHECKS \<equiv> REFMON_SAFETY_CHECK_ROOT OR REFMON_SAFETY_CHECK_RECONF OR
     REFMON_SAFETY_CHECK_PASSWORD"

lemma safety_checks_root [simp]:
  "safety_checks env REFMON_SAFETY_CHECK_ROOT arg r m =
     Some (if euid env = 0 then 0 else - EACCES, m)"
  by (simp add: safety_checks_def has_flag_def)

lemma safety_checks_reconf:
  "safety_checks env RECONF_CHECKS arg r m =
     (if euid env \<noteq> 0 then Some (- EACCES, m)
      else if \<not> is_reconf r then Some (- EPERM, m)
      else check_password env arg r m)"
  by (simp add: safety_checks_def has_flag_def)

text \<open>The decision itself, as a table.\<close>

definition safety_verdict :: "kenv \<Rightarrow> string \<Rightarrow> refmon \<Rightarrow> int" where
  "safety_verdict env w r =
     (if euid env \<noteq> 0 then - EACCES
      else if \<not> is_reconf r then - EPERM
      else if w = '''' then - EINVAL
      else if password r \<noteq> Some (digest_of env w) then - EACCES
      else 0)"

lemma safety_checks_verdict:
  assumes "no_oom env" and "crypto_ok env" and "user_ok env" and "password r \<noteq> None"
  shows "\<exists>m'. safety_checks env RECONF_CHECKS (Some w) r m = Some (safety_verdict env w r, m')"
proof -
  obtain stored where s: "password r = Some stored" using assms(4) by blast
  then obtain m' where "check_password env (Some w) r m =
      Some (if w = '''' then - EINVAL else if stored = digest_of env w then 0 else - EACCES, m')"
    using check_password_ok [OF assms(1-3)] by blast
  then show ?thesis
    unfolding safety_checks_reconf by (auto simp: safety_verdict_def s)
qed

lemma safety_checks_granted:
  assumes "safety_checks env RECONF_CHECKS arg r m = Some (0, m')"
    and "\<And>x. length (sha256 env x) = 32"
  shows "euid env = 0" and "is_reconf r"
    and "\<exists>input pw. arg = Some input \<and> copy_from_user env input = Some pw \<and>
      password r = Some (digest_of env pw)"
  using assms check_password_sound [of env arg r m m']
  unfolding safety_checks_reconf by (auto split: if_splits)

end
