(* ===== verification/Probing.thy ===== *)
theory Probing
  imports Kernel
begin

text \<open>
  \<open>probing/probing.c\<close> and the probe table of \<open>probing/probing-handlers.c\<close>: registering,
  enabling and disabling the five kretprobes. What the kernel answers is a parameter; an answer that
  is not 0 leaves the probe as it was. The code reads the answers of the registrations only.
\<close>

datatype hook = Hook_open | Hook_rm | Hook_mkdir

abbreviation (input) REFMON_PROBES_NO :: nat where "REFMON_PROBES_NO \<equiv> 15"
abbreviation (input) KRP_TO_TAILHOOK :: int where "KRP_TO_TAILHOOK \<equiv> 0"
abbreviation (input) KRP_GO_AHEAD :: int where "KRP_GO_AHEAD \<equiv> 1"

record kretprobe =
  symbol_name :: string
  entry_handler :: hook
  maxactive :: nat
  kprobe_flag_disabled :: bool

text \<open>The five initialisers; the return handler is \<open>krp_hook_tail\<close> in all of them.\<close>

fun kretprobe_of :: "probe \<Rightarrow> kretprobe" where
  "kretprobe_of krp_vfs_open =
     \<lparr>symbol_name = ''vfs_open'', entry_handler = Hook_open,
      maxactive = REFMON_PROBES_NO, kprobe_flag_disabled = True\<rparr>"
| "kretprobe_of krp_filp_open =
     \<lparr>symbol_name = ''filp_open'', entry_handler = Hook_open,
      maxactive = REFMON_PROBES_NO, kprobe_flag_disabled = True\<rparr>"
| "kretprobe_of krp_vfs_unlink =
     \<lparr>symbol_name = ''may_delete'', entry_handler = Hook_rm,
      maxactive = REFMON_PROBES_NO, kprobe_flag_disabled = True\<rparr>"
| "kretprobe_of krp_vfs_mkdir =
     \<lparr>symbol_name = ''security_path_mkdir'', entry_handler = Hook_mkdir,
      maxactive = REFMON_PROBES_NO, kprobe_flag_disabled = True\<rparr>"
| "kretprobe_of krp_vfs_rmdir =
     \<lparr>symbol_name = ''security_path_rmdir'', entry_handler = Hook_mkdir,
      maxactive = REFMON_PROBES_NO, kprobe_flag_disabled = True\<rparr>"

subsection \<open>The kprobes interface\<close>

definition register_kretprobe :: "kenv \<Rightarrow> probe \<Rightarrow> ksys \<Rightarrow> int \<times> ksys" where
  "register_kretprobe env p s =
     (register_ret env p,
      if register_ret env p = 0
      then s\<lparr>probe_registered := (probe_registered s)(p := True),
             probe_enabled := (probe_enabled s)(p := \<not> kprobe_flag_disabled (kretprobe_of p))\<rparr>
      else s)"

definition unregister_kretprobe :: "probe \<Rightarrow> ksys \<Rightarrow> ksys" where
  "unregister_kretprobe p s =
     s\<lparr>probe_registered := (probe_registered s)(p := False),
       probe_enabled := (probe_enabled s)(p := False)\<rparr>"

definition enable_kretprobe :: "kenv \<Rightarrow> probe \<Rightarrow> ksys \<Rightarrow> ksys" where
  "enable_kretprobe env p s =
     (if probe_registered s p \<and> enable_ret env p = 0
      then s\<lparr>probe_enabled := (probe_enabled s)(p := True)\<rparr> else s)"

definition disable_kretprobe :: "kenv \<Rightarrow> probe \<Rightarrow> ksys \<Rightarrow> ksys" where
  "disable_kretprobe env p s =
     (if probe_registered s p \<and> disable_ret env p = 0
      then s\<lparr>probe_enabled := (probe_enabled s)(p := False)\<rparr> else s)"

subsection \<open>The module's operations\<close>

definition probing_off :: "kenv \<Rightarrow> ksys \<Rightarrow> int \<times> ksys" where
  "probing_off env s =
     (let s1 = disable_kretprobe env krp_vfs_open s;
          s2 = disable_kretprobe env krp_filp_open s1;
          s3 = disable_kretprobe env krp_vfs_unlink s2;
          s4 = disable_kretprobe env krp_vfs_mkdir s3;
          s5 = disable_kretprobe env krp_vfs_rmdir s4
      in (0, s5))"

definition probing_on :: "kenv \<Rightarrow> ksys \<Rightarrow> int \<times> ksys" where
  "probing_on env s =
     (let s1 = enable_kretprobe env krp_vfs_open s;
          s2 = enable_kretprobe env krp_filp_open s1;
          s3 = enable_kretprobe env krp_vfs_unlink s2;
          s4 = enable_kretprobe env krp_vfs_mkdir s3;
          s5 = enable_kretprobe env krp_vfs_rmdir s4
      in (0, s5))"

definition probing_update :: "kenv \<Rightarrow> bool \<Rightarrow> ksys \<Rightarrow> int \<times> ksys" where
  "probing_update env desired_probing_state s =
     (if desired_probing_state then probing_on env s else probing_off env s)"

text \<open>\<open>init_probes\<close>: the first registration that fails ends it.\<close>

definition init_probes :: "kenv \<Rightarrow> ksys \<Rightarrow> int \<times> ksys" where
  "init_probes env s =
     (let (ret, s1) = register_kretprobe env krp_vfs_open s in
      if ret < 0 then (ret, s1)
      else let (ret, s2) = register_kretprobe env krp_filp_open s1 in
      if ret < 0 then (ret, s2)
      else let (ret, s3) = register_kretprobe env krp_vfs_unlink s2 in
      if ret < 0 then (ret, s3)
      else let (ret, s4) = register_kretprobe env krp_vfs_mkdir s3 in
      if ret < 0 then (ret, s4)
      else let (ret, s5) = register_kretprobe env krp_vfs_rmdir s4 in
      if ret < 0 then (ret, s5)
      else (0, s5))"

definition flush_probes :: "ksys \<Rightarrow> ksys" where
  "flush_probes s =
     unregister_kretprobe krp_vfs_rmdir (unregister_kretprobe krp_vfs_mkdir
     (unregister_kretprobe krp_vfs_unlink (unregister_kretprobe krp_filp_open
     (unregister_kretprobe krp_vfs_open s))))"

subsection \<open>Their effect\<close>

lemmas probe_defs = register_kretprobe_def unregister_kretprobe_def enable_kretprobe_def
  disable_kretprobe_def

text \<open>Documented behaviour of kprobes: registration answers 0 or a negative code.\<close>

definition kprobes_ok :: "kenv \<Rightarrow> bool" where
  "kprobes_ok env \<longleftrightarrow> (\<forall>p. register_ret env p \<le> 0)"

text \<open>Arming and disarming succeed.\<close>

definition arming_ok :: "kenv \<Rightarrow> bool" where
  "arming_ok env \<longleftrightarrow> (\<forall>p. enable_ret env p = 0 \<and> disable_ret env p = 0)"

text \<open>What updating the probes does to each of them, with the kernel's answers.\<close>

definition probes_after :: "kenv \<Rightarrow> bool \<Rightarrow> ksys \<Rightarrow> probe \<Rightarrow> bool" where
  "probes_after env on s p =
     (if probe_registered s p \<and> (if on then enable_ret env p else disable_ret env p) = 0
      then on else probe_enabled s p)"

lemma enable_kretprobe_eq:
  "enable_kretprobe env p s = s\<lparr>probe_enabled := (probe_enabled s)
     (p := (if probe_registered s p \<and> enable_ret env p = 0 then True else probe_enabled s p))\<rparr>"
  by (simp add: enable_kretprobe_def)

lemma disable_kretprobe_eq:
  "disable_kretprobe env p s = s\<lparr>probe_enabled := (probe_enabled s)
     (p := (if probe_registered s p \<and> disable_ret env p = 0 then False else probe_enabled s p))\<rparr>"
  by (simp add: disable_kretprobe_def)

lemma probing_update_eq:
  "probing_update env on s = (0, s\<lparr>probe_enabled := probes_after env on s\<rparr>)"
proof (cases on)
  case True
  have "probe_enabled (snd (probing_on env s)) = probes_after env True s"
    by (simp add: fun_eq_iff all_probe probing_on_def enable_kretprobe_eq probes_after_def Let_def)
  with True show ?thesis
    by (simp add: probing_update_def probing_on_def enable_kretprobe_eq Let_def)
next
  case False
  have "probe_enabled (snd (probing_off env s)) = probes_after env False s"
    by (simp add: fun_eq_iff all_probe probing_off_def disable_kretprobe_eq probes_after_def Let_def)
  with False show ?thesis
    by (simp add: probing_update_def probing_off_def disable_kretprobe_eq Let_def)
qed

lemma probes_after_ok:
  "arming_ok env \<Longrightarrow> (\<forall>p. probe_registered s p) \<Longrightarrow> probes_after env on s = (\<lambda>_. on)"
  by (simp add: fun_eq_iff probes_after_def arming_ok_def)

text \<open>Only registered probes are enabled.\<close>

definition probes_inv :: "ksys \<Rightarrow> bool" where
  "probes_inv s \<longleftrightarrow> (\<forall>p. probe_enabled s p \<longrightarrow> probe_registered s p)"

lemma probing_update_inv:
  assumes "probes_inv s"
  shows "probes_inv (snd (probing_update env on s))"
proof -
  have "probes_after env on s p \<Longrightarrow> probe_registered s p" for p
    using assms by (cases "probe_registered s p") (simp_all add: probes_after_def probes_inv_def)
  then show ?thesis by (simp add: probing_update_eq probes_inv_def)
qed

lemma register_ret_neg: "kprobes_ok env \<Longrightarrow> register_ret env p < 0 \<longleftrightarrow> register_ret env p \<noteq> 0"
  by (metis kprobes_ok_def less_le)

lemma register_kretprobe_ok:
  "register_ret env p = 0 \<Longrightarrow> register_kretprobe env p s =
     (0, s\<lparr>probe_registered := (probe_registered s)(p := True),
           probe_enabled := (probe_enabled s)(p := False)\<rparr>)"
  by (cases p) (simp_all add: register_kretprobe_def)

lemma register_kretprobe_fails:
  "register_ret env p \<noteq> 0 \<Longrightarrow> register_kretprobe env p s = (register_ret env p, s)"
  by (simp add: register_kretprobe_def)

lemmas init_probes_steps = init_probes_def register_kretprobe_ok register_kretprobe_fails

text \<open>An error is the answer of the first probe that does not register.\<close>

lemma init_probes_error:
  assumes "kprobes_ok env" and "register_ret env p \<noteq> 0"
  shows "\<exists>q. fst (init_probes env s) = register_ret env q \<and> register_ret env q < 0"
proof -
  note neg = register_ret_neg [OF assms(1)]
  consider "register_ret env krp_vfs_open \<noteq> 0"
    | "register_ret env krp_vfs_open = 0" "register_ret env krp_filp_open \<noteq> 0"
    | "register_ret env krp_vfs_open = 0" "register_ret env krp_filp_open = 0"
      "register_ret env krp_vfs_unlink \<noteq> 0"
    | "register_ret env krp_vfs_open = 0" "register_ret env krp_filp_open = 0"
      "register_ret env krp_vfs_unlink = 0" "register_ret env krp_vfs_mkdir \<noteq> 0"
    | "register_ret env krp_vfs_open = 0" "register_ret env krp_filp_open = 0"
      "register_ret env krp_vfs_unlink = 0" "register_ret env krp_vfs_mkdir = 0"
      "register_ret env krp_vfs_rmdir \<noteq> 0"
    using assms(2) by (cases p) auto
  then show ?thesis
    by cases (auto simp: init_probes_steps neg)
qed

lemma init_probes_all:
  assumes "\<And>p. register_ret env p = 0"
  shows "init_probes env s = (0, s\<lparr>probe_registered := (\<lambda>_. True), probe_enabled := (\<lambda>_. False)\<rparr>)"
proof -
  have "probe_registered (snd (init_probes env s)) = (\<lambda>_. True)"
    "probe_enabled (snd (init_probes env s)) = (\<lambda>_. False)"
    by (simp_all add: fun_eq_iff all_probe init_probes_steps assms)
  then show ?thesis by (simp add: init_probes_steps assms)
qed

lemma init_probes_0:
  assumes "kprobes_ok env" and "init_probes env s = (0, s')"
  shows "s' = s\<lparr>probe_registered := (\<lambda>_. True), probe_enabled := (\<lambda>_. False)\<rparr>"
proof -
  have "register_ret env p = 0" for p
    using init_probes_error [OF assms(1), of p s] assms(2) by (metis fst_conv less_irrefl)
  then show ?thesis using init_probes_all [of env s] assms(2) by simp
qed

lemma flush_probes_eq:
  "flush_probes s = s\<lparr>probe_registered := (\<lambda>_. False), probe_enabled := (\<lambda>_. False)\<rparr>"
proof -
  have "probe_registered (flush_probes s) = (\<lambda>_. False)" "probe_enabled (flush_probes s) = (\<lambda>_. False)"
    by (simp_all add: fun_eq_iff all_probe flush_probes_def unregister_kretprobe_def)
  then show ?thesis by (simp add: flush_probes_def unregister_kretprobe_def)
qed


text \<open>Registering touches nothing but the probes.\<close>

definition forget_probes :: "ksys \<Rightarrow> ksys" where
  "forget_probes s = s\<lparr>probe_registered := (\<lambda>_. False), probe_enabled := (\<lambda>_. False)\<rparr>"

lemma register_kretprobe_frame:
  "register_kretprobe env p s = (r, t) \<Longrightarrow> forget_probes t = forget_probes s"
  by (auto simp: register_kretprobe_def forget_probes_def split: if_splits)

lemma init_probes_frame: "forget_probes (snd (init_probes env s)) = forget_probes s"
  unfolding init_probes_def Let_def
  by (auto split: prod.split dest!: register_kretprobe_frame)

lemma forget_probes_fields:
  assumes "forget_probes t = forget_probes s"
  shows "sct t = sct s" "restore t = restore s" "the_ni_syscall t = the_ni_syscall s"
    "hw_cr0 t = hw_cr0 s" "proc_files t = proc_files s"
  using arg_cong [OF assms, of sct] arg_cong [OF assms, of restore]
    arg_cong [OF assms, of the_ni_syscall] arg_cong [OF assms, of hw_cr0]
    arg_cong [OF assms, of proc_files]
  by (simp_all add: forget_probes_def)

end
