(* ===== verification/Handlers.thy ===== *)
theory Handlers
  imports Fsutils Safety Probing
begin

text \<open>
  \<open>syscalls/syscalls-handlers.c\<close>: the four system calls. Each takes the instance's spin lock, checks
  the caller, does its work and releases the lock on every path. A handler's result is the
  return value and the state after it; \<open>None\<close> is a crash (or a lock that is never free).

  The three handlers that change the registry share the contract \<open>reconf_call\<close>, proved once
  from the checks and interpreted for each of them.
\<close>

subsection \<open>The handlers\<close>

definition set_state_inner :: "kenv \<Rightarrow> string \<Rightarrow> ksys \<Rightarrow> int \<times> ksys" where
  "set_state_inner env new_state s =
     (let s1 = s\<lparr>the_inst := (the_inst s)\<lparr>state := string_to_state new_state\<rparr>\<rparr>;
          (ret, s2) = probing_update env (is_on (the_inst s1)) s1 in
      if ret \<noteq> 0 then (ret, s2) else (0, s2))"

definition add_file_inner :: "kenv \<Rightarrow> string \<Rightarrow> ksys \<Rightarrow> (int \<times> ksys) option" where
  "add_file_inner env p s =
     (let (ok, m1) = kmalloc env GFP_ATOMIC (mem s) in
      if \<not> ok then Some (- ENOMEM, s\<lparr>mem := m1\<rparr>)
      else let (registered_path, m2) =
        resolve_path_alloc env (Some p) REFMON_FSUTILS_IGNORE_ABSOLUTE_PATHS m1 in
      if registered_path = None then Some (- EINVAL, s\<lparr>mem := m2\<rparr>)
      else do {
        (found, m3) \<leftarrow> find_entry_by_regpath_alloc env (registry (the_inst s)) registered_path m2;
        if found \<noteq> None then Some (- EEXIST, s\<lparr>mem := m3\<rparr>)
        else let (ok, m4) = kmalloc env GFP_ATOMIC m3 in
        if \<not> ok then Some (- ENOMEM, s\<lparr>mem := m4\<rparr>)
        else let (resolved_path, m5) =
          resolve_path_alloc env (Some p)
            (REFMON_FSUTILS_RESOLVE_LINKS OR REFMON_FSUTILS_IGNORE_ABSOLUTE_PATHS) m4 in
        case resolved_path of
          None \<Rightarrow> Some (- EINVAL, s\<lparr>mem := m5\<rparr>)
        | Some resolved_str \<Rightarrow>
            let ino_registered = extract_ino_no_from_path env p in
            if ino_registered = REFMON_NO_INO_NO then Some (- EINVAL, s\<lparr>mem := m5\<rparr>)
            else let ino_resolved = extract_ino_no_from_path env resolved_str in
            if ino_resolved = REFMON_NO_INO_NO then Some (- EINVAL, s\<lparr>mem := m5\<rparr>)
            else let (ok, m6) = kmalloc env GFP_ATOMIC m5 in
            if \<not> ok then Some (- ENOMEM, s\<lparr>mem := m6\<rparr>)
            else let node = \<lparr>registered = \<lparr>path = registered_path, ino_no = ino_registered\<rparr>,
                             resolved = \<lparr>path = resolved_path, ino_no = ino_resolved\<rparr>\<rparr> in
            Some (0, s\<lparr>the_inst := (the_inst s)\<lparr>registry := registry (the_inst s) @ [node]\<rparr>,
                       mem := m6\<rparr>)
      })"

definition do_set_state :: "kenv \<Rightarrow> cptr \<Rightarrow> ksys \<Rightarrow> (int \<times> ksys) option" where
  "do_set_state env new_state s = do {
     s1 \<leftarrow> spin_instance_lock s;
     (ret, m) \<leftarrow> safety_checks env REFMON_SAFETY_CHECK_ROOT None (the_inst s1) (mem s1);
     let s2 = s1\<lparr>mem := m\<rparr>;
     (ret, s3) \<leftarrow>
       (if ret \<noteq> 0 then Some (ret, s2)
        else do {
          str \<leftarrow> new_state;
          if \<not> is_state_valid str then Some (- EINVAL, s2)
          else Some (set_state_inner env str s2)
        });
     Some (ret, spin_instance_unlock s3)
   }"

definition do_reconf_add :: "kenv \<Rightarrow> cptr \<Rightarrow> cptr \<Rightarrow> ksys \<Rightarrow> (int \<times> ksys) option" where
  "do_reconf_add env path_in password_in s = do {
     s1 \<leftarrow> spin_instance_lock s;
     (ret, m) \<leftarrow> safety_checks env
       (REFMON_SAFETY_CHECK_ROOT OR REFMON_SAFETY_CHECK_RECONF OR REFMON_SAFETY_CHECK_PASSWORD)
       password_in (the_inst s1) (mem s1);
     let s2 = s1\<lparr>mem := m\<rparr>;
     (ret, s3) \<leftarrow>
       (if ret \<noteq> 0 then Some (ret, s2)
        else do {
          (safe_path, m1) \<leftarrow> sanitize_user_input_alloc env path_in (mem s2);
          let s2a = s2\<lparr>mem := m1\<rparr>;
          case safe_path of
            None \<Rightarrow> Some (- EINVAL, s2a)
          | Some p \<Rightarrow> add_file_inner env p s2a
        });
     Some (ret, spin_instance_unlock s3)
   }"

text \<open>\<open>list_del\<close> of the node the search returned: the first entry that equals it.\<close>

definition do_reconf_rm :: "kenv \<Rightarrow> cptr \<Rightarrow> cptr \<Rightarrow> ksys \<Rightarrow> (int \<times> ksys) option" where
  "do_reconf_rm env path_in password_in s = do {
     s1 \<leftarrow> spin_instance_lock s;
     (ret, m) \<leftarrow> safety_checks env
       (REFMON_SAFETY_CHECK_ROOT OR REFMON_SAFETY_CHECK_RECONF OR REFMON_SAFETY_CHECK_PASSWORD)
       password_in (the_inst s1) (mem s1);
     let s2 = s1\<lparr>mem := m\<rparr>;
     (ret, s3) \<leftarrow>
       (if ret \<noteq> 0 then Some (ret, s2)
        else do {
          (safe_path, m1) \<leftarrow> sanitize_user_input_alloc env path_in (mem s2);
          case safe_path of
            None \<Rightarrow> Some (- EINVAL, s2\<lparr>mem := m1\<rparr>)
          | Some p \<Rightarrow>
              (let (solved, m2) =
                 resolve_path_alloc env safe_path REFMON_FSUTILS_IGNORE_ABSOLUTE_PATHS m1 in
               do {
                 (found, m3) \<leftarrow>
                   find_entry_by_regpath_alloc env (registry (the_inst s2)) solved m2;
                 case found of
                   None \<Rightarrow> Some (- ENOENT, s2\<lparr>mem := kfree m3\<rparr>)
                 | Some node \<Rightarrow>
                     Some (0, s2\<lparr>the_inst := (the_inst s2)
                                  \<lparr>registry := remove1 node (registry (the_inst s2))\<rparr>,
                                 mem := kfree m3\<rparr>)
               })
        });
     Some (ret, spin_instance_unlock s3)
   }"

text \<open>\<open>list_for_each_entry_safe\<close> with \<open>list_del\<close> of each node.\<close>

fun flush_loop :: "registry_entry list \<Rightarrow> registry_entry list \<Rightarrow> registry_entry list" where
  "flush_loop [] reg = reg"
| "flush_loop (node # nodes) reg = flush_loop nodes (remove1 node reg)"

definition do_flush_registry :: "kenv \<Rightarrow> cptr \<Rightarrow> ksys \<Rightarrow> (int \<times> ksys) option" where
  "do_flush_registry env password_in s = do {
     s1 \<leftarrow> spin_instance_lock s;
     (ret, m) \<leftarrow> safety_checks env
       (REFMON_SAFETY_CHECK_ROOT OR REFMON_SAFETY_CHECK_RECONF OR REFMON_SAFETY_CHECK_PASSWORD)
       password_in (the_inst s1) (mem s1);
     let s2 = s1\<lparr>mem := m\<rparr>;
     let reg = registry (the_inst s2);
     let (ret, s3) =
       (if ret \<noteq> 0 then (ret, s2)
        else if reg = [] then (0, s2)
        else (0, s2\<lparr>the_inst := (the_inst s2)\<lparr>registry := flush_loop reg reg\<rparr>\<rparr>));
     Some (ret, spin_instance_unlock s3)
   }"

subsection \<open>Locks\<close>

lemma unlock_lock [simp]: "spin_instance_lock s = Some s1 \<Longrightarrow> spin_instance_unlock s1 = s"
  by (cases s; cases "the_inst s"; cases "mem s") (auto simp: spin_defs split: if_splits)

lemma lock_Some_iff: "spin_instance_lock s = Some s1 \<longleftrightarrow> \<not> spinlock_inst (the_inst s) \<and>
    s1 = s\<lparr>the_inst := (the_inst s)\<lparr>spinlock_inst := True\<rparr>, mem := preempt_disable (mem s)\<rparr>"
  by (auto simp: spin_instance_lock_def)

text \<open>What a call may change: the registry and the allocator's bookkeeping.\<close>

definition reg_frame :: "ksys \<Rightarrow> ksys \<Rightarrow> bool" where
  "reg_frame s s' \<longleftrightarrow>
     (\<exists>reg m. s' = s\<lparr>the_inst := (the_inst s)\<lparr>registry := reg\<rparr>, mem := m\<rparr> \<and>
       preempt m = preempt (mem s))"

lemma reg_frameI:
  "preempt m = preempt (mem s) \<Longrightarrow>
     reg_frame s (s\<lparr>the_inst := (the_inst s)\<lparr>registry := reg\<rparr>, mem := m\<rparr>)"
  by (auto simp: reg_frame_def)

lemma reg_frame_mem: "preempt m = preempt (mem s) \<Longrightarrow> reg_frame s (s\<lparr>mem := m\<rparr>)"
  unfolding reg_frame_def by (intro exI [of _ "registry (the_inst s)"] exI [of _ m]) simp

lemma reg_frame_refl [simp]: "reg_frame s s"
  using reg_frame_mem [of "mem s" s] by simp

lemma reg_frame_trans:
  assumes "reg_frame s t" and "reg_frame t u"
  shows "reg_frame s u"
proof -
  obtain reg m where t: "t = s\<lparr>the_inst := (the_inst s)\<lparr>registry := reg\<rparr>, mem := m\<rparr>"
      "preempt m = preempt (mem s)"
    using assms(1) unfolding reg_frame_def by blast
  obtain reg' m' where "u = t\<lparr>the_inst := (the_inst t)\<lparr>registry := reg'\<rparr>, mem := m'\<rparr>"
      "preempt m' = preempt (mem t)"
    using assms(2) unfolding reg_frame_def by blast
  then have "u = s\<lparr>the_inst := (the_inst s)\<lparr>registry := reg'\<rparr>, mem := m'\<rparr>"
    "preempt m' = preempt (mem s)" using t by simp_all
  then show ?thesis unfolding reg_frame_def by blast
qed

lemma reg_frame_fields:
  assumes "reg_frame s s'"
  shows "state (the_inst s') = state (the_inst s)" "password (the_inst s') = password (the_inst s)"
    "spinlock_inst (the_inst s') = spinlock_inst (the_inst s)"
    "spinlock_probing (the_inst s') = spinlock_probing (the_inst s)"
    "preempt (mem s') = preempt (mem s)"
    "probe_registered s' = probe_registered s" "probe_enabled s' = probe_enabled s"
    "works s' = works s" "sct s' = sct s" "log_file s' = log_file s"
  using assms by (auto simp: reg_frame_def)

lemma reg_frame_locked:
  assumes "spin_instance_lock s = Some s1" and "reg_frame s1 s2"
  shows "reg_frame s (spin_instance_unlock s2)"
proof -
  obtain reg m where s2: "s2 = s1\<lparr>the_inst := (the_inst s1)\<lparr>registry := reg\<rparr>, mem := m\<rparr>"
      "preempt m = preempt (mem s1)"
    using assms(2) unfolding reg_frame_def by blast
  have "spin_instance_unlock s2 =
      s\<lparr>the_inst := (the_inst s)\<lparr>registry := reg\<rparr>, mem := preempt_enable m\<rparr>"
    using assms(1) s2(1)
    by (cases s; cases "the_inst s") (auto simp: spin_defs split: if_splits)
  moreover have "preempt (preempt_enable m) = preempt (mem s)"
    using assms(1) s2(2) by (auto simp: spin_defs split: if_splits)
  ultimately show ?thesis unfolding reg_frame_def by blast
qed

lemma registry_unlock [simp]: "registry (the_inst (spin_instance_unlock s)) = registry (the_inst s)"
  by (simp add: spin_defs)

lemma lock_fields:
  assumes "spin_instance_lock s = Some s1"
  shows "registry (the_inst s1) = registry (the_inst s)" "is_reconf (the_inst s1) = is_reconf (the_inst s)"
    "password (the_inst s1) = password (the_inst s)" "\<not> spinlock_inst (the_inst s)"
  using assms by (auto simp: spin_defs is_reconf_def split: if_splits)

subsection \<open>The contract of the calls that change the registry\<close>

definition locked_reconf ::
    "kenv \<Rightarrow> cptr \<Rightarrow> (ksys \<Rightarrow> (int \<times> ksys) option) \<Rightarrow> ksys \<Rightarrow> (int \<times> ksys) option" where
  "locked_reconf env password_in body s = do {
     s1 \<leftarrow> spin_instance_lock s;
     (ret, m) \<leftarrow> safety_checks env RECONF_CHECKS password_in (the_inst s1) (mem s1);
     let s2 = s1\<lparr>mem := m\<rparr>;
     (ret, s3) \<leftarrow> (if ret \<noteq> 0 then Some (ret, s2) else body s2);
     Some (ret, spin_instance_unlock s3)
   }"

locale reconf_call =
  fixes call :: "kenv \<Rightarrow> cptr \<Rightarrow> ksys \<Rightarrow> (int \<times> ksys) option"
    and body :: "kenv \<Rightarrow> ksys \<Rightarrow> (int \<times> ksys) option"
  assumes call_eq: "call env password_in s = locked_reconf env password_in (body env) s"
    and body_frame: "body env s = Some (ret, s') \<Longrightarrow> reg_frame s s'"
    and body_error: "body env s = Some (ret, s') \<Longrightarrow> ret \<noteq> 0 \<Longrightarrow>
      registry (the_inst s') = registry (the_inst s)"
begin

text \<open>A finished call is a refusal, with the state it found, or a run of its body.\<close>

lemma call_cases:
  assumes "call env password_in s = Some (ret, s')"
  obtains (refused) s1 m where "spin_instance_lock s = Some s1"
      "safety_checks env RECONF_CHECKS password_in (the_inst s1) (mem s1) = Some (ret, m)"
      "ret \<noteq> 0" "s' = spin_instance_unlock (s1\<lparr>mem := m\<rparr>)"
  | (granted) s1 m s3 where "spin_instance_lock s = Some s1"
      "safety_checks env RECONF_CHECKS password_in (the_inst s1) (mem s1) = Some (0, m)"
      "body env (s1\<lparr>mem := m\<rparr>) = Some (ret, s3)" "s' = spin_instance_unlock s3"
proof -
  obtain s1 c m where l: "spin_instance_lock s = Some s1"
    and c: "safety_checks env RECONF_CHECKS password_in (the_inst s1) (mem s1) = Some (c, m)"
    using assms unfolding call_eq locked_reconf_def by (auto simp: bind_eq_Some_conv)
  show thesis
  proof (cases "c = 0")
    case True
    then obtain s3 where "body env (s1\<lparr>mem := m\<rparr>) = Some (ret, s3)" "s' = spin_instance_unlock s3"
      using assms l c unfolding call_eq locked_reconf_def by (auto simp: bind_eq_Some_conv)
    with l c True show thesis by (intro granted) auto
  next
    case False
    then have "ret = c" "s' = spin_instance_unlock (s1\<lparr>mem := m\<rparr>)"
      using assms l c unfolding call_eq locked_reconf_def by auto
    with l c False show thesis by (intro refused) auto
  qed
qed

lemma not_root:
  assumes "euid env \<noteq> 0" and "\<not> spinlock_inst (the_inst s)"
  shows "call env password_in s = Some (- EACCES, s)"
proof -
  obtain s1 where "spin_instance_lock s = Some s1" using assms(2) by (simp add: lock_Some_iff)
  then show ?thesis
    unfolding call_eq locked_reconf_def safety_checks_reconf using assms(1) by simp
qed

lemma not_reconf:
  assumes "euid env = 0" and "\<not> is_reconf (the_inst s)" and "\<not> spinlock_inst (the_inst s)"
  shows "call env password_in s = Some (- EPERM, s)"
proof -
  obtain s1 where "spin_instance_lock s = Some s1" using assms(3) by (simp add: lock_Some_iff)
  then show ?thesis
    unfolding call_eq locked_reconf_def safety_checks_reconf using assms(1,2)
    by (simp add: lock_fields)
qed

lemma call_frame:
  assumes "call env password_in s = Some (ret, s')"
  shows "reg_frame s s'"
  using assms
proof (cases rule: call_cases)
  case (refused s1 m)
  then show ?thesis by (auto intro!: reg_frame_locked reg_frame_mem dest: safety_checks_preempt)
next
  case (granted s1 m s3)
  have "reg_frame s1 (s1\<lparr>mem := m\<rparr>)"
    using granted(2) by (intro reg_frame_mem) (rule safety_checks_preempt)
  then have "reg_frame s1 s3" using body_frame [OF granted(3)] by (rule reg_frame_trans)
  with granted(1,4) show ?thesis by (simp add: reg_frame_locked)
qed

lemma call_error:
  assumes "call env password_in s = Some (ret, s')" and "ret \<noteq> 0"
  shows "registry (the_inst s') = registry (the_inst s)"
  using assms(1)
proof (cases rule: call_cases)
  case (refused s1 m)
  then show ?thesis by (simp add: lock_fields)
next
  case (granted s1 m s3)
  then show ?thesis using body_error [OF granted(3) assms(2)] by (simp add: lock_fields)
qed

text \<open>The registry after a call is the one before, or the one its body left.\<close>

lemma call_registry:
  assumes "call env password_in s = Some (ret, s')"
  shows "registry (the_inst s') = registry (the_inst s) \<or>
    (\<exists>s2 s3. registry (the_inst s2) = registry (the_inst s) \<and> body env s2 = Some (ret, s3) \<and>
       registry (the_inst s') = registry (the_inst s3))"
  using assms
proof (cases rule: call_cases)
  case (refused s1 m)
  then show ?thesis by (simp add: lock_fields)
next
  case (granted s1 m s3)
  then show ?thesis
    by (intro disjI2 exI [of _ "s1\<lparr>mem := m\<rparr>"] exI [of _ s3]) (simp add: lock_fields)
qed

text \<open>Nobody changes the registry but root, in a reconfigurable state, with the password.\<close>

lemma change_authorised:
  assumes "call env password_in s = Some (ret, s')"
    and "registry (the_inst s') \<noteq> registry (the_inst s)"
    and "\<And>x. length (sha256 env x) = 32"
  shows "euid env = 0 \<and> is_reconf (the_inst s) \<and>
    (\<exists>input pw. password_in = Some input \<and> copy_from_user env input = Some pw \<and>
       password (the_inst s) = Some (digest_of env pw))"
  using assms(1)
proof (cases rule: call_cases)
  case (refused s1 m)
  with assms(2) show ?thesis by (simp add: lock_fields)
next
  case (granted s1 m s3)
  then show ?thesis
    using safety_checks_granted [OF granted(2) assms(3)] by (simp add: lock_fields)
qed

text \<open>With a working kernel, the outcome is the verdict of the checks, then the body's.\<close>

lemma call_verdict:
  assumes "no_oom env" and "crypto_ok env" and "user_ok env"
    and "password (the_inst s) \<noteq> None" and "\<not> spinlock_inst (the_inst s)"
  shows "\<exists>s1 m. spin_instance_lock s = Some s1 \<and> preempt m = preempt (mem s1) \<and>
    call env (Some w) s =
      (if safety_verdict env w (the_inst s) \<noteq> 0
       then Some (safety_verdict env w (the_inst s), spin_instance_unlock (s1\<lparr>mem := m\<rparr>))
       else do { (ret, s3) \<leftarrow> body env (s1\<lparr>mem := m\<rparr>); Some (ret, spin_instance_unlock s3) })"
proof -
  obtain s1 where l: "spin_instance_lock s = Some s1" using assms(5) by (simp add: lock_Some_iff)
  then have v: "safety_verdict env w (the_inst s1) = safety_verdict env w (the_inst s)"
    by (simp add: safety_verdict_def lock_fields)
  have "password (the_inst s1) \<noteq> None" using assms(4) l by (simp add: lock_fields)
  then obtain m where m: "safety_checks env RECONF_CHECKS (Some w) (the_inst s1) (mem s1) =
      Some (safety_verdict env w (the_inst s1), m)"
    using safety_checks_verdict [OF assms(1-3)] by blast
  then show ?thesis
    using l v safety_checks_preempt [OF m] unfolding call_eq locked_reconf_def by auto
qed

end

subsection \<open>The three bodies\<close>

definition reconf_add_body :: "cptr \<Rightarrow> kenv \<Rightarrow> ksys \<Rightarrow> (int \<times> ksys) option" where
  "reconf_add_body path_in env s = do {
     (safe_path, m1) \<leftarrow> sanitize_user_input_alloc env path_in (mem s);
     case safe_path of
       None \<Rightarrow> Some (- EINVAL, s\<lparr>mem := m1\<rparr>)
     | Some p \<Rightarrow> add_file_inner env p (s\<lparr>mem := m1\<rparr>)
   }"

definition reconf_rm_body :: "cptr \<Rightarrow> kenv \<Rightarrow> ksys \<Rightarrow> (int \<times> ksys) option" where
  "reconf_rm_body path_in env s = do {
     (safe_path, m1) \<leftarrow> sanitize_user_input_alloc env path_in (mem s);
     case safe_path of
       None \<Rightarrow> Some (- EINVAL, s\<lparr>mem := m1\<rparr>)
     | Some p \<Rightarrow>
         (let (solved, m2) =
            resolve_path_alloc env safe_path REFMON_FSUTILS_IGNORE_ABSOLUTE_PATHS m1 in
          do {
            (found, m3) \<leftarrow> find_entry_by_regpath_alloc env (registry (the_inst s)) solved m2;
            case found of
              None \<Rightarrow> Some (- ENOENT, s\<lparr>mem := kfree m3\<rparr>)
            | Some node \<Rightarrow>
                Some (0, s\<lparr>the_inst := (the_inst s)
                             \<lparr>registry := remove1 node (registry (the_inst s))\<rparr>, mem := kfree m3\<rparr>)
          })
   }"

definition flush_body :: "kenv \<Rightarrow> ksys \<Rightarrow> (int \<times> ksys) option" where
  "flush_body env s =
     Some (0, if registry (the_inst s) = [] then s
              else s\<lparr>the_inst := (the_inst s)
                \<lparr>registry := flush_loop (registry (the_inst s)) (registry (the_inst s))\<rparr>\<rparr>)"

lemma do_reconf_add_eq:
  "do_reconf_add env path_in pw s = locked_reconf env pw (reconf_add_body path_in env) s"
  unfolding do_reconf_add_def locked_reconf_def reconf_add_body_def Let_def ..

lemma do_reconf_rm_eq:
  "do_reconf_rm env path_in pw s = locked_reconf env pw (reconf_rm_body path_in env) s"
  unfolding do_reconf_rm_def locked_reconf_def reconf_rm_body_def Let_def ..

lemma do_flush_registry_eq:
  "do_flush_registry env pw s = locked_reconf env pw (flush_body env) s"
  by (auto simp: do_flush_registry_def locked_reconf_def flush_body_def Let_def
      intro!: bind_option_cong)

lemma flush_loop_self [simp]: "flush_loop reg reg = []"
  by (induction reg) simp_all

subsection \<open>Adding a path\<close>

text \<open>Every run of \<open>_add_file\<close>: an error leaves the registry, a success appends one entry.\<close>

lemma add_file_inner_cases:
  assumes "add_file_inner env p s = Some (ret, s')"
  shows "(ret \<noteq> 0 \<and> (\<exists>m. s' = s\<lparr>mem := m\<rparr> \<and> preempt m = preempt (mem s))) \<or>
    (\<exists>rp q m. ret = 0 \<and> resolve_path env (Some p) 2 = Some rp \<and>
       resolve_path env (Some p) 3 = Some q \<and>
       extract_ino_no_from_path env p \<noteq> REFMON_NO_INO_NO \<and>
       extract_ino_no_from_path env q \<noteq> REFMON_NO_INO_NO \<and> preempt m = preempt (mem s) \<and>
       s' = s\<lparr>the_inst := (the_inst s)\<lparr>registry := registry (the_inst s) @
           [\<lparr>registered = \<lparr>path = Some rp, ino_no = extract_ino_no_from_path env p\<rparr>,
             resolved = \<lparr>path = Some q, ino_no = extract_ino_no_from_path env q\<rparr>\<rparr>]\<rparr>, mem := m\<rparr>)"
proof -
  obtain ok1 m1 where 1: "kmalloc env GFP_ATOMIC (mem s) = (ok1, m1)" by force
  obtain rp m2 where 2: "resolve_path_alloc env (Some p) 2 m1 = (rp, m2)" by force
  note p1 = kmalloc_preempt [OF 1] and p2 = resolve_path_alloc_mem(1) [OF 2]
  show ?thesis
  proof (cases "ok1 \<and> rp \<noteq> None")
    case False
    then show ?thesis using assms 1 2 p1 p2
      by (cases ok1) (auto simp: add_file_inner_def Let_def)
  next
    case True
    then obtain rp' where rp: "rp = Some rp'" by blast
    then have r2: "resolve_path env (Some p) 2 = Some rp'" using resolve_path_alloc_sound [OF 2] by auto
    obtain found m3 where
      3: "find_entry_by_regpath_alloc env (registry (the_inst s)) rp m2 = Some (found, m3)"
      using assms 1 2 True by (auto simp: add_file_inner_def Let_def bind_eq_Some_conv)
    obtain ok4 m4 where 4: "kmalloc env GFP_ATOMIC m3 = (ok4, m4)" by force
    obtain q m5 where 5: "resolve_path_alloc env (Some p) 3 m4 = (q, m5)" by force
    obtain ok6 m6 where 6: "kmalloc env GFP_ATOMIC m5 = (ok6, m6)" by force
    note p3 = find_entry_mem(1) [OF 3] and p4 = kmalloc_preempt [OF 4]
      and p5 = resolve_path_alloc_mem(1) [OF 5] and p6 = kmalloc_preempt [OF 6]
    show ?thesis
    proof (cases q)
      case None
      then show ?thesis
        using assms 1 2 3 4 5 True p1 p2 p3 p4 p5 rp
        by (auto simp: add_file_inner_def Let_def split: if_splits)
    next
      case (Some q')
      then have r3: "resolve_path env (Some p) 3 = Some q'"
        using resolve_path_alloc_sound [OF 5] by auto
      show ?thesis
        using assms 1 2 3 4 5 6 True p1 p2 p3 p4 p5 p6 rp Some r2 r3
        by (auto simp: add_file_inner_def Let_def split: if_splits)
    qed
  qed
qed

lemma add_file_inner_frame: "add_file_inner env p s = Some (ret, s') \<Longrightarrow> reg_frame s s'"
  by (drule add_file_inner_cases) (auto intro: reg_frameI reg_frame_mem)

lemma add_file_inner_error:
  "add_file_inner env p s = Some (ret, s') \<Longrightarrow> ret \<noteq> 0 \<Longrightarrow>
     registry (the_inst s') = registry (the_inst s)"
  by (drule add_file_inner_cases) auto

lemma reconf_add_body_cases:
  assumes "reconf_add_body path_in env s = Some (ret, s')"
  shows "(\<exists>m. ret = - EINVAL \<and> s' = s\<lparr>mem := m\<rparr> \<and> preempt m = preempt (mem s)) \<or>
    (\<exists>input p m. path_in = Some input \<and> copy_from_user env input = Some p \<and>
       preempt m = preempt (mem s) \<and> add_file_inner env p (s\<lparr>mem := m\<rparr>) = Some (ret, s'))"
proof -
  obtain sp m1 where s: "sanitize_user_input_alloc env path_in (mem s) = Some (sp, m1)"
    using assms by (auto simp: reconf_add_body_def bind_eq_Some_conv)
  note m1 = sanitize_mem(1) [OF s]
  show ?thesis
  proof (cases sp)
    case None
    with assms s m1 show ?thesis by (auto simp: reconf_add_body_def)
  next
    case (Some p)
    then show ?thesis using assms s m1 sanitize_outcome [of env path_in "mem s" p m1]
      by (auto simp: reconf_add_body_def)
  qed
qed

lemma reconf_add_body_frame: "reconf_add_body path_in env s = Some (ret, s') \<Longrightarrow> reg_frame s s'"
  by (drule reconf_add_body_cases)
    (auto intro: reg_frame_mem reg_frame_trans add_file_inner_frame)

lemma reconf_add_body_error:
  "reconf_add_body path_in env s = Some (ret, s') \<Longrightarrow> ret \<noteq> 0 \<Longrightarrow>
     registry (the_inst s') = registry (the_inst s)"
  by (drule reconf_add_body_cases) (auto dest!: add_file_inner_error)

interpretation reconf_add: reconf_call "\<lambda>env. do_reconf_add env path_in" "reconf_add_body path_in"
  for path_in
  by unfold_locales
    (auto intro: do_reconf_add_eq reconf_add_body_frame dest: reconf_add_body_error)

subsection \<open>Removing a path\<close>

text \<open>Every run of the removal: an error leaves the registry, a success removes the entry that
  the search found.\<close>

lemma reconf_rm_body_cases:
  assumes "reconf_rm_body path_in env s = Some (ret, s')"
  shows "(\<exists>m. ret \<noteq> 0 \<and> s' = s\<lparr>mem := m\<rparr> \<and> preempt m = preempt (mem s)) \<or>
    (\<exists>input p rp m m' m'' node. path_in = Some input \<and> copy_from_user env input = Some p \<and>
       resolve_path env (Some p) 2 = Some rp \<and> ret = 0 \<and>
       find_entry_by_regpath_alloc env (registry (the_inst s)) (Some rp) m = Some (Some node, m') \<and>
       preempt m'' = preempt (mem s) \<and>
       s' = s\<lparr>the_inst := (the_inst s)\<lparr>registry := remove1 node (registry (the_inst s))\<rparr>,
             mem := m''\<rparr>)"
proof -
  obtain sp m1 where s: "sanitize_user_input_alloc env path_in (mem s) = Some (sp, m1)"
    using assms by (auto simp: reconf_rm_body_def bind_eq_Some_conv)
  note p1 = sanitize_mem(1) [OF s]
  show ?thesis
  proof (cases sp)
    case None
    with assms s p1 show ?thesis by (auto simp: reconf_rm_body_def)
  next
    case (Some p)
    obtain solved m2 where 2: "resolve_path_alloc env (Some p) 2 m1 = (solved, m2)" by force
    then obtain found m3 where
      3: "find_entry_by_regpath_alloc env (registry (the_inst s)) solved m2 = Some (found, m3)"
      using assms s Some by (auto simp: reconf_rm_body_def Let_def bind_eq_Some_conv)
    have p3: "preempt m3 = preempt (mem s)"
      using p1 resolve_path_alloc_mem(1) [OF 2] find_entry_mem(1) [OF 3] by simp
    show ?thesis
    proof (cases found)
      case None
      with assms s Some 2 3 p3 show ?thesis by (auto simp: reconf_rm_body_def mem_simps)
    next
      case (Some node)
      obtain rp where rp: "solved = Some rp" "resolve_path env (Some p) 2 = Some rp"
        using 3 Some resolve_path_alloc_sound [OF 2]
        by (cases solved) (auto simp: find_entry_by_regpath_alloc_def resolve_path_alloc_def)
      have "ret = 0 \<and> s' = s\<lparr>the_inst := (the_inst s)
          \<lparr>registry := remove1 node (registry (the_inst s))\<rparr>, mem := kfree m3\<rparr>"
        using assms s \<open>sp = Some p\<close> Some 2 3 by (auto simp: reconf_rm_body_def)
      moreover obtain input where "path_in = Some input" "copy_from_user env input = Some p"
        using s \<open>sp = Some p\<close> sanitize_outcome by blast
      ultimately show ?thesis
        using 3 Some rp p3 kfree_simps(1) [of m3]
        by (intro disjI2 exI [of _ input] exI [of _ p] exI [of _ rp] exI [of _ m2] exI [of _ m3]
            exI [of _ "kfree m3"] exI [of _ node]) simp
    qed
  qed
qed

lemma reconf_rm_body_frame: "reconf_rm_body path_in env s = Some (ret, s') \<Longrightarrow> reg_frame s s'"
  by (drule reconf_rm_body_cases) (auto intro: reg_frameI reg_frame_mem)

lemma reconf_rm_body_error:
  "reconf_rm_body path_in env s = Some (ret, s') \<Longrightarrow> ret \<noteq> 0 \<Longrightarrow>
     registry (the_inst s') = registry (the_inst s)"
  by (drule reconf_rm_body_cases) auto

interpretation reconf_rm: reconf_call "\<lambda>env. do_reconf_rm env path_in" "reconf_rm_body path_in"
  for path_in
  by unfold_locales
    (auto intro: do_reconf_rm_eq reconf_rm_body_frame dest: reconf_rm_body_error)

subsection \<open>Flushing\<close>

lemma flush_body_eq:
  "flush_body env s = Some (0, s\<lparr>the_inst := (the_inst s)\<lparr>registry := []\<rparr>\<rparr>)"
  by (cases s; cases "the_inst s") (simp add: flush_body_def)

interpretation reconf_flush: reconf_call do_flush_registry flush_body
proof unfold_locales
  fix env s ret s'
  assume "flush_body env s = Some (ret, s')"
  then show "reg_frame s s'"
    using reg_frameI [of "mem s" s "[]"] by (auto simp: flush_body_eq)
qed (auto simp: do_flush_registry_eq flush_body_eq)


subsection \<open>Changing the state\<close>

text \<open>
  \<open>do_set_state\<close> on every branch: only root, only the four names, and the probes follow the
  state as far as the kernel arms them. A NULL pointer from root is a crash.
\<close>

lemma set_state_inner_eq:
  "set_state_inner env str s = (0, s\<lparr>the_inst := (the_inst s)\<lparr>state := string_to_state str\<rparr>,
     probe_enabled := probes_after env (is_on ((the_inst s)\<lparr>state := string_to_state str\<rparr>)) s\<rparr>)"
proof -
  have "probes_after env on (s\<lparr>the_inst := i\<rparr>) = probes_after env on s" for on i
    by (simp add: probes_after_def fun_eq_iff)
  then show ?thesis by (simp add: set_state_inner_def probing_update_eq)
qed

lemma do_set_state_eq:
  assumes "\<not> spinlock_inst (the_inst s)"
  shows "do_set_state env new_state s =
    (if euid env \<noteq> 0 then Some (- EACCES, s)
     else case new_state of
       None \<Rightarrow> None
     | Some str \<Rightarrow>
         (case read_state str of
            None \<Rightarrow> Some (- EINVAL, s)
          | Some st \<Rightarrow> Some (0, s\<lparr>the_inst := (the_inst s)\<lparr>state := st\<rparr>,
              probe_enabled := probes_after env (is_on ((the_inst s)\<lparr>state := st\<rparr>)) s\<rparr>)))"
proof -
  obtain s1 where l: "spin_instance_lock s = Some s1" using assms by (simp add: lock_Some_iff)
  note u = unlock_lock [OF l]
  have pa: "probes_after env on s1 = probes_after env on s" for on
    using l by (auto simp: probes_after_def fun_eq_iff spin_defs split: if_splits)
  have io: "is_on ((the_inst s1)\<lparr>state := st\<rparr>) = is_on ((the_inst s)\<lparr>state := st\<rparr>)" for st
    by (simp add: instance_tests)
  have step: "spin_instance_unlock (s1\<lparr>the_inst := (the_inst s1)\<lparr>state := st\<rparr>, probe_enabled := pe\<rparr>) =
      s\<lparr>the_inst := (the_inst s)\<lparr>state := st\<rparr>, probe_enabled := pe\<rparr>" for st pe
    using l by (cases s; cases "the_inst s"; cases "mem s") (auto simp: spin_defs split: if_splits)
  show ?thesis
    using l u
    by (auto simp: do_set_state_def set_state_inner_eq read_state_def step pa io split: option.split)
qed

end
