(* ===== verification/Syscalls.thy ===== *)
theory Syscalls
  imports Scth Handlers
begin

text \<open>
  \<open>syscalls/syscalls.c\<close>: the four system calls, their installation in the system call table and
  its undoing. The table is \<open>sct\<close> from index 0 on; the other indices are the memory around it.
\<close>

subsection \<open>The calls\<close>

definition sys_set_state :: "kenv \<Rightarrow> cptr \<Rightarrow> ksys \<Rightarrow> (int \<times> ksys) option" where
  "sys_set_state env new_state s = do_set_state env new_state s"

definition sys_reconf_add :: "kenv \<Rightarrow> cptr \<Rightarrow> cptr \<Rightarrow> ksys \<Rightarrow> (int \<times> ksys) option" where
  "sys_reconf_add env path_in password_in s = do_reconf_add env path_in password_in s"

definition sys_reconf_rm :: "kenv \<Rightarrow> cptr \<Rightarrow> cptr \<Rightarrow> ksys \<Rightarrow> (int \<times> ksys) option" where
  "sys_reconf_rm env path_in password_in s = do_reconf_rm env path_in password_in s"

definition sys_flush :: "kenv \<Rightarrow> cptr \<Rightarrow> ksys \<Rightarrow> (int \<times> ksys) option" where
  "sys_flush env password_in s = do_flush_registry env password_in s"

subsection \<open>Installing them\<close>

definition HACKED_ENTRIES :: nat where "HACKED_ENTRIES = 4"

text \<open>One assignment to the table: a fault at address 0, and under the write protection.\<close>

definition write_table :: "kenv \<Rightarrow> int \<Rightarrow> u64 \<Rightarrow> ksys \<Rightarrow> ksys option" where
  "write_table env i v s =
     (if the_syscall_table env = 0 \<or> write_protected s then None
      else Some (s\<lparr>sct := (sct s)(i := v)\<rparr>))"

text \<open>The loops over \<open>restore\<close>, with the values that are stored.\<close>

fun write_entries :: "kenv \<Rightarrow> int list \<Rightarrow> u64 list \<Rightarrow> ksys \<Rightarrow> ksys option" where
  "write_entries env (r # rs) (v # vs) s = do {
     s1 \<leftarrow> write_table env r v s;
     write_entries env rs vs s1
   }"
| "write_entries env _ _ s = Some s"

definition init_syscalls :: "kenv \<Rightarrow> ksys \<Rightarrow> (int \<times> ksys) option" where
  "init_syscalls env s =
     (if the_syscall_table env = 0 then Some (- 1, s)
      else
        let s1 = s\<lparr>new_sys_call_array := [sc_addr_set_state env, sc_addr_reconf_add env,
                                          sc_addr_reconf_rm env, sc_addr_flush env]\<rparr>;
            (ret, ids, ni) = get_entries (restore s1) (int HACKED_ENTRIES) (\<lambda>i. sct s1 (int i))
                               (the_ni_syscall s1);
            s2 = s1\<lparr>restore := ids, the_ni_syscall := ni\<rparr> in
        if ret \<noteq> int HACKED_ENTRIES then Some (- 1, s2)
        else do {
          s3 \<leftarrow> write_entries env (restore s2) (new_sys_call_array s2) (unprotect_memory s2);
          let s4 = protect_memory s3;
          Some (0, s4\<lparr>syscall_codes := \<lparr>sc_code_set_state = restore s4 ! 0,
                                         sc_code_reconf_add = restore s4 ! 1,
                                         sc_code_reconf_rm = restore s4 ! 2,
                                         sc_code_flush = restore s4 ! 3\<rparr>\<rparr>)
        })"

definition flush_syscalls :: "kenv \<Rightarrow> ksys \<Rightarrow> ksys option" where
  "flush_syscalls env s = do {
     s1 \<leftarrow> write_entries env (restore s) (replicate HACKED_ENTRIES (the_ni_syscall s))
             (unprotect_memory s);
     Some (protect_memory s1)
   }"

subsection \<open>Writing under the open protection\<close>

fun upd_entries :: "int list \<Rightarrow> u64 list \<Rightarrow> (int \<Rightarrow> u64) \<Rightarrow> int \<Rightarrow> u64" where
  "upd_entries (r # rs) (v # vs) t = upd_entries rs vs (t(r := v))"
| "upd_entries _ _ t = t"

lemma write_entries_eq:
  assumes "the_syscall_table env \<noteq> 0" and "\<not> write_protected s"
  shows "write_entries env rs vs s = Some (s\<lparr>sct := upd_entries rs vs (sct s)\<rparr>)"
  using assms
  by (induction rs vs "sct s" arbitrary: s rule: upd_entries.induct)
    (auto simp: write_table_def write_protected_def)

lemma write_protected_fault:
  "r # rs \<noteq> [] \<Longrightarrow> write_protected s \<Longrightarrow> write_entries env (r # rs) (v # vs) s = None"
  by (simp add: write_table_def)

lemma upd_entries_other: "k \<notin> set rs \<Longrightarrow> upd_entries rs vs t k = t k"
  by (induction rs vs t rule: upd_entries.induct) auto

lemma upd_entries_same:
  "distinct rs \<Longrightarrow> length rs = length vs \<Longrightarrow> n < length rs \<Longrightarrow> upd_entries rs vs t (rs ! n) = vs ! n"
proof (induction rs vs t arbitrary: n rule: upd_entries.induct)
  case (1 r rs v vs t)
  show ?case
  proof (cases n)
    case 0
    with 1 show ?thesis by (simp add: upd_entries_other)
  next
    case (Suc m)
    with 1 show ?thesis by (simp del: fun_upd_apply)
  qed
qed auto

text \<open>The same value in all of them.\<close>

definition fill_entries :: "int list \<Rightarrow> u64 \<Rightarrow> (int \<Rightarrow> u64) \<Rightarrow> int \<Rightarrow> u64" where
  "fill_entries rs v t = (\<lambda>k. if k \<in> set rs then v else t k)"

lemma upd_entries_replicate: "upd_entries rs (replicate (length rs) v) t = fill_entries rs v t"
  by (induction rs arbitrary: t) (auto simp: fill_entries_def fun_eq_iff upd_entries_other)

lemma flush_syscalls_eq:
  assumes "the_syscall_table env \<noteq> 0" and "length (restore s) = 4"
  shows "flush_syscalls env s =
    Some (s\<lparr>cr0 := hw_cr0 s, sct := fill_entries (restore s) (the_ni_syscall s) (sct s)\<rparr>)"
  using assms(1) unprotected [of s] upd_entries_replicate [of "restore s", unfolded assms(2)]
  by (simp add: flush_syscalls_def write_entries_eq HACKED_ENTRIES_def protection_defs Let_def)

text \<open>Before the installation \<open>restore\<close> holds no entry, and flushing writes in front of the table.\<close>

lemma fill_no_entries: "fill_entries (replicate 4 (- 1)) v t = t(- 1 := v)"
  by (auto simp: fill_entries_def)

lemma flush_syscalls_no_table:
  assumes "the_syscall_table env = 0" and "restore s = r # rs"
  shows "flush_syscalls env s = None"
  using assms by (simp add: flush_syscalls_def write_table_def HACKED_ENTRIES_def numeral_eq_Suc)

subsection \<open>Installed calls\<close>

text \<open>\<open>s'\<close> is \<open>s\<close> with the four calls in four entries that were unused.\<close>

definition unused_slots :: "ksys \<Rightarrow> int list \<Rightarrow> bool" where
  "unused_slots s slots \<longleftrightarrow> length slots = 4 \<and> sorted slots \<and> distinct slots \<and>
     (\<forall>k\<in>set slots. 0 \<le> k \<and> k < 256) \<and> (\<exists>ni. \<forall>k\<in>set slots. sct s k = ni)"

definition sc_addrs :: "kenv \<Rightarrow> u64 list" where
  "sc_addrs env = [sc_addr_set_state env, sc_addr_reconf_add env, sc_addr_reconf_rm env,
                   sc_addr_flush env]"

definition installed_state :: "kenv \<Rightarrow> int list \<Rightarrow> u64 \<Rightarrow> ksys \<Rightarrow> ksys" where
  "installed_state env slots ni s = s\<lparr>new_sys_call_array := sc_addrs env, restore := slots,
     the_ni_syscall := ni, cr0 := hw_cr0 s, sct := upd_entries slots (sc_addrs env) (sct s),
     syscall_codes := \<lparr>sc_code_set_state = slots ! 0, sc_code_reconf_add = slots ! 1,
                       sc_code_reconf_rm = slots ! 2, sc_code_flush = slots ! 3\<rparr>\<rparr>"

lemma init_syscalls_cases:
  assumes "init_syscalls env s = Some (ret, s')" and "length (restore s) = 4"
  obtains (no_table) "the_syscall_table env = 0" "ret = - 1" "s' = s"
  | (no_entries) "the_syscall_table env \<noteq> 0" "ret = - 1" "s' = s\<lparr>new_sys_call_array := sc_addrs env\<rparr>"
  | (installed) slots ni where "the_syscall_table env \<noteq> 0" "ret = 0" "unused_slots s slots"
      "\<And>k. k \<in> set slots \<Longrightarrow> sct s k = ni" "s' = installed_state env slots ni s"
proof (cases "the_syscall_table env = 0")
  case True
  then show thesis using assms(1) no_table by (simp add: init_syscalls_def)
next
  case table: False
  let ?p = "\<lambda>i. sct s (int i)"
  obtain r ids ni where g: "get_entries (restore s) 4 ?p (the_ni_syscall s) = (r, ids, ni)"
    by (metis prod_cases3)
  show thesis
  proof (cases "r = 4")
    case False
    have "get_entries (restore s) 4 ?p (the_ni_syscall s) = (- 1, restore s, the_ni_syscall s)"
      using g False by (auto simp: get_entries_eq split: option.splits if_splits)
    then have "ret = - 1" "s' = s\<lparr>new_sys_call_array := sc_addrs env\<rparr>"
      using assms(1) table by (auto simp: init_syscalls_def HACKED_ENTRIES_def sc_addrs_def)
    then show thesis using no_entries table by blast
  next
    case True
    obtain slots where s: "ids = map int slots" "length slots = 4" "sorted slots" "distinct slots"
        "\<And>k. k \<in> set slots \<Longrightarrow> k < 256 \<and> ?p k = ni"
      using get_entries_success [OF g] True assms(2) by auto
    have "unused_slots s ids"
      using s by (auto simp: unused_slots_def sorted_map distinct_map)
    moreover have "ret = 0" "s' = installed_state env ids ni s"
    proof -
      let ?s2 = "s\<lparr>new_sys_call_array := sc_addrs env, restore := ids, the_ni_syscall := ni\<rparr>"
      have w: "write_entries env ids (sc_addrs env) (unprotect_memory ?s2) =
          Some ((unprotect_memory ?s2)\<lparr>sct := upd_entries ids (sc_addrs env) (sct s)\<rparr>)"
        by (simp add: write_entries_eq [OF table unprotected]) (simp add: protection_defs)
      show "ret = 0" "s' = installed_state env ids ni s"
        using assms(1) table g True w
        by (simp_all add: init_syscalls_def HACKED_ENTRIES_def installed_state_def
            protection_defs flip: sc_addrs_def)
    qed
    moreover have "\<And>k. k \<in> set ids \<Longrightarrow> sct s k = ni" using s by auto
    ultimately show thesis using installed table by blast
  qed
qed

text \<open>The entry of each call holds its address; no other entry is touched.\<close>

lemma installed_state_table:
  assumes "unused_slots s slots" and "s' = installed_state env slots ni s"
  shows "sct s' (sc_code_set_state (syscall_codes s')) = sc_addr_set_state env"
    and "sct s' (sc_code_reconf_add (syscall_codes s')) = sc_addr_reconf_add env"
    and "sct s' (sc_code_reconf_rm (syscall_codes s')) = sc_addr_reconf_rm env"
    and "sct s' (sc_code_flush (syscall_codes s')) = sc_addr_flush env"
    and "k \<notin> set slots \<Longrightarrow> sct s' k = sct s k" and "hw_cr0 s' = hw_cr0 s"
proof -
  have d: "distinct slots" "length slots = length (sc_addrs env)" "length slots = 4"
    using assms(1) by (simp_all add: unused_slots_def sc_addrs_def)
  note same = upd_entries_same [OF d(1,2)]
  show "sct s' (sc_code_set_state (syscall_codes s')) = sc_addr_set_state env"
    "sct s' (sc_code_reconf_add (syscall_codes s')) = sc_addr_reconf_add env"
    "sct s' (sc_code_reconf_rm (syscall_codes s')) = sc_addr_reconf_rm env"
    "sct s' (sc_code_flush (syscall_codes s')) = sc_addr_flush env"
    using same [of 0] same [of 1] same [of 2] same [of 3] d(3) assms(2)
    by (simp_all add: installed_state_def sc_addrs_def)
  show "k \<notin> set slots \<Longrightarrow> sct s' k = sct s k" "hw_cr0 s' = hw_cr0 s"
    using assms(2) by (simp_all add: installed_state_def upd_entries_other)
qed

text \<open>Flushing gives the table back.\<close>

lemma fill_installed:
  assumes "\<And>k. k \<in> set slots \<Longrightarrow> sct s k = ni"
  shows "fill_entries slots ni (sct (installed_state env slots ni s)) = sct s"
  using assms by (simp add: fun_eq_iff fill_entries_def installed_state_def upd_entries_other)


lemma init_syscalls_ok:
  assumes "the_syscall_table env \<noteq> 0" and "first_shared (\<lambda>i. sct s (int i)) = Some i"
    and "4 \<le> length (sharing (\<lambda>i. sct s (int i)) i)"
  shows "\<exists>s'. init_syscalls env s = Some (0, s')"
proof -
  obtain ids ni where g: "get_entries (restore s) 4 (\<lambda>i. sct s (int i)) (the_ni_syscall s) = (4, ids, ni)"
    using assms(2,3) by (simp add: get_entries_eq)
  let ?s2 = "s\<lparr>new_sys_call_array := sc_addrs env, restore := ids, the_ni_syscall := ni\<rparr>"
  show ?thesis
    using assms(1) g write_entries_eq [OF assms(1) unprotected, of ids "sc_addrs env" ?s2]
    by (simp add: init_syscalls_def HACKED_ENTRIES_def Let_def flip: sc_addrs_def)
qed

end
