(* ===== verification/Registry.thy ===== *)
theory Registry
  imports Handlers
begin

text \<open>
  The registry as a map. The interface \<open>registry_store\<close> says what a client of the list of entries
  relies on: looking up after adding at the end, after deleting a found entry, and the invariant that
  no registered path occurs twice. The handlers' outcomes are then tables (\<open>add_spec\<close>,
  \<open>rm_spec\<close>) over that map, and the handlers are shown to compute them.
\<close>

locale registry_store =
  fixes empty_store :: "'r"
    and look :: "'r \<Rightarrow> string \<Rightarrow> 'e option"
    and add_tail :: "'r \<Rightarrow> 'e \<Rightarrow> 'r"
    and del :: "'e \<Rightarrow> 'r \<Rightarrow> 'r"
    and key :: "'e \<Rightarrow> string"
    and good :: "'e \<Rightarrow> bool"
    and invar :: "'r \<Rightarrow> bool"
  assumes invar_empty: "invar empty_store"
    and look_empty: "look empty_store k = None"
    and look_key: "invar r \<Longrightarrow> look r k = Some e \<Longrightarrow> key e = k \<and> good e"
    and invar_add: "invar r \<Longrightarrow> good e \<Longrightarrow> look r (key e) = None \<Longrightarrow> invar (add_tail r e)"
    and look_add: "invar r \<Longrightarrow> good e \<Longrightarrow> look r (key e) = None \<Longrightarrow>
      look (add_tail r e) = (look r)(key e \<mapsto> e)"
    and invar_del: "invar r \<Longrightarrow> look r k = Some e \<Longrightarrow> invar (del e r)"
    and look_del: "invar r \<Longrightarrow> look r k = Some e \<Longrightarrow> look (del e r) = (look r)(k := None)"
begin

lemma look_add_same: "invar r \<Longrightarrow> good e \<Longrightarrow> look r (key e) = None \<Longrightarrow> look (add_tail r e) (key e) = Some e"
  by (simp add: look_add)

lemma look_add_other: "invar r \<Longrightarrow> good e \<Longrightarrow> look r (key e) = None \<Longrightarrow> k \<noteq> key e \<Longrightarrow>
    look (add_tail r e) k = look r k"
  by (simp add: look_add)

lemma del_add:
  assumes "invar r" and "good e" and "look r (key e) = None"
  shows "look (del e (add_tail r e)) = look r"
proof -
  have "look (del e (add_tail r e)) = (look (add_tail r e))(key e := None)"
    using assms by (intro look_del invar_add look_add_same)
  also have "\<dots> = look r" using assms by (auto simp: look_add)
  finally show ?thesis .
qed

lemma del_gone: "invar r \<Longrightarrow> look r k = Some e \<Longrightarrow> look (del e r) k = None"
  by (simp add: look_del)

lemma dom_add: "invar r \<Longrightarrow> good e \<Longrightarrow> look r (key e) = None \<Longrightarrow>
    dom (look (add_tail r e)) = insert (key e) (dom (look r))"
  by (simp add: look_add)

lemma dom_del: "invar r \<Longrightarrow> look r k = Some e \<Longrightarrow> dom (look (del e r)) = dom (look r) - {k}"
  by (simp add: look_del)

end

subsection \<open>The list of entries is such a store\<close>

definition entry_key :: "registry_entry \<Rightarrow> string" where
  "entry_key e = the (path (registered e))"

definition reg_inv :: "registry_entry list \<Rightarrow> bool" where
  "reg_inv reg \<longleftrightarrow> wf_entries reg \<and> distinct (map entry_key reg)"

lemma wf_entry_key: "wf_entry e \<Longrightarrow> path (registered e) = Some p \<longleftrightarrow> entry_key e = p"
  by (auto simp: wf_entry_def entry_key_def)

lemma lookup_reg_map_of:
  "wf_entries reg \<Longrightarrow> lookup_reg reg p = map_of (map (\<lambda>e. (entry_key e, e)) reg) p"
  by (induction reg) (auto simp: lookup_reg_def wf_entry_key)

lemma lookup_reg_Some:
  assumes "lookup_reg reg p = Some e"
  shows "e \<in> set reg" "path (registered e) = Some p"
  using assms by (auto simp: lookup_reg_def find_Some_iff)

lemma lookup_reg_None_iff: "lookup_reg reg p = None \<longleftrightarrow> (\<forall>e\<in>set reg. path (registered e) \<noteq> Some p)"
  by (auto simp: lookup_reg_def find_None_iff)

lemma lookup_reg_append:
  "lookup_reg (reg @ [e]) p =
     (case lookup_reg reg p of Some e' \<Rightarrow> Some e'
      | None \<Rightarrow> if path (registered e) = Some p then Some e else None)"
  by (induction reg) (auto simp: lookup_reg_def)

lemma lookup_reg_remove1:
  assumes "reg_inv reg" and "lookup_reg reg k = Some e"
  shows "lookup_reg (remove1 e reg) p = (if p = k then None else lookup_reg reg p)"
  using assms
proof (induction reg)
  case Nil
  then show ?case by (simp add: lookup_reg_def)
next
  case (Cons a reg)
  show ?case
  proof (cases "path (registered a) = Some k")
    case True
    then have "e = a" using Cons.prems(2) by (simp add: lookup_reg_def)
    moreover have "lookup_reg reg k = None"
    proof -
      have "entry_key a = k" "\<forall>e\<in>set reg. entry_key e \<noteq> entry_key a" "wf_entries reg"
        using True Cons.prems(1) by (auto simp: reg_inv_def entry_key_def)
      then show ?thesis by (auto simp: lookup_reg_None_iff wf_entry_key)
    qed
    ultimately show ?thesis using True by (auto simp: lookup_reg_def)
  next
    case False
    then have "lookup_reg reg k = Some e" using Cons.prems(2) by (simp add: lookup_reg_def)
    then have IH: "lookup_reg (remove1 e reg) p = (if p = k then None else lookup_reg reg p)"
      using Cons.prems(1) by (intro Cons.IH) (simp_all add: reg_inv_def)
    have "e \<noteq> a" using \<open>lookup_reg reg k = Some e\<close> False lookup_reg_Some(2) by blast
    with IH False show ?thesis by (auto simp: lookup_reg_def)
  qed
qed

lemma distinct_keys_remove1: "distinct (map f xs) \<Longrightarrow> distinct (map f (remove1 x xs))"
  by (induction xs) (auto dest: notin_set_remove1 set_remove1_subset [THEN subsetD])

interpretation registry: registry_store "[] :: registry_entry list" lookup_reg "\<lambda>reg e. reg @ [e]"
    remove1 entry_key wf_entry reg_inv
proof unfold_locales
  fix r k and e :: registry_entry assume "reg_inv r" "lookup_reg r k = Some e"
  then show "entry_key e = k \<and> wf_entry e"
    using lookup_reg_Some [of r k e] by (auto simp: reg_inv_def entry_key_def)
next
  fix r and e :: registry_entry assume *: "reg_inv r" "wf_entry e" "lookup_reg r (entry_key e) = None"
  then have "entry_key e \<notin> set (map entry_key r)"
    by (auto simp: lookup_reg_None_iff reg_inv_def wf_entry_key)
  with * show "reg_inv (r @ [e])" by (auto simp: reg_inv_def)
  from * show "lookup_reg (r @ [e]) = (lookup_reg r)(entry_key e \<mapsto> e)"
    by (auto simp: fun_eq_iff lookup_reg_append wf_entry_key split: option.split)
next
  fix r k and e :: registry_entry assume *: "reg_inv r" "lookup_reg r k = Some e"
  then show "reg_inv (remove1 e r)"
    using distinct_keys_remove1 [of entry_key r e]
    by (auto simp: reg_inv_def dest: set_remove1_subset [THEN subsetD])
  from * show "lookup_reg (remove1 e r) = (lookup_reg r)(k := None)"
    by (auto simp: fun_eq_iff lookup_reg_remove1)
qed (simp_all add: reg_inv_def lookup_reg_def)

subsection \<open>The handlers as tables\<close>

text \<open>A kernel that works: memory, crypto, undisturbed user buffers, a reachable directory.\<close>

definition calm :: "kenv \<Rightarrow> bool" where
  "calm env \<longleftrightarrow> no_oom env \<and> crypto_ok env \<and> user_ok env \<and> pwd_absolute env"

lemma calmD:
  assumes "calm env"
  shows "no_oom env" "crypto_ok env" "user_ok env" "pwd_absolute env"
    "length (sha256 env x) = 32"
  using assms by (simp_all add: calm_def crypto_ok_def)

definition new_entry :: "kenv \<Rightarrow> string \<Rightarrow> string \<Rightarrow> string \<Rightarrow> registry_entry" where
  "new_entry env p rp q =
     \<lparr>registered = \<lparr>path = Some rp, ino_no = extract_ino_no_from_path env p\<rparr>,
      resolved = \<lparr>path = Some q, ino_no = extract_ino_no_from_path env q\<rparr>\<rparr>"

definition add_spec :: "kenv \<Rightarrow> string \<Rightarrow> registry_entry list \<Rightarrow> int \<times> registry_entry list" where
  "add_spec env p reg =
     (case resolve_path env (Some p) 2 of
        None \<Rightarrow> (- EINVAL, reg)
      | Some rp \<Rightarrow>
          if lookup_reg reg rp \<noteq> None then (- EEXIST, reg)
          else case resolve_path env (Some p) 3 of
            None \<Rightarrow> (- EINVAL, reg)
          | Some q \<Rightarrow>
              if extract_ino_no_from_path env p = REFMON_NO_INO_NO \<or>
                 extract_ino_no_from_path env q = REFMON_NO_INO_NO
              then (- EINVAL, reg)
              else (0, reg @ [new_entry env p rp q]))"

definition rm_spec :: "kenv \<Rightarrow> string \<Rightarrow> registry_entry list \<Rightarrow> int \<times> registry_entry list" where
  "rm_spec env p reg =
     (case resolve_path env (Some p) 2 of
        None \<Rightarrow> (- ENOENT, reg)
      | Some rp \<Rightarrow>
          (case lookup_reg reg rp of
             None \<Rightarrow> (- ENOENT, reg)
           | Some e \<Rightarrow> (0, remove1 e reg)))"

text \<open>A call's outcome: the return value, the registry, and nothing else but bookkeeping.\<close>

definition reg_outcome ::
    "(int \<times> ksys) option \<Rightarrow> ksys \<Rightarrow> int \<times> registry_entry list \<Rightarrow> bool" where
  "reg_outcome r s out \<longleftrightarrow>
     (\<exists>s'. r = Some (fst out, s') \<and> registry (the_inst s') = snd out \<and> reg_frame s s')"

lemma wf_new_entry:
  assumes "pwd_absolute env" and "resolve_path env (Some p) 2 = Some rp"
    and "extract_ino_no_from_path env p \<noteq> REFMON_NO_INO_NO"
    and "extract_ino_no_from_path env q \<noteq> REFMON_NO_INO_NO"
  shows "wf_entry (new_entry env p rp q)" and "entry_key (new_entry env p rp q) = rp"
  using assms resolve_path_is_resolved [OF assms(1,2)]
  by (auto simp: wf_entry_def new_entry_def entry_key_def)

lemma add_file_inner_spec:
  assumes "calm env" and "wf_entries (registry (the_inst s))"
  shows "reg_outcome (add_file_inner env p s) s (add_spec env p (registry (the_inst s)))"
proof -
  let ?reg = "registry (the_inst s)"
  note oom = calmD(1) [OF assms(1)]
  obtain ok1 m1 where 1: "kmalloc env GFP_ATOMIC (mem s) = (ok1, m1)" by force
  obtain rp m2 where 2: "resolve_path_alloc env (Some p) 2 m1 = (rp, m2)" by force
  have ok1: ok1 and rp: "rp = resolve_path env (Some p) 2"
    using kmalloc_no_oom [OF oom 1] resolve_path_alloc_no_oom [OF oom 2] by auto
  show ?thesis
  proof (cases rp)
    case None
    then show ?thesis using 1 2 ok1 rp kmalloc_preempt [OF 1] resolve_path_alloc_mem(1) [OF 2]
      by (auto simp: add_file_inner_def add_spec_def reg_outcome_def Let_def intro: reg_frame_mem)
  next
    case (Some rp')
    have "is_resolved rp'"
      using resolve_path_is_resolved [OF calmD(4) [OF assms(1)]] rp Some by metis
    then obtain m3 where
      3: "find_entry_by_regpath_alloc env ?reg (Some rp') m2 = Some (lookup_reg ?reg rp', m3)"
      using find_entry_no_oom [OF oom assms(2)] by blast
    obtain ok4 m4 where 4: "kmalloc env GFP_ATOMIC m3 = (ok4, m4)" by force
    obtain q m5 where 5: "resolve_path_alloc env (Some p) 3 m4 = (q, m5)" by force
    obtain ok6 m6 where 6: "kmalloc env GFP_ATOMIC m5 = (ok6, m6)" by force
    have oks: ok4 ok6 and q: "resolve_path env (Some p) 3 = q"
      using kmalloc_no_oom [OF oom 4] kmalloc_no_oom [OF oom 6] resolve_path_alloc_no_oom [OF oom 5]
      by auto
    obtain s' ret where r: "add_file_inner env p s = Some (ret, s')"
      and "ret = fst (add_spec env p ?reg)" "registry (the_inst s') = snd (add_spec env p ?reg)"
      using 1 2 3 4 5 6 ok1 oks Some rp q
      by (cases "lookup_reg ?reg rp'"; cases q;
          cases "extract_ino_no_from_path env p = REFMON_NO_INO_NO";
          cases "extract_ino_no_from_path env (the q) = REFMON_NO_INO_NO")
        (auto simp: add_file_inner_def add_spec_def new_entry_def Let_def)
    then show ?thesis using add_file_inner_frame [OF r] by (auto simp: reg_outcome_def)
  qed
qed

lemma reconf_add_body_spec:
  assumes "calm env" and "wf_entries (registry (the_inst s))"
  shows "reg_outcome (reconf_add_body (Some p) env s) s
    (if p = '''' then (- EINVAL, registry (the_inst s)) else add_spec env p (registry (the_inst s)))"
proof -
  obtain m1 where 1: "sanitize_user_input_alloc env (Some p) (mem s) =
      Some (if p = '''' then None else Some p, m1)"
    using sanitize_ok [OF calmD(1,3) [OF assms(1)]] by blast
  have f: "reg_frame s (s\<lparr>mem := m1\<rparr>)" by (rule reg_frame_mem) (rule sanitize_mem(1) [OF 1])
  show ?thesis
    using 1 f add_file_inner_spec [OF assms(1), of "s\<lparr>mem := m1\<rparr>" p] assms(2)
    by (auto simp: reconf_add_body_def reg_outcome_def intro: reg_frame_trans)
qed

lemma reconf_rm_body_spec:
  assumes "calm env" and "wf_entries (registry (the_inst s))"
  shows "reg_outcome (reconf_rm_body (Some p) env s) s
    (if p = '''' then (- EINVAL, registry (the_inst s)) else rm_spec env p (registry (the_inst s)))"
proof -
  let ?reg = "registry (the_inst s)"
  note oom = calmD(1) [OF assms(1)]
  obtain m1 where 1: "sanitize_user_input_alloc env (Some p) (mem s) =
      Some (if p = '''' then None else Some p, m1)"
    using sanitize_ok [OF oom calmD(3) [OF assms(1)]] by blast
  obtain solved m2 where 2: "resolve_path_alloc env (Some p) 2 m1 = (solved, m2)" by force
  have solved: "resolve_path env (Some p) 2 = solved"
    using resolve_path_alloc_no_oom [OF oom 2] ..
  have 3: "\<exists>m3. find_entry_by_regpath_alloc env ?reg solved m2 =
      Some (case solved of None \<Rightarrow> None | Some rp \<Rightarrow> lookup_reg ?reg rp, m3)"
  proof (cases solved)
    case None
    then show ?thesis
      by (simp add: find_entry_by_regpath_alloc_def resolve_path_alloc_def)
  next
    case (Some rp)
    then have "is_resolved rp"
      using resolve_path_is_resolved [OF calmD(4) [OF assms(1)]] solved by metis
    with Some show ?thesis using find_entry_no_oom [OF oom assms(2)] by auto
  qed
  then obtain s' ret where r: "reconf_rm_body (Some p) env s = Some (ret, s')"
    and "(ret, registry (the_inst s')) = (if p = '''' then (- EINVAL, ?reg) else rm_spec env p ?reg)"
    using 1 2 solved
    by (cases "p = []"; cases solved; cases "lookup_reg ?reg (the solved)")
      (auto simp: reconf_rm_body_def rm_spec_def Let_def)
  then show ?thesis using reconf_rm_body_frame [OF r]
    by (auto simp: reg_outcome_def prod_eq_iff)
qed

lemma flush_body_spec: "reg_outcome (flush_body env s) s (0, [])"
  using reg_frameI [of "mem s" s "[]"] by (auto simp: reg_outcome_def flush_body_eq)

text \<open>A locked call with a working kernel: refused by the table of the checks, or the body's.\<close>

lemma locked_reconf_outcome:
  assumes "calm env" and "password (the_inst s) \<noteq> None" and "\<not> spinlock_inst (the_inst s)"
    and body: "\<And>s2. registry (the_inst s2) = registry (the_inst s) \<Longrightarrow>
      reg_outcome (body s2) s2 out"
  shows "reg_outcome (locked_reconf env (Some w) body s) s
    (if safety_verdict env w (the_inst s) \<noteq> 0
     then (safety_verdict env w (the_inst s), registry (the_inst s)) else out)"
proof -
  obtain s1 where l: "spin_instance_lock s = Some s1" using assms(3) by (simp add: lock_Some_iff)
  then have v: "safety_verdict env w (the_inst s1) = safety_verdict env w (the_inst s)"
    by (simp add: safety_verdict_def lock_fields)
  have "password (the_inst s1) \<noteq> None" using assms(2) l by (simp add: lock_fields)
  then obtain m where m: "safety_checks env RECONF_CHECKS (Some w) (the_inst s1) (mem s1) =
      Some (safety_verdict env w (the_inst s1), m)"
    using safety_checks_verdict [OF calmD(1-3) [OF assms(1)]] by blast
  have f: "reg_frame s1 (s1\<lparr>mem := m\<rparr>)" by (rule reg_frame_mem) (rule safety_checks_preempt [OF m])
  show ?thesis
  proof (cases "safety_verdict env w (the_inst s) = 0")
    case False
    with l m v f show ?thesis
      unfolding locked_reconf_def reg_outcome_def
      by (auto simp: lock_fields intro: reg_frame_locked)
  next
    case True
    have "reg_outcome (body (s1\<lparr>mem := m\<rparr>)) (s1\<lparr>mem := m\<rparr>) out"
      using body l by (simp add: lock_fields)
    then obtain s3 where "body (s1\<lparr>mem := m\<rparr>) = Some (fst out, s3)"
        "registry (the_inst s3) = snd out" "reg_frame (s1\<lparr>mem := m\<rparr>) s3"
      by (auto simp: reg_outcome_def)
    then show ?thesis using l m v f True
      unfolding locked_reconf_def reg_outcome_def
      by (auto simp: lock_fields intro: reg_frame_locked reg_frame_trans)
  qed
qed


subsection \<open>The calls\<close>

text \<open>Each call, with a working kernel: the verdict of the checks, and then the table.\<close>

lemma do_reconf_add_outcome:
  assumes "calm env" and "wf_entries (registry (the_inst s))" and "password (the_inst s) \<noteq> None"
    and "\<not> spinlock_inst (the_inst s)"
  shows "reg_outcome (do_reconf_add env (Some p) (Some w) s) s
    (if safety_verdict env w (the_inst s) \<noteq> 0
     then (safety_verdict env w (the_inst s), registry (the_inst s))
     else if p = '''' then (- EINVAL, registry (the_inst s))
     else add_spec env p (registry (the_inst s)))"
  unfolding do_reconf_add_eq
proof (rule locked_reconf_outcome [OF assms(1,3,4)])
  fix s2 :: ksys assume eq: "registry (the_inst s2) = registry (the_inst s)"
  then show "reg_outcome (reconf_add_body (Some p) env s2) s2
      (if p = '''' then (- EINVAL, registry (the_inst s)) else add_spec env p (registry (the_inst s)))"
    using reconf_add_body_spec [OF assms(1), of s2 p] assms(2) unfolding eq by blast
qed

lemma do_reconf_rm_outcome:
  assumes "calm env" and "wf_entries (registry (the_inst s))" and "password (the_inst s) \<noteq> None"
    and "\<not> spinlock_inst (the_inst s)"
  shows "reg_outcome (do_reconf_rm env (Some p) (Some w) s) s
    (if safety_verdict env w (the_inst s) \<noteq> 0
     then (safety_verdict env w (the_inst s), registry (the_inst s))
     else if p = '''' then (- EINVAL, registry (the_inst s))
     else rm_spec env p (registry (the_inst s)))"
  unfolding do_reconf_rm_eq
proof (rule locked_reconf_outcome [OF assms(1,3,4)])
  fix s2 :: ksys assume eq: "registry (the_inst s2) = registry (the_inst s)"
  then show "reg_outcome (reconf_rm_body (Some p) env s2) s2
      (if p = '''' then (- EINVAL, registry (the_inst s)) else rm_spec env p (registry (the_inst s)))"
    using reconf_rm_body_spec [OF assms(1), of s2 p] assms(2) unfolding eq by blast
qed

lemma do_flush_registry_outcome:
  assumes "calm env" and "password (the_inst s) \<noteq> None" and "\<not> spinlock_inst (the_inst s)"
  shows "reg_outcome (do_flush_registry env (Some w) s) s
    (if safety_verdict env w (the_inst s) \<noteq> 0
     then (safety_verdict env w (the_inst s), registry (the_inst s)) else (0, []))"
  unfolding do_flush_registry_eq
  using assms flush_body_spec by (intro locked_reconf_outcome) simp_all

text \<open>What the tables keep: well-formed entries, no registered path twice.\<close>

lemma add_spec_inv:
  assumes "pwd_absolute env" and "reg_inv reg"
  shows "reg_inv (snd (add_spec env p reg))"
  using assms wf_new_entry [OF assms(1)]
  by (auto simp: add_spec_def split: option.split intro!: registry.invar_add)

lemma rm_spec_inv: "reg_inv reg \<Longrightarrow> reg_inv (snd (rm_spec env p reg))"
  by (auto simp: rm_spec_def split: option.split intro: registry.invar_del)

end
