(* ===== verification/Procio.thy ===== *)
theory Procio
  imports Registry
begin

text \<open>
  \<open>io/procio.c\<close>: the three files under \<open>/proc\<close>. A read of one prints what it shows into a page
  on the stack and copies it to the reader if there is room for all of it. The page is
  represented by its first \<open>out_len\<close> bytes, the only ones that are read.
\<close>

definition PAGE_SIZE :: int where "PAGE_SIZE = 4096"

definition REFMON_FILE_REGISTRY :: string where "REFMON_FILE_REGISTRY = ''refmon-list''"
definition REFMON_FILE_STATE :: string where "REFMON_FILE_STATE = ''refmon-state''"
definition REFMON_FILE_SYSCALLCODES :: string where
  "REFMON_FILE_SYSCALLCODES = ''refmon-syscallcodes''"

lemmas file_names = REFMON_FILE_REGISTRY_def REFMON_FILE_STATE_def REFMON_FILE_SYSCALLCODES_def

abbreviation newline :: char where "newline \<equiv> CHR 0x0A"

text \<open>\<open>%s\<close>: the kernel prints a NULL pointer as a word.\<close>

definition str_arg :: "cptr \<Rightarrow> string" where
  "str_arg p = (case p of None \<Rightarrow> ''(null)'' | Some s \<Rightarrow> s)"

subsection \<open>Printing\<close>

text \<open>\<open>"- %lu %s -> %lu %s\n"\<close>\<close>

definition registry_line :: "registry_entry \<Rightarrow> string" where
  "registry_line nodeP =
     ''- '' @ dec_nat (unat (ino_no (registered nodeP))) @ '' '' @ str_arg (path (registered nodeP)) @
     '' -> '' @ dec_nat (unat (ino_no (resolved nodeP))) @ '' '' @ str_arg (path (resolved nodeP)) @
     [newline]"

text \<open>The loop over the registry: a line that does not fit ends it.\<close>

fun registry_loop :: "registry_entry list \<Rightarrow> string \<Rightarrow> int \<Rightarrow> string" where
  "registry_loop [] out decrement = out"
| "registry_loop (nodeP # nodes) out decrement =
     (let (ret_snprintf, written) = snprintf (nat decrement) (registry_line nodeP) in
      if int ret_snprintf \<ge> decrement then out
      else registry_loop nodes (out @ written) (decrement - int ret_snprintf))"

definition codes_text :: "registered_syscall_codes \<Rightarrow> string" where
  "codes_text c =
     dec_int (sc_code_set_state c) @ [newline] @ dec_int (sc_code_reconf_add c) @ [newline] @
     dec_int (sc_code_reconf_rm c) @ [newline] @ dec_int (sc_code_flush c) @ [newline]"

definition state_text :: "refmon_state \<Rightarrow> string" where
  "state_text st = str_arg (state_to_string st) @ [newline]"

text \<open>
  \<open>_read_proc\<close>: the return value, what the reader got, and the position. A text that does not
  fit into the page would be copied from beyond it; \<open>out_len\<close> is the length of the whole text.
\<close>

definition read_proc :: "kenv \<Rightarrow> nat \<Rightarrow> int \<Rightarrow> string \<Rightarrow> ksys \<Rightarrow> ((int \<times> string \<times> int) \<times> ksys) option" where
  "read_proc env count pos name s = do {
     (ret, out_len, out, s') \<leftarrow>
       (if match_string name REFMON_FILE_REGISTRY
        then do {
          s1 \<leftarrow> spin_instance_lock s;
          let out = registry_loop (registry (the_inst s1)) [] PAGE_SIZE;
          Some (0, length out, out, spin_instance_unlock s1)
        }
        else if match_string name REFMON_FILE_SYSCALLCODES
        then let (ret_snprintf, out) = snprintf (nat PAGE_SIZE) (codes_text (syscall_codes s)) in
             Some (0, ret_snprintf, out, s)
        else if match_string name REFMON_FILE_STATE
        then let (ret_snprintf, out) =
                   snprintf (nat PAGE_SIZE) (state_text (state (the_inst s))) in
             Some (0, ret_snprintf, out, s)
        else Some (- EINVAL, 0, [], s));
     Some (if ret \<noteq> 0 then ((ret, [], pos), s')
           else if pos > 0 \<or> count < out_len then ((0, [], pos), s')
           else if \<not> copy_to_user_ok env then ((- EFAULT, [], pos), s')
           else ((int out_len, take out_len out, pos + int out_len), s'))
   }"

definition read_proc_syscalls ::
    "kenv \<Rightarrow> nat \<Rightarrow> int \<Rightarrow> ksys \<Rightarrow> ((int \<times> string \<times> int) \<times> ksys) option" where
  "read_proc_syscalls env count pos s = read_proc env count pos REFMON_FILE_SYSCALLCODES s"

definition read_proc_state ::
    "kenv \<Rightarrow> nat \<Rightarrow> int \<Rightarrow> ksys \<Rightarrow> ((int \<times> string \<times> int) \<times> ksys) option" where
  "read_proc_state env count pos s = read_proc env count pos REFMON_FILE_STATE s"

definition read_proc_list ::
    "kenv \<Rightarrow> nat \<Rightarrow> int \<Rightarrow> ksys \<Rightarrow> ((int \<times> string \<times> int) \<times> ksys) option" where
  "read_proc_list env count pos s = read_proc env count pos REFMON_FILE_REGISTRY s"

subsection \<open>Creating and removing the files\<close>

definition proc_create :: "kenv \<Rightarrow> string \<Rightarrow> ksys \<Rightarrow> bool \<times> ksys" where
  "proc_create env name s =
     (if proc_create_ok env name then (True, s\<lparr>proc_files := proc_files s @ [name]\<rparr>)
      else (False, s))"

definition remove_proc_entry :: "string \<Rightarrow> ksys \<Rightarrow> ksys" where
  "remove_proc_entry name s = s\<lparr>proc_files := removeAll name (proc_files s)\<rparr>"

definition init_procfiles :: "kenv \<Rightarrow> ksys \<Rightarrow> int \<times> ksys" where
  "init_procfiles env s =
     (let (ok, s1) = proc_create env REFMON_FILE_SYSCALLCODES s in
      if \<not> ok then (- EINVAL, s1)
      else let (ok, s2) = proc_create env REFMON_FILE_STATE s1 in
      if \<not> ok then (- EINVAL, s2)
      else let (ok, s3) = proc_create env REFMON_FILE_REGISTRY s2 in
      if \<not> ok then (- EINVAL, s3)
      else (0, s3))"

definition flush_procfiles :: "ksys \<Rightarrow> ksys" where
  "flush_procfiles s =
     (let s1 = remove_proc_entry REFMON_FILE_SYSCALLCODES s;
          s2 = remove_proc_entry REFMON_FILE_STATE s1
      in remove_proc_entry REFMON_FILE_REGISTRY s2)"

subsection \<open>What a reader sees\<close>

text \<open>The lines of as many entries as fit, from the first on.\<close>

definition lines_of :: "registry_entry list \<Rightarrow> string" where
  "lines_of reg = concat (map registry_line reg)"

lemma lines_of_simps [simp]:
  "lines_of [] = []" "lines_of (e # reg) = registry_line e @ lines_of reg"
  by (simp_all add: lines_of_def)

lemma length_registry_line: "0 < length (registry_line e)"
  by (simp add: registry_line_def)

lemma registry_loop_lines:
  assumes "0 < d"
  shows "\<exists>n \<le> length reg. registry_loop reg out d = out @ lines_of (take n reg) \<and>
    int (length (lines_of (take n reg))) < d \<and>
    (n = length reg \<or> d \<le> int (length (lines_of (take (Suc n) reg))))"
  using assms
proof (induction reg arbitrary: out d)
  case Nil
  then show ?case by simp
next
  case (Cons e reg)
  let ?l = "int (length (registry_line e))"
  show ?case
  proof (cases "d \<le> ?l")
    case True
    then have "registry_loop (e # reg) out d = out" by (simp add: snprintf_def)
    with True Cons.prems show ?thesis by (intro exI [of _ 0]) simp
  next
    case False
    then have step: "registry_loop (e # reg) out d =
        registry_loop reg (out @ registry_line e) (d - ?l)"
      by (simp add: snprintf_def)
    obtain n where "n \<le> length reg"
      "registry_loop reg (out @ registry_line e) (d - ?l) =
        (out @ registry_line e) @ lines_of (take n reg)"
      "int (length (lines_of (take n reg))) < d - ?l"
      "n = length reg \<or> d - ?l \<le> int (length (lines_of (take (Suc n) reg)))"
      using Cons.IH [of "d - ?l" "out @ registry_line e"] False by auto
    with step show ?thesis by (intro exI [of _ "Suc n"]) auto
  qed
qed

text \<open>The bytes of the registry's file.\<close>

definition list_text :: "registry_entry list \<Rightarrow> string" where
  "list_text reg = registry_loop reg [] PAGE_SIZE"

lemma list_text_lines:
  obtains n where "n \<le> length reg" "list_text reg = lines_of (take n reg)"
    "length (list_text reg) < 4096"
    "n = length reg \<or> 4096 \<le> length (lines_of (take (Suc n) reg))"
proof -
  obtain n where n: "n \<le> length reg" "list_text reg = lines_of (take n reg)"
    "int (length (lines_of (take n reg))) < 4096"
    "n = length reg \<or> 4096 \<le> int (length (lines_of (take (Suc n) reg)))"
    using registry_loop_lines [of PAGE_SIZE reg "[]"] by (auto simp: list_text_def PAGE_SIZE_def)
  show thesis by (rule that [of n]) (use n in auto)
qed

lemma list_text_all:
  assumes "length (lines_of reg) < 4096"
  shows "list_text reg = lines_of reg"
proof -
  obtain n where n: "n \<le> length reg" "list_text reg = lines_of (take n reg)"
    "n = length reg \<or> 4096 \<le> length (lines_of (take (Suc n) reg))"
    by (rule list_text_lines)
  have "lines_of reg = lines_of (take (Suc n) reg) @ lines_of (drop (Suc n) reg)"
    unfolding lines_of_def by (simp flip: concat_append map_append)
  with assms n show ?thesis by simp
qed

text \<open>One read, of a file whose text fits the page.\<close>

definition read_result :: "kenv \<Rightarrow> nat \<Rightarrow> int \<Rightarrow> string \<Rightarrow> int \<times> string \<times> int" where
  "read_result env count pos out =
     (if pos > 0 \<or> count < length out then (0, [], pos)
      else if \<not> copy_to_user_ok env then (- EFAULT, [], pos)
      else (int (length out), out, pos + int (length out)))"

lemma read_proc_list_eq:
  assumes "\<not> spinlock_inst (the_inst s)"
  shows "read_proc_list env count pos s =
    Some (read_result env count pos (list_text (registry (the_inst s))), s)"
proof -
  obtain s1 where l: "spin_instance_lock s = Some s1" using assms by (simp add: lock_Some_iff)
  then show ?thesis
    by (simp add: read_proc_list_def read_proc_def read_result_def list_text_def lock_fields
        Let_def)
qed

lemma length_dec_nat: "n < 10 ^ k \<Longrightarrow> 0 < k \<Longrightarrow> length (dec_nat n) \<le> k"
proof (induction k arbitrary: n)
  case (Suc k)
  show ?case
  proof (cases "n < 10")
    case True
    then show ?thesis by (simp add: dec_nat.simps [of n])
  next
    case False
    then have "0 < k" using Suc.prems(1) by (cases k) auto
    moreover have "n div 10 < 10 ^ k" using Suc.prems(1) by (simp add: less_mult_imp_div_less mult.commute)
    ultimately show ?thesis using Suc.IH [of "n div 10"] False by (simp add: dec_nat.simps [of n])
  qed
qed simp

lemma length_dec_int: "- (2 ^ 31) \<le> i \<Longrightarrow> i < 2 ^ 31 \<Longrightarrow> length (dec_int i) \<le> 11"
  using length_dec_nat [of "nat i" 10] length_dec_nat [of "nat (- i)" 10]
  by (cases "i < 0") (auto simp: dec_int_def nat_less_iff)

definition int_codes :: "registered_syscall_codes \<Rightarrow> bool" where
  "int_codes c \<longleftrightarrow> (\<forall>i\<in>{sc_code_set_state c, sc_code_reconf_add c, sc_code_reconf_rm c, sc_code_flush c}.
     - (2 ^ 31) \<le> i \<and> i < 2 ^ 31)"

lemma length_codes_text: "int_codes c \<Longrightarrow> length (codes_text c) \<le> 48"
  using length_dec_int [of "sc_code_set_state c"] length_dec_int [of "sc_code_reconf_add c"]
    length_dec_int [of "sc_code_reconf_rm c"] length_dec_int [of "sc_code_flush c"]
  by (simp add: codes_text_def int_codes_def)

lemma read_proc_syscalls_eq:
  assumes "int_codes (syscall_codes s)"
  shows "read_proc_syscalls env count pos s =
    Some (read_result env count pos (codes_text (syscall_codes s)), s)"
  using length_codes_text [OF assms]
  by (simp add: read_proc_syscalls_def read_proc_def read_result_def snprintf_def file_names
      PAGE_SIZE_def)

lemma read_proc_state_eq:
  "read_proc_state env count pos s =
    Some (read_result env count pos (state_text (state (the_inst s))), s)"
proof -
  have "length (state_text st) \<le> 8" for st
    by (cases st) (simp_all add: state_text_def str_arg_def)
  then have "length (state_text (state (the_inst s))) \<le> 4095" by (meson le_trans numeral_le_iff semiring_norm)
  then show ?thesis
    by (simp add: read_proc_state_def read_proc_def read_result_def snprintf_def file_names
        PAGE_SIZE_def)
qed

lemma procfiles_roundtrip:
  assumes "init_procfiles env s = (0, s1)" and "set (proc_files s) \<inter> {REFMON_FILE_SYSCALLCODES,
    REFMON_FILE_STATE, REFMON_FILE_REGISTRY} = {}"
  shows "flush_procfiles s1 = s"
  using assms
  by (auto simp: init_procfiles_def flush_procfiles_def proc_create_def remove_proc_entry_def
      file_names split: if_splits)

end
