(* ===== verification/Module.thy ===== *)
theory Module
  imports Syscalls Procio
begin

text \<open>
  \<open>refmon.c\<close>: loading and unloading the module. A step of \<open>init_module\<close> that fails sends it to
  \<open>cleanup_module\<close>, which undoes all of them, also those that never ran.
\<close>

definition REFMON_DEFAULT_PASSWORD :: string where "REFMON_DEFAULT_PASSWORD = ''ciao''"

definition init_password :: "kenv \<Rightarrow> ksys \<Rightarrow> (int \<times> ksys) option" where
  "init_password env s = do {
     (enc, m) \<leftarrow> hashgen_str env REFMON_DEFAULT_PASSWORD (mem s);
     let s1 = s\<lparr>mem := m\<rparr>;
     if enc = None then Some (- ENOTRECOVERABLE, s1)
     else Some (0, s1\<lparr>the_inst := (the_inst s1)\<lparr>password := enc\<rparr>\<rparr>)
   }"

definition init_instance :: "ksys \<Rightarrow> int \<times> ksys" where
  "init_instance s =
     (let s1 = s\<lparr>the_inst := (the_inst s)\<lparr>state := OFF, registry := []\<rparr>\<rparr> in
      if \<not> check_list_init (registry (the_inst s1)) then (- ENOTRECOVERABLE, s1) else (0, s1))"

definition cleanup_module :: "kenv \<Rightarrow> ksys \<Rightarrow> ksys option" where
  "cleanup_module env s = do {
     let s1 = flush_procfiles s;
     s2 \<leftarrow> flush_syscalls env s1;
     Some (flush_probes s2)
   }"

definition abort_module :: "kenv \<Rightarrow> int \<Rightarrow> ksys \<Rightarrow> (int \<times> ksys) option" where
  "abort_module env ret s = do {
     s1 \<leftarrow> cleanup_module env s;
     Some (ret, s1)
   }"

definition init_module :: "kenv \<Rightarrow> ksys \<Rightarrow> (int \<times> ksys) option" where
  "init_module env s = do {
     (ret, s1) \<leftarrow> init_password env s;
     if ret \<noteq> 0 then abort_module env ret s1
     else let (ret, s2) = init_instance s1 in
     if ret \<noteq> 0 then abort_module env ret s2
     else let (ret, s3) = init_procfiles env s2 in
     if ret \<noteq> 0 then abort_module env ret s3
     else do {
       (ret, s4) \<leftarrow> init_syscalls env s3;
       if ret \<noteq> 0 then abort_module env ret s4
       else let (ret, s5) = init_probes env s4 in
       if ret \<noteq> 0 then abort_module env ret s5
       else Some (0, s5)
     }
   }"

subsection \<open>The steps\<close>

definition own_files :: "string list" where
  "own_files = [REFMON_FILE_SYSCALLCODES, REFMON_FILE_STATE, REFMON_FILE_REGISTRY]"

text \<open>The module's variables as the loader leaves them, and none of its files, calls or probes.\<close>

definition just_loaded :: "ksys \<Rightarrow> bool" where
  "just_loaded s \<longleftrightarrow>
     the_inst s = \<lparr>state = OFF, registry = [], password = None,
                   spinlock_inst = False, spinlock_probing = False\<rparr> \<and>
     preempt (mem s) = 0 \<and> probe_registered s = (\<lambda>_. False) \<and> probe_enabled s = (\<lambda>_. False) \<and>
     works s = [] \<and> restore s = replicate 4 (- 1) \<and> the_ni_syscall s = 0 \<and>
     set (proc_files s) \<inter> set own_files = {}"

lemma init_instance_eq [simp]:
  "init_instance s = (0, s\<lparr>the_inst := (the_inst s)\<lparr>state := OFF, registry := []\<rparr>\<rparr>)"
  by (simp add: init_instance_def check_list_init_def)

lemma init_password_frame:
  assumes "init_password env s = Some (ret, s')" and "\<And>x. length (sha256 env x) = 32"
  obtains m where "preempt m = preempt (mem s)"
    "ret = 0 \<and> s' = s\<lparr>mem := m, the_inst := (the_inst s)
       \<lparr>password := Some (digest_of env REFMON_DEFAULT_PASSWORD)\<rparr>\<rparr> \<or>
     ret = - ENOTRECOVERABLE \<and> s' = s\<lparr>mem := m\<rparr>"
proof -
  obtain enc m where h: "hashgen_str env REFMON_DEFAULT_PASSWORD (mem s) = Some (enc, m)"
    using assms(1) by (auto simp: init_password_def bind_eq_Some_conv)
  have "enc = None \<or> enc = Some (digest_of env REFMON_DEFAULT_PASSWORD)"
    using h assms(2) by (cases enc) (auto dest: hashgen_str_sound)
  then show thesis
    using that [of m] hashgen_str_preempt [OF h] assms(1) h by (auto simp: init_password_def)
qed

lemma init_procfiles_frame:
  assumes "init_procfiles env s = (ret, s')"
  obtains fs where "s' = s\<lparr>proc_files := proc_files s @ fs\<rparr>" "set fs \<subseteq> set own_files"
    "ret = 0 \<and> fs = own_files \<or> ret = - EINVAL"
proof -
  consider "\<not> proc_create_ok env REFMON_FILE_SYSCALLCODES"
    | "proc_create_ok env REFMON_FILE_SYSCALLCODES" "\<not> proc_create_ok env REFMON_FILE_STATE"
    | "proc_create_ok env REFMON_FILE_SYSCALLCODES" "proc_create_ok env REFMON_FILE_STATE"
      "\<not> proc_create_ok env REFMON_FILE_REGISTRY"
    | "proc_create_ok env REFMON_FILE_SYSCALLCODES" "proc_create_ok env REFMON_FILE_STATE"
      "proc_create_ok env REFMON_FILE_REGISTRY" by blast
  then show thesis
  proof cases
    case 1
    then show ?thesis using assms
      by (intro that [of "[]"]) (auto simp: init_procfiles_def proc_create_def)
  next
    case 2
    then show ?thesis using assms
      by (intro that [of "[REFMON_FILE_SYSCALLCODES]"])
        (auto simp: init_procfiles_def proc_create_def own_files_def)
  next
    case 3
    then show ?thesis using assms
      by (intro that [of "[REFMON_FILE_SYSCALLCODES, REFMON_FILE_STATE]"])
        (auto simp: init_procfiles_def proc_create_def own_files_def)
  next
    case 4
    then show ?thesis using assms
      by (intro that [of own_files]) (auto simp: init_procfiles_def proc_create_def own_files_def)
  qed
qed

lemma init_procfiles_ok:
  assumes "\<And>f. proc_create_ok env f"
  shows "init_procfiles env s = (0, s\<lparr>proc_files := proc_files s @ own_files\<rparr>)"
  using assms by (simp add: init_procfiles_def proc_create_def own_files_def)

lemma flush_procfiles_eq:
  "flush_procfiles s = s\<lparr>proc_files := filter (\<lambda>f. f \<notin> set own_files) (proc_files s)\<rparr>"
proof -
  have "proc_files (flush_procfiles s) = filter (\<lambda>f. f \<notin> set own_files) (proc_files s)"
    by (auto simp: flush_procfiles_def remove_proc_entry_def removeAll_filter_not_eq own_files_def
        intro: filter_cong)
  then show ?thesis by (simp add: flush_procfiles_def remove_proc_entry_def)
qed

lemma flush_own_files:
  assumes "set (proc_files s) \<inter> set own_files = {}" and "set fs \<subseteq> set own_files"
  shows "filter (\<lambda>f. f \<notin> set own_files) (proc_files s @ fs) = proc_files s"
proof -
  have "filter (\<lambda>f. f \<notin> set own_files) (proc_files s) = proc_files s"
    using assms(1) by (intro filter_True) blast
  moreover have "filter (\<lambda>f. f \<notin> set own_files) fs = []" using assms(2) by (intro filter_False) blast
  ultimately show ?thesis by simp
qed


lemma cleanup_module_eq:
  assumes "the_syscall_table env \<noteq> 0" and "length (restore s) = 4"
  shows "cleanup_module env s = Some (s
    \<lparr>proc_files := filter (\<lambda>f. f \<notin> set own_files) (proc_files s), cr0 := hw_cr0 s,
     sct := fill_entries (restore s) (the_ni_syscall s) (sct s),
     probe_registered := (\<lambda>_. False), probe_enabled := (\<lambda>_. False)\<rparr>)"
  using assms
  by (simp add: cleanup_module_def flush_procfiles_eq flush_syscalls_eq flush_probes_eq)

text \<open>Without the address of the table, unloading is a write to address 0.\<close>

lemma cleanup_module_no_table:
  assumes "the_syscall_table env = 0" and "restore s \<noteq> []"
  shows "cleanup_module env s = None"
proof -
  obtain r rs where "restore (flush_procfiles s) = r # rs"
    using assms(2) by (cases "restore s") (simp_all add: flush_procfiles_eq)
  then show ?thesis using flush_syscalls_no_table [OF assms(1)] by (simp add: cleanup_module_def)
qed

text \<open>An abort before the calls were installed.\<close>

lemma abort_early:
  assumes "abort_module env ret t = Some (ret', s')" and "restore t = replicate 4 (- 1)"
  shows "ret' = ret" and "the_syscall_table env \<noteq> 0"
    and "sct s' = (sct t)(- 1 := the_ni_syscall t)" and "hw_cr0 s' = hw_cr0 t"
    and "probe_registered s' = (\<lambda>_. False)"
    and "proc_files s' = filter (\<lambda>f. f \<notin> set own_files) (proc_files t)"
proof -
  show table: "the_syscall_table env \<noteq> 0"
    using assms cleanup_module_no_table [of env t] by (auto simp: abort_module_def)
  have "length (restore t) = 4" using assms(2) by simp
  note eq = cleanup_module_eq [OF table this]
  show "ret' = ret" "hw_cr0 s' = hw_cr0 t" "probe_registered s' = (\<lambda>_. False)"
    "proc_files s' = filter (\<lambda>f. f \<notin> set own_files) (proc_files t)"
    using assms(1) eq by (auto simp: abort_module_def)
  show "sct s' = (sct t)(- 1 := the_ni_syscall t)"
    using assms eq by (auto simp: abort_module_def fill_no_entries)
qed

subsection \<open>Loading\<close>

definition ready_state :: "kenv \<Rightarrow> int list \<Rightarrow> u64 \<Rightarrow> kmem \<Rightarrow> ksys \<Rightarrow> ksys" where
  "ready_state env slots ni m s =
     (installed_state env slots ni
       (s\<lparr>mem := m,
          the_inst := (the_inst s)\<lparr>password := Some (digest_of env REFMON_DEFAULT_PASSWORD),
                                    state := OFF, registry := []\<rparr>,
          proc_files := proc_files s @ own_files\<rparr>))
     \<lparr>probe_registered := (\<lambda>_. True), probe_enabled := (\<lambda>_. False)\<rparr>"

text \<open>The kernel state after a load that failed: as before, but for the word before the table.\<close>

definition unloaded :: "ksys \<Rightarrow> ksys \<Rightarrow> bool" where
  "unloaded s s' \<longleftrightarrow> (\<forall>k. k \<noteq> - 1 \<longrightarrow> sct s' k = sct s k) \<and> hw_cr0 s' = hw_cr0 s \<and>
     probe_registered s' = (\<lambda>_. False) \<and> proc_files s' = proc_files s"

lemma abort_unloaded:
  assumes "abort_module env ret t = Some (ret', s')" and "restore t = replicate 4 (- 1)"
    and "sct t = sct s" and "hw_cr0 t = hw_cr0 s" and "proc_files t = proc_files s @ fs"
    and "set fs \<subseteq> set own_files" and "set (proc_files s) \<inter> set own_files = {}"
  shows "ret' = ret" and "the_syscall_table env \<noteq> 0" and "unloaded s s'"
    and "sct s' = (sct s)(- 1 := the_ni_syscall t)"
  using abort_early [OF assms(1,2)] flush_own_files [OF assms(7,6)] assms(3-5)
  by (simp_all add: unloaded_def)

lemma init_module_cases:
  assumes "init_module env s = Some (ret, s')" and "just_loaded s"
    and "kprobes_ok env" and "\<And>x. length (sha256 env x) = 32"
  obtains (ready) slots ni m where "ret = 0" "unused_slots s slots"
      "\<And>k. k \<in> set slots \<Longrightarrow> sct s k = ni" "preempt m = 0" "s' = ready_state env slots ni m s"
      "the_syscall_table env \<noteq> 0"
  | (aborted) "ret \<noteq> 0" "unloaded s s'" "the_syscall_table env \<noteq> 0"
proof -
  note jl = assms(2) [unfolded just_loaded_def]
  obtain r1 s1 where 1: "init_password env s = Some (r1, s1)"
    using assms(1) by (auto simp: init_module_def bind_eq_Some_conv)
  obtain m where m: "preempt m = preempt (mem s)"
    "r1 = 0 \<and> s1 = s\<lparr>mem := m, the_inst := (the_inst s)
       \<lparr>password := Some (digest_of env REFMON_DEFAULT_PASSWORD)\<rparr>\<rparr> \<or>
     r1 = - ENOTRECOVERABLE \<and> s1 = s\<lparr>mem := m\<rparr>"
    using init_password_frame [OF 1 assms(4)] by blast
  show thesis
  proof (cases "r1 = 0")
    case False
    then have a: "abort_module env r1 s1 = Some (ret, s')"
      using assms(1) 1 by (simp add: init_module_def)
    show thesis
      using abort_unloaded [OF a, of s "[]"] m(2) jl False by (intro aborted) auto
  next
    case True
    let ?s2 = "s1\<lparr>the_inst := (the_inst s1)\<lparr>state := OFF, registry := []\<rparr>\<rparr>"
    obtain r3 s3 where 3: "init_procfiles env ?s2 = (r3, s3)" by force
    obtain fs where fs: "s3 = ?s2\<lparr>proc_files := proc_files ?s2 @ fs\<rparr>" "set fs \<subseteq> set own_files"
      "r3 = 0 \<and> fs = own_files \<or> r3 = - EINVAL"
      using init_procfiles_frame [OF 3] by blast
    have s1: "s1 = s\<lparr>mem := m, the_inst := (the_inst s)
       \<lparr>password := Some (digest_of env REFMON_DEFAULT_PASSWORD)\<rparr>\<rparr>" using m(2) True by simp
    show thesis
    proof (cases "r3 = 0")
      case False
      then have a: "abort_module env r3 s3 = Some (ret, s')"
        using assms(1) 1 3 True by (simp add: init_module_def)
      show thesis
        using abort_unloaded [OF a, of s fs] fs s1 jl False by (intro aborted) auto
    next
      case r3: True
      then obtain r4 s4 where 4: "init_syscalls env s3 = Some (r4, s4)"
        using assms(1) 1 3 True by (auto simp: init_module_def bind_eq_Some_conv)
      have r: "restore s3 = replicate 4 (- 1)" "sct s3 = sct s" "hw_cr0 s3 = hw_cr0 s"
        "proc_files s3 = proc_files s @ fs" "the_ni_syscall s3 = 0"
        using fs(1) s1 jl by simp_all
      then have "length (restore s3) = 4" by simp
      from 4 this show thesis
      proof (cases rule: init_syscalls_cases)
        case no_table
        then have "abort_module env r4 s4 = Some (ret, s')"
          using assms(1) 1 3 4 True r3 by (simp add: init_module_def)
        then have "the_syscall_table env \<noteq> 0"
          using no_table r by (intro abort_unloaded(2) [of env r4 s4 ret s' s fs]) (use fs jl in auto)
        with no_table show thesis by simp
      next
        case no_entries
        then have a: "abort_module env r4 s4 = Some (ret, s')"
          using assms(1) 1 3 4 True r3 by (simp add: init_module_def)
        show thesis
          using abort_unloaded [OF a, of s fs] no_entries r fs jl by (intro aborted) auto
      next
        case (installed slots ni)
        obtain r5 s5 where 5: "init_probes env s4 = (r5, s5)" by force
        have slots: "unused_slots s slots" "\<And>k. k \<in> set slots \<Longrightarrow> sct s k = ni"
          using installed r(2) by (simp_all add: unused_slots_def)
        show thesis
        proof (cases "r5 = 0")
          case r5: True
          then have "s5 = s4\<lparr>probe_registered := (\<lambda>_. True), probe_enabled := (\<lambda>_. False)\<rparr>"
            using init_probes_0 [OF assms(3)] 5 by blast
          moreover have "ret = 0" "s' = s5"
            using assms(1) 1 3 4 5 True r3 r5 installed(2) by (simp_all add: init_module_def)
          ultimately have "s' = ready_state env slots ni m s"
            using installed fs s1 r3 by (auto simp: ready_state_def)
          then show thesis using ready slots installed \<open>ret = 0\<close> m(1) jl by simp
        next
          case False
          then have a: "abort_module env r5 s5 = Some (ret, s')"
            using assms(1) 1 3 4 5 True r3 installed(2) by (simp add: init_module_def)
          note s5 = forget_probes_fields [OF init_probes_frame [of env s4, unfolded 5 snd_conv]]
          have s4: "restore s4 = slots" "the_ni_syscall s4 = ni" "hw_cr0 s4 = hw_cr0 s"
            "proc_files s4 = proc_files s @ fs"
            using installed(5) r by (simp_all add: installed_state_def)
          have "length (restore s5) = 4" using s5(2) s4(1) slots(1) by (simp add: unused_slots_def)
          note eq = cleanup_module_eq [OF installed(1) this]
          have "fill_entries slots ni (sct s5) = sct s"
            using fill_installed [of slots s3 ni env] installed(4,5) r(2) s5(1) by simp
          moreover have "filter (\<lambda>f. f \<notin> set own_files) (proc_files s5) = proc_files s"
            using flush_own_files [of s fs] fs(2) jl s5(5) s4(4) by simp
          ultimately have "ret = r5" "unloaded s s'"
            using a eq s4 s5 by (auto simp: abort_module_def unloaded_def)
          then show thesis using False installed(1) by (intro aborted) auto
        qed
      qed
    qed
  qed
qed


text \<open>Loading succeeds when the kernel gives all that is asked for.\<close>

lemma init_module_ok:
  assumes "no_oom env" and "crypto_ok env" and "\<And>f. proc_create_ok env f"
    and "\<And>p. register_ret env p = 0" and "the_syscall_table env \<noteq> 0"
    and "first_shared (\<lambda>i. sct s (int i)) = Some i"
    and "4 \<le> length (sharing (\<lambda>i. sct s (int i)) i)"
  shows "\<exists>s'. init_module env s = Some (0, s')"
proof -
  obtain m where h: "hashgen_str env REFMON_DEFAULT_PASSWORD (mem s) =
      Some (Some (digest_of env REFMON_DEFAULT_PASSWORD), m)"
    using hashgen_str_ok [OF assms(1,2)] by blast
  have 1: "init_password env s = Some (0, s\<lparr>mem := m, the_inst := (the_inst s)
       \<lparr>password := Some (digest_of env REFMON_DEFAULT_PASSWORD)\<rparr>\<rparr>)"
    by (simp add: init_password_def h)
  let ?s3 = "s\<lparr>mem := m, the_inst := (the_inst s)
      \<lparr>password := Some (digest_of env REFMON_DEFAULT_PASSWORD), state := OFF, registry := []\<rparr>,
      proc_files := proc_files s @ own_files\<rparr>"
  obtain s4 where 4: "init_syscalls env ?s3 = Some (0, s4)"
    using init_syscalls_ok [OF assms(5), of ?s3 i] assms(6,7) by auto
  obtain s5 where "init_probes env s4 = (0, s5)"
    using init_probes_all [of env s4] assms(4) by blast
  with 1 4 show ?thesis by (simp add: init_module_def init_procfiles_ok [OF assms(3)])
qed

text \<open>Without the address of the table, every load crashes, those that are refused too.\<close>

lemma init_module_no_table:
  assumes "the_syscall_table env = 0" and "just_loaded s" and "kprobes_ok env"
    and "\<And>x. length (sha256 env x) = 32"
  shows "init_module env s = None"
proof (cases "init_module env s")
  case (Some r)
  obtain ret s' where "r = (ret, s')" by force
  then have "init_module env s = Some (ret, s')" using Some by simp
  from this assms(2-4) show ?thesis
    by (cases rule: init_module_cases) (simp_all add: assms(1))
qed

subsection \<open>Unloading\<close>

lemma ready_state_simps [simp]:
  "restore (ready_state env slots ni m s) = slots" "the_ni_syscall (ready_state env slots ni m s) = ni"
  "proc_files (ready_state env slots ni m s) = proc_files s @ own_files"
  "hw_cr0 (ready_state env slots ni m s) = hw_cr0 s" "mem (ready_state env slots ni m s) = m"
  "the_inst (ready_state env slots ni m s) = (the_inst s)
     \<lparr>password := Some (digest_of env REFMON_DEFAULT_PASSWORD), state := OFF, registry := []\<rparr>"
  "probe_registered (ready_state env slots ni m s) = (\<lambda>_. True)"
  "probe_enabled (ready_state env slots ni m s) = (\<lambda>_. False)"
  "works (ready_state env slots ni m s) = works s"
  by (simp_all add: ready_state_def installed_state_def)

lemma fill_ready:
  assumes "\<And>k. k \<in> set slots \<Longrightarrow> sct s k = ni"
  shows "fill_entries slots ni (sct (ready_state env slots ni m s)) = sct s"
  using fill_installed [of slots "s\<lparr>mem := m, the_inst := (the_inst s)
      \<lparr>password := Some (digest_of env REFMON_DEFAULT_PASSWORD), state := OFF, registry := []\<rparr>,
      proc_files := proc_files s @ own_files\<rparr>" ni env] assms
  by (simp add: ready_state_def)

text \<open>The parts of a loaded module that only loading and unloading write.\<close>

definition same_install :: "ksys \<Rightarrow> ksys \<Rightarrow> bool" where
  "same_install s t \<longleftrightarrow> sct t = sct s \<and> restore t = restore s \<and> the_ni_syscall t = the_ni_syscall s \<and>
     hw_cr0 t = hw_cr0 s \<and> proc_files t = proc_files s \<and> syscall_codes t = syscall_codes s \<and>
     probe_registered t = probe_registered s"

lemma same_install_refl [simp]: "same_install s s"
  by (simp add: same_install_def)

lemma same_install_trans: "same_install s t \<Longrightarrow> same_install t u \<Longrightarrow> same_install s u"
  by (simp add: same_install_def)

text \<open>A load, anything that leaves the installation alone, and an unload: the kernel is as before.\<close>

lemma load_unload:
  assumes "just_loaded s" and "unused_slots s slots" and "\<And>k. k \<in> set slots \<Longrightarrow> sct s k = ni"
    and "same_install (ready_state env slots ni m s) t" and "the_syscall_table env' \<noteq> 0"
  shows "\<exists>u. cleanup_module env' t = Some u \<and> sct u = sct s \<and> hw_cr0 u = hw_cr0 s \<and>
    proc_files u = proc_files s \<and> probe_registered u = (\<lambda>_. False) \<and> probe_enabled u = (\<lambda>_. False)"
proof -
  note same = assms(4) [unfolded same_install_def]
  have "length (restore t) = 4" using same assms(2) by (simp add: unused_slots_def)
  note eq = cleanup_module_eq [OF assms(5) this]
  have "fill_entries (restore t) (the_ni_syscall t) (sct t) = sct s"
    using same fill_ready [OF assms(3)] by simp
  moreover have "filter (\<lambda>f. f \<notin> set own_files) (proc_files t) = proc_files s"
    using same flush_own_files [of s own_files] assms(1) by (simp add: just_loaded_def)
  ultimately show ?thesis unfolding eq using same by simp
qed

end
