(* ===== verification/Logio.thy ===== *)
theory Logio
  imports Fsutils Hashing
begin

text \<open>
  \<open>io/logio.c\<close>: logging a blocked operation. \<open>log_handler\<close> runs in the probe and schedules
  a work with what it knows of the caller; \<open>defer\<close> runs later, hashes the program that was
  blocked and writes one line.
\<close>

definition REFMON_FILE_LOG_ABSOLUTE :: string where
  "REFMON_FILE_LOG_ABSOLUTE = ''/mnt/refmonfs/blocked-ops.log''"

definition REFMON_LOGLEN :: nat where "REFMON_LOGLEN = 516"

text \<open>
  \<open>log_handler\<close>. A kernel thread has no \<open>current->mm\<close>, and reading its executable crashes. No
  block is freed on the error paths.
\<close>

definition log_handler :: "kenv \<Rightarrow> ksys \<Rightarrow> (int \<times> ksys) option" where
  "log_handler env s =
     (let (ok, m1) = kmalloc env GFP_ATOMIC (mem s) in
      if \<not> ok then Some (- ENOMEM, s\<lparr>mem := m1\<rparr>)
      else do {
        d \<leftarrow> exe_dentry env;
        (p, m2) \<leftarrow> extract_path_from_dentry env d m1;
        case p of
          None \<Rightarrow> Some (- EINVAL, s\<lparr>mem := m2\<rparr>)
        | Some exe \<Rightarrow>
            let (ok, m3) = kmalloc env GFP_ATOMIC m2 in
            if \<not> ok then Some (- ENOMEM, s\<lparr>mem := m3\<rparr>)
            else let (ok, m4) = kmalloc env GFP_ATOMIC m3 in
            if \<not> ok then Some (- ENOMEM, s\<lparr>mem := m4\<rparr>)
            else Some (0, s\<lparr>mem := m4,
              works := works s @ [\<lparr>ld_tgid = tgid env, ld_tid = tid env, ld_uid = uid env,
                                   ld_euid = euid env, prog_path = exe\<rparr>]\<rparr>)
      })"

text \<open>The line of a work: \<open>"%d\t%d\t%u\t%u\t%s\t%s\n"\<close>, and what \<open>snprintf\<close> keeps of it.\<close>

definition log_line :: "log_dataset \<Rightarrow> string \<Rightarrow> string" where
  "log_line w hash =
     dec_int (ld_tgid w) @ [CHR 0x09] @ dec_int (ld_tid w) @ [CHR 0x09] @
     dec_nat (unat (ld_uid w)) @ [CHR 0x09] @ dec_nat (unat (ld_euid w)) @ [CHR 0x09] @
     prog_path w @ [CHR 0x09] @ hash @ [CHR 0x0A]"

text \<open>
  \<open>defer\<close> on one work; the lock it takes is its own. The line is handed to the file system of the
  log (theory \<open>Onefilefs\<close>); what that answers only decides whether the file is closed, and open
  files are not counted here.
\<close>

definition defer_work :: "kenv \<Rightarrow> log_dataset \<Rightarrow> ksys \<Rightarrow> ksys option" where
  "defer_work env w s = do {
     (hash, m1) \<leftarrow> hashgen_filecont env (prog_path w) (preempt_disable (mem s));
     case hash of
       None \<Rightarrow> Some (s\<lparr>mem := preempt_enable m1\<rparr>)
     | Some h \<Rightarrow>
         let out = snd (snprintf REFMON_LOGLEN (log_line w h));
             s1 = s\<lparr>mem := kfree (preempt_enable m1)\<rparr> in
         if \<not> filp_open_ok env REFMON_FILE_LOG_ABSOLUTE then Some s1
         else Some (s1\<lparr>log_file := log_file s1 @ [out]\<rparr>)
   }"

subsection \<open>What they do\<close>

lemma log_handler_frame:
  assumes "log_handler env s = Some (ret, s')"
  shows "\<exists>m ws. s' = s\<lparr>mem := m, works := works s @ ws\<rparr> \<and> preempt m = preempt (mem s) \<and>
    (ret = 0 \<longleftrightarrow> ws \<noteq> [])"
proof -
  obtain ok1 m1 where 1: "kmalloc env GFP_ATOMIC (mem s) = (ok1, m1)" by force
  note p1 = kmalloc_preempt [OF 1]
  show ?thesis
  proof (cases ok1)
    case False
    then have "s' = s\<lparr>mem := m1, works := works s @ []\<rparr>" "ret \<noteq> 0"
      using assms 1 by (auto simp: log_handler_def)
    with p1 show ?thesis by blast
  next
    case True
    then obtain d p m2 where d: "exe_dentry env = Some d"
      and 2: "extract_path_from_dentry env d m1 = Some (p, m2)"
      using assms 1 by (auto simp: log_handler_def bind_eq_Some_conv)
    note p2 = extract_path_mem(1) [OF 2]
    obtain ok3 m3 where 3: "kmalloc env GFP_ATOMIC m2 = (ok3, m3)" by force
    obtain ok4 m4 where 4: "kmalloc env GFP_ATOMIC m3 = (ok4, m4)" by force
    have p: "preempt m4 = preempt (mem s)" "preempt m3 = preempt (mem s)" "preempt m2 = preempt (mem s)"
      using p1 p2 kmalloc_preempt [OF 3] kmalloc_preempt [OF 4] by simp_all
    show ?thesis
    proof (cases "p \<noteq> None \<and> ok3 \<and> ok4")
      case True
      then obtain w where "ret = 0" "s' = s\<lparr>mem := m4, works := works s @ [w]\<rparr>"
        using assms 1 2 3 4 d \<open>ok1\<close> by (auto simp: log_handler_def)
      then show ?thesis using p(1) by blast
    next
      case False
      then obtain m where "ret \<noteq> 0" "s' = s\<lparr>mem := m\<rparr>" "m \<in> {m2, m3, m4}"
        using assms 1 2 3 4 d \<open>ok1\<close> by (cases p; cases ok3) (auto simp: log_handler_def)
      then have "ret \<noteq> 0" "s' = s\<lparr>mem := m, works := works s @ []\<rparr>" "preempt m = preempt (mem s)"
        using p by auto
      then show ?thesis by blast
    qed
  qed
qed

lemma log_handler_ok:
  assumes "no_oom env" and "exe_dentry env = Some d" and "dentry_path_raw env d = Some p"
  shows "\<exists>m. log_handler env s = Some (0, s\<lparr>mem := m, works := works s @
    [\<lparr>ld_tgid = tgid env, ld_tid = tid env, ld_uid = uid env, ld_euid = euid env,
      prog_path = stale env p\<rparr>]\<rparr>)"
proof -
  obtain m1 where 1: "kmalloc env GFP_ATOMIC (mem s) = (True, m1)"
    using assms(1) by (simp add: kmalloc_def Let_def)
  obtain m2 where 2: "extract_path_from_dentry env d m1 = Some (Some (stale env p), m2)"
    using extract_path_no_oom [OF assms(1,3)] by blast
  obtain m3 where 3: "kmalloc env GFP_ATOMIC m2 = (True, m3)"
    using assms(1) by (simp add: kmalloc_def Let_def)
  obtain m4 where "kmalloc env GFP_ATOMIC m3 = (True, m4)"
    using assms(1) by (simp add: kmalloc_def Let_def)
  then show ?thesis using 1 2 3 assms(2) by (auto simp: log_handler_def)
qed

text \<open>
  The line that a run of the log adds, when the kernel works. The program is hashed inside the spin
  lock, with allocations that may sleep.
\<close>

lemma defer_work_ok:
  assumes "no_oom env" and "crypto_ok env" and "file_holds env (prog_path w) c"
    and "filp_open_ok env REFMON_FILE_LOG_ABSOLUTE"
  shows "\<exists>m. defer_work env w s =
      Some (s\<lparr>mem := m, log_file := log_file s @ [take 515 (log_line w (digest_of env c))]\<rparr>) \<and>
    preempt m = preempt (mem s) \<and> slept m"
proof -
  obtain m1 where h: "hashgen_filecont env (prog_path w) (preempt_disable (mem s)) =
      Some (Some (digest_of env c), m1)"
    and m1: "preempt m1 = Suc (preempt (mem s))" "slept m1"
    using hashgen_filecont_ok [OF assms(1-3), of "preempt_disable (mem s)"]
    by (auto simp: preempt_disable_def)
  let ?m = "kfree (preempt_enable m1)"
  have "defer_work env w s =
      Some (s\<lparr>mem := ?m, log_file := log_file s @ [take 515 (log_line w (digest_of env c))]\<rparr>)"
    using h assms(4) by (simp add: defer_work_def snprintf_def REFMON_LOGLEN_def Let_def)
  moreover have "preempt ?m = preempt (mem s)" "slept ?m"
    using m1 by (simp_all add: kfree_simps preempt_enable_def)
  ultimately show ?thesis by blast
qed

end
