(* ===== verification/Hooks.thy ===== *)
theory Hooks
  imports Registry Logio
begin

text \<open>
  \<open>probing/probing-handlers.c\<close>: the entry handlers, which decide whether a call is to be blocked, and
  the return handler, which blocks it. An entry handler that returns 0 makes the kernel run the
  return handler when the probed function returns; any other value drops the instance.
\<close>

record pt_regs =
  di :: u64
  si :: u64
  dx :: u64
  ax :: u64

abbreviation (input) O_ACCMODE :: u32 where "O_ACCMODE \<equiv> 3"
abbreviation (input) O_WRONLY :: u32 where "O_WRONLY \<equiv> 1"
abbreviation (input) O_RDWR :: u32 where "O_RDWR \<equiv> 2"
abbreviation (input) O_CREAT :: u32 where "O_CREAT \<equiv> 0x40"
abbreviation (input) O_TRUNC :: u32 where "O_TRUNC \<equiv> 0x200"
abbreviation (input) O_APPEND :: u32 where "O_APPEND \<equiv> 0x400"

text \<open>\<open>-EACCES\<close> in a register.\<close>

definition minus_EACCES :: u64 where
  "minus_EACCES = word_of_int (- EACCES)"

definition regs_set_return_value :: "pt_regs \<Rightarrow> u64 \<Rightarrow> pt_regs" where
  "regs_set_return_value regs rc = regs\<lparr>ax := rc\<rparr>"

subsection \<open>The handlers\<close>

definition krp_hook_tail :: "kenv \<Rightarrow> pt_regs \<Rightarrow> ksys \<Rightarrow> (int \<times> pt_regs \<times> ksys) option" where
  "krp_hook_tail env regs s = do {
     s1 \<leftarrow> spin_probing_lock s;
     let regs1 = regs_set_return_value regs minus_EACCES;
     (ret, s2) \<leftarrow>
       (if ax regs1 \<noteq> minus_EACCES then Some (- ENOTRECOVERABLE, s1)
        else do {
          (ret, s2) \<leftarrow> log_handler env s1;
          Some (if ret < 0 then (ret, s2) else (0, s2))
        });
     Some (ret, regs1, spin_probing_unlock s2)
   }"

definition get_accmods :: "kenv \<Rightarrow> u64 \<Rightarrow> u32" where
  "get_accmods env file = f_flags env file AND O_ACCMODE"

definition is_write_acc :: "kenv \<Rightarrow> u64 \<Rightarrow> bool" where
  "is_write_acc env filestruct =
     (let accmod = get_accmods env filestruct in
      accmod = O_WRONLY \<or> accmod = O_RDWR \<or> accmod = O_CREAT \<or> accmod = O_TRUNC \<or>
      accmod = O_APPEND)"

definition krp_hook_open ::
    "kenv \<Rightarrow> pt_regs \<Rightarrow> registry_entry list \<Rightarrow> kmem \<Rightarrow> (int \<times> kmem) option" where
  "krp_hook_open env regs reg m = do {
     (dentry_path, m1) \<leftarrow> extract_path_from_dentry env (path_dentry env (di regs)) m;
     if dentry_path = None then Some (KRP_GO_AHEAD, m1)
     else let (absolute_path, m2) =
       resolve_path_alloc env dentry_path REFMON_FSUTILS_RESOLVE_LINKS m1 in
     case absolute_path of
       None \<Rightarrow> Some (KRP_GO_AHEAD, m2)
     | Some abs_path \<Rightarrow>
         let pid = \<lparr>path = absolute_path, ino_no = extract_ino_no_from_path env abs_path\<rparr> in
         if is_write_acc env (si regs)
         then do {
           e \<leftarrow> is_eligible env reg pid;
           Some (if e \<noteq> 0 then KRP_TO_TAILHOOK else KRP_GO_AHEAD, m2)
         }
         else Some (KRP_GO_AHEAD, m2)
   }"

text \<open>The register the dentry is read from depends on the kernel's version.\<close>

definition dentry_arg :: "kenv \<Rightarrow> pt_regs \<Rightarrow> dentry" where
  "dentry_arg env regs =
     (if linux_version env \<ge> KERNEL_VERSION 5 12 0 then dx regs else si regs)"

definition krp_hook_rm ::
    "kenv \<Rightarrow> pt_regs \<Rightarrow> registry_entry list \<Rightarrow> kmem \<Rightarrow> (int \<times> kmem) option" where
  "krp_hook_rm env regs reg m = do {
     (pfd, m1) \<leftarrow> extract_path_from_dentry env (dentry_arg env regs) m;
     if pfd = None then Some (KRP_GO_AHEAD, m1)
     else let (absolute_path, m2) =
       resolve_path_alloc env pfd REFMON_FSUTILS_RESOLVE_LINKS m1 in
     case absolute_path of
       None \<Rightarrow> Some (KRP_GO_AHEAD, m2)
     | Some abs_path \<Rightarrow>
         let absolute_ino = extract_ino_no_from_path env abs_path in
         if absolute_ino = REFMON_NO_INO_NO then Some (KRP_GO_AHEAD, m2)
         else do {
           e \<leftarrow> is_eligible env reg \<lparr>path = absolute_path, ino_no = absolute_ino\<rparr>;
           Some (if e \<noteq> 0 then KRP_TO_TAILHOOK else KRP_GO_AHEAD, m2)
         }
   }"

definition krp_hook_mkdir ::
    "kenv \<Rightarrow> pt_regs \<Rightarrow> registry_entry list \<Rightarrow> kmem \<Rightarrow> (int \<times> kmem) option" where
  "krp_hook_mkdir env regs reg m = do {
     (pfd, m1) \<leftarrow> extract_path_from_dentry env (dentry_arg env regs) m;
     if pfd = None then Some (KRP_GO_AHEAD, m1)
     else let (absolute_path, m2) =
       resolve_path_alloc env pfd
         (REFMON_FSUTILS_RESOLVE_LINKS OR REFMON_FSUTILS_IGNORE_ABSOLUTE_PATHS) m1 in
     if absolute_path = None then Some (KRP_GO_AHEAD, m2)
     else do {
       e \<leftarrow> is_eligible env reg \<lparr>path = absolute_path, ino_no = REFMON_NO_INO_NO\<rparr>;
       Some (if e = 1 then KRP_TO_TAILHOOK else KRP_GO_AHEAD, m2)
     }
   }"

fun run_hook ::
    "hook \<Rightarrow> kenv \<Rightarrow> pt_regs \<Rightarrow> registry_entry list \<Rightarrow> kmem \<Rightarrow> (int \<times> kmem) option" where
  "run_hook Hook_open = krp_hook_open"
| "run_hook Hook_rm = krp_hook_rm"
| "run_hook Hook_mkdir = krp_hook_mkdir"

text \<open>
  A call of a probed function, as kprobes runs it. Both handlers run with preemption disabled. With
  the probe disabled, or with all its \<open>maxactive\<close> instances in use, the function runs alone;
  otherwise its entry handler decides whether the call is caught, that is, whether the return handler
  sees the function's return value \<open>rv\<close>. The result is what the caller of the function gets.
\<close>

definition run_entry :: "kenv \<Rightarrow> probe \<Rightarrow> pt_regs \<Rightarrow> ksys \<Rightarrow> (int \<times> ksys) option" where
  "run_entry env p regs s = do {
     (ret, m) \<leftarrow> run_hook (entry_handler (kretprobe_of p)) env regs (registry (the_inst s))
       (preempt_disable (mem s));
     Some (ret, s\<lparr>mem := preempt_enable m\<rparr>)
   }"

definition enter_call ::
    "kenv \<Rightarrow> probe \<Rightarrow> nat \<Rightarrow> pt_regs \<Rightarrow> ksys \<Rightarrow> (bool \<times> ksys) option" where
  "enter_call env p in_use regs s =
     (if \<not> probe_enabled s p \<or> maxactive (kretprobe_of p) \<le> in_use then Some (False, s)
      else do {
        (ret, s') \<leftarrow> run_entry env p regs s;
        Some (ret = 0, s')
      })"

definition leave_call :: "kenv \<Rightarrow> pt_regs \<Rightarrow> u64 \<Rightarrow> ksys \<Rightarrow> (u64 \<times> ksys) option" where
  "leave_call env regs rv s = do {
     (_, regs', s') \<leftarrow>
       krp_hook_tail env (regs\<lparr>ax := rv\<rparr>) (s\<lparr>mem := preempt_disable (mem s)\<rparr>);
     Some (ax regs', s'\<lparr>mem := preempt_enable (mem s')\<rparr>)
   }"

definition probed_call ::
    "kenv \<Rightarrow> probe \<Rightarrow> nat \<Rightarrow> pt_regs \<Rightarrow> u64 \<Rightarrow> ksys \<Rightarrow> (u64 \<times> ksys) option" where
  "probed_call env p in_use regs rv s = do {
     (caught, s') \<leftarrow> enter_call env p in_use regs s;
     if caught then leave_call env regs rv s' else Some (rv, s')
   }"

subsection \<open>The decisions\<close>

lemma word_less_4:
  assumes "w < (4 :: u32)"
  shows "w \<in> {0, 1, 2, 3}"
proof -
  have w: "w = of_nat (unat w)" by simp
  have "unat w < 4" using assms by (simp add: word_less_nat_alt)
  then consider "unat w = 0" | "unat w = 1" | "unat w = 2" | "unat w = 3" by linarith
  then show ?thesis by cases (use w in simp_all)
qed

lemma accmod_cases: "f AND 3 \<in> {0, 1, 2, 3 :: u32}"
proof (rule word_less_4)
  have "f AND 3 \<le> 3" by (rule word_and_le1)
  also have "(3 :: u32) < 4" by simp
  finally show "f AND 3 < 4" .
qed

lemma is_write_acc_iff:
  "is_write_acc env f \<longleftrightarrow> f_flags env f AND 3 = 1 \<or> f_flags env f AND 3 = 2"
  using accmod_cases [of "f_flags env f"] by (auto simp: is_write_acc_def get_accmods_def Let_def)

text \<open>Some entry protects the path; an empty path is never searched for.\<close>

definition denies :: "kenv \<Rightarrow> registry_entry list \<Rightarrow> string \<Rightarrow> u64 \<Rightarrow> bool" where
  "denies env reg p i \<longleftrightarrow> p \<noteq> '''' \<and> (\<exists>e\<in>set reg. protects env e p i)"

lemma is_eligible_denies:
  assumes "wf_entries reg"
  shows "is_eligible env reg \<lparr>path = Some p, ino_no = i\<rparr> = Some (if denies env reg p i then 1 else 0)"
proof (cases "p = ''''")
  case True
  then show ?thesis
    unfolding is_eligible_def eligible_criteria by (simp add: denies_def search_entry_def)
next
  case False
  with assms show ?thesis by (simp add: is_eligible_iff denies_def)
qed

text \<open>The path a handler looks up for a dentry, read from the freed buffer and resolved.\<close>

definition looked_up :: "kenv \<Rightarrow> dentry \<Rightarrow> u32 \<Rightarrow> cptr" where
  "looked_up env d flags = do {
     p \<leftarrow> dentry_path_raw env d;
     resolve_path env (Some (stale env p)) flags
   }"

fun hook_dentry :: "hook \<Rightarrow> kenv \<Rightarrow> pt_regs \<Rightarrow> dentry" where
  "hook_dentry Hook_open env regs = path_dentry env (di regs)"
| "hook_dentry Hook_rm env regs = dentry_arg env regs"
| "hook_dentry Hook_mkdir env regs = dentry_arg env regs"

text \<open>What each entry handler decides, without the allocator.\<close>

fun hook_denied :: "hook \<Rightarrow> kenv \<Rightarrow> registry_entry list \<Rightarrow> pt_regs \<Rightarrow> bool" where
  "hook_denied Hook_open env reg regs =
     (is_write_acc env (si regs) \<and>
      (case looked_up env (path_dentry env (di regs)) 1 of
         None \<Rightarrow> False
       | Some q \<Rightarrow> denies env reg q (extract_ino_no_from_path env q)))"
| "hook_denied Hook_rm env reg regs =
     (case looked_up env (dentry_arg env regs) 1 of
        None \<Rightarrow> False
      | Some q \<Rightarrow> extract_ino_no_from_path env q \<noteq> REFMON_NO_INO_NO \<and>
          denies env reg q (extract_ino_no_from_path env q))"
| "hook_denied Hook_mkdir env reg regs =
     (case looked_up env (dentry_arg env regs) 3 of
        None \<Rightarrow> False
      | Some q \<Rightarrow> denies env reg q REFMON_NO_INO_NO)"

text \<open>
  A handler run in two steps: the dentry's path, then its resolution. The rest is a function of
  the resolved path.
\<close>

fun hook_flags :: "hook \<Rightarrow> u32" where
  "hook_flags Hook_open = 1" | "hook_flags Hook_rm = 1" | "hook_flags Hook_mkdir = 3"

fun hook_verdict :: "hook \<Rightarrow> kenv \<Rightarrow> registry_entry list \<Rightarrow> pt_regs \<Rightarrow> cptr \<Rightarrow> bool" where
  "hook_verdict h env reg regs None = False"
| "hook_verdict Hook_open env reg regs (Some q) =
     (is_write_acc env (si regs) \<and> denies env reg q (extract_ino_no_from_path env q))"
| "hook_verdict Hook_rm env reg regs (Some q) =
     (extract_ino_no_from_path env q \<noteq> REFMON_NO_INO_NO \<and>
      denies env reg q (extract_ino_no_from_path env q))"
| "hook_verdict Hook_mkdir env reg regs (Some q) = denies env reg q REFMON_NO_INO_NO"

lemma hook_denied_verdict:
  "hook_denied h env reg regs =
     hook_verdict h env reg regs (looked_up env (hook_dentry h env regs) (hook_flags h))"
  by (cases h) (simp_all split: option.split)

lemma run_hook_steps:
  assumes "wf_entries reg"
  shows "run_hook h env regs reg m = do {
     (p, m1) \<leftarrow> extract_path_from_dentry env (hook_dentry h env regs) m;
     let (q, m2) = resolve_path_alloc env p (hook_flags h) m1;
     Some (if hook_verdict h env reg regs q then 0 else 1, m2)
   }"
  using assms
  by (cases h)
    (auto simp: krp_hook_open_def krp_hook_rm_def krp_hook_mkdir_def is_eligible_denies Let_def
      resolve_path_alloc_def [of _ None] split: option.split prod.split intro!: bind_option_cong)

lemma hook_verdict_sound:
  assumes "q = None \<or> q = q'" and "hook_verdict h env reg regs q"
  shows "hook_verdict h env reg regs q'"
  using assms by auto

text \<open>A handler that blocks has a reason, whatever the allocator does.\<close>

lemma run_hook_sound:
  assumes "wf_entries reg" and "run_hook h env regs reg m = Some (ret, m')"
  shows "preempt m' = preempt m" and "ret = 0 \<Longrightarrow> hook_denied h env reg regs" and "ret \<in> {0, 1}"
proof -
  obtain p m1 where 1: "extract_path_from_dentry env (hook_dentry h env regs) m = Some (p, m1)"
    using assms(2) unfolding run_hook_steps [OF assms(1)] by (auto simp: bind_eq_Some_conv)
  obtain q m2 where "resolve_path_alloc env p (hook_flags h) m1 = (q, m2)" by force
  moreover from this have "m2 = m'" and ret: "ret = (if hook_verdict h env reg regs q then 0 else 1)"
    using assms(2) 1 unfolding run_hook_steps [OF assms(1)] by auto
  ultimately have 2: "resolve_path_alloc env p (hook_flags h) m1 = (q, m')" by simp
  show "preempt m' = preempt m"
    using extract_path_mem(1) [OF 1] resolve_path_alloc_mem(1) [OF 2] by simp
  have "q = None \<or> q = looked_up env (hook_dentry h env regs) (hook_flags h)"
  proof (cases p)
    case None
    then show ?thesis using 2 by (simp add: resolve_path_alloc_def)
  next
    case (Some a)
    then obtain raw where "dentry_path_raw env (hook_dentry h env regs) = Some raw" "a = stale env raw"
      using extract_path_sound 1 by blast
    then show ?thesis using resolve_path_alloc_sound [OF 2] Some by (simp add: looked_up_def)
  qed
  then show "hook_denied h env reg regs" if "ret = 0"
    using that ret hook_verdict_sound hook_denied_verdict by (auto split: if_splits)
  show "ret \<in> {0, 1}" using ret by simp
qed

text \<open>With memory, it is exactly the decision.\<close>

lemma run_hook_no_oom:
  assumes "wf_entries reg" and "no_oom env"
    and "dentry_path_raw env (hook_dentry h env regs) = Some p"
  shows "\<exists>m'. run_hook h env regs reg m = Some (if hook_denied h env reg regs then 0 else 1, m') \<and>
    preempt m' = preempt m"
proof -
  obtain m1 where 1: "extract_path_from_dentry env (hook_dentry h env regs) m =
      Some (Some (stale env p), m1)"
    using extract_path_no_oom [OF assms(2,3)] by blast
  obtain q m2 where 2: "resolve_path_alloc env (Some (stale env p)) (hook_flags h) m1 = (q, m2)" by force
  have "q = looked_up env (hook_dentry h env regs) (hook_flags h)"
    using resolve_path_alloc_no_oom [OF assms(2) 2] assms(3) by (simp add: looked_up_def)
  then have "run_hook h env regs reg m = Some (if hook_denied h env reg regs then 0 else 1, m2)"
    unfolding run_hook_steps [OF assms(1)] by (simp add: 1 2 hook_denied_verdict)
  moreover have "preempt m2 = preempt m"
    using extract_path_mem(1) [OF 1] resolve_path_alloc_mem(1) [OF 2] by simp
  ultimately show ?thesis by blast
qed

text \<open>Without memory for the first buffer, every handler lets the call pass.\<close>

lemma run_hook_oom:
  assumes "wf_entries reg" and "\<not> kmalloc_ok env (allocs m)"
  shows "\<exists>m'. run_hook h env regs reg m = Some (1, m')"
  using assms(2) unfolding run_hook_steps [OF assms(1)]
  by (simp add: extract_path_from_dentry_def kmalloc_def resolve_path_alloc_def Let_def)

subsection \<open>The return handler\<close>

lemma krp_hook_tail_frame:
  assumes "krp_hook_tail env regs s = Some (ret, regs', s')"
  shows "ax regs' = minus_EACCES"
    and "\<exists>m ws. s' = s\<lparr>mem := m, works := works s @ ws\<rparr> \<and> preempt m = preempt (mem s)"
proof -
  obtain s1 r s2 where l: "spin_probing_lock s = Some s1"
    and h: "log_handler env s1 = Some (r, s2)" and s': "s' = spin_probing_unlock s2"
    and "regs' = regs_set_return_value regs minus_EACCES"
    using assms
    by (auto simp: krp_hook_tail_def regs_set_return_value_def bind_eq_Some_conv split: if_splits)
  then show "ax regs' = minus_EACCES" by (simp add: regs_set_return_value_def)
  obtain m ws where s2: "s2 = s1\<lparr>mem := m, works := works s1 @ ws\<rparr>" "preempt m = preempt (mem s1)"
    using log_handler_frame [OF h] by blast
  have "s' = s\<lparr>mem := preempt_enable m, works := works s @ ws\<rparr>"
    using l s' s2(1) by (cases s; cases "the_inst s") (auto simp: spin_defs split: if_splits)
  moreover have "preempt (preempt_enable m) = preempt (mem s)"
    using l s2(2) by (auto simp: spin_defs split: if_splits)
  ultimately show "\<exists>m ws. s' = s\<lparr>mem := m, works := works s @ ws\<rparr> \<and> preempt m = preempt (mem s)"
    by blast
qed

lemma krp_hook_tail_ok:
  assumes "no_oom env" and "exe_dentry env = Some d" and "dentry_path_raw env d = Some p"
    and "\<not> spinlock_probing (the_inst s)"
  shows "\<exists>m. krp_hook_tail env regs s = Some (0, regs\<lparr>ax := minus_EACCES\<rparr>,
    s\<lparr>mem := m, works := works s @
      [\<lparr>ld_tgid = tgid env, ld_tid = tid env, ld_uid = uid env, ld_euid = euid env,
        prog_path = stale env p\<rparr>]\<rparr>)"
proof -
  obtain s1 where l: "spin_probing_lock s = Some s1"
    using assms(4) by (simp add: spin_probing_lock_def)
  obtain m where h: "log_handler env s1 = Some (0, s1\<lparr>mem := m, works := works s1 @
      [\<lparr>ld_tgid = tgid env, ld_tid = tid env, ld_uid = uid env, ld_euid = euid env,
        prog_path = stale env p\<rparr>]\<rparr>)"
    using log_handler_ok [OF assms(1-3)] by blast
  have "spin_probing_unlock (s1\<lparr>mem := m, works := works s1 @ ws\<rparr>) =
      s\<lparr>mem := preempt_enable m, works := works s @ ws\<rparr>" for ws
    using l by (cases s; cases "the_inst s") (auto simp: spin_defs split: if_splits)
  then show ?thesis
    using l h by (auto simp: krp_hook_tail_def regs_set_return_value_def)
qed


subsection \<open>A probed call\<close>

lemma preempt_enable_disable [simp]: "preempt (preempt_disable m) = Suc (preempt m)"
  "preempt (preempt_enable m) = preempt m - 1"
  by (simp_all add: preempt_disable_def preempt_enable_def)

text \<open>What catching a call does and why a call is caught, whatever the kernel answers.\<close>

lemma enter_call_frame:
  assumes "wf_entries (registry (the_inst s))" and "enter_call env p in_use regs s = Some (caught, s')"
  shows "\<exists>m. s' = s\<lparr>mem := m\<rparr> \<and> preempt m = preempt (mem s)"
    and "caught \<Longrightarrow> probe_enabled s p \<and> in_use < 15 \<and>
      hook_denied (entry_handler (kretprobe_of p)) env (registry (the_inst s)) regs"
proof -
  let ?h = "entry_handler (kretprobe_of p)"
  have "(\<exists>m. s' = s\<lparr>mem := m\<rparr> \<and> preempt m = preempt (mem s)) \<and>
    (caught \<longrightarrow> probe_enabled s p \<and> in_use < 15 \<and> hook_denied ?h env (registry (the_inst s)) regs)"
  proof (cases "\<not> probe_enabled s p \<or> maxactive (kretprobe_of p) \<le> in_use")
    case True
    then have "s' = s\<lparr>mem := mem s\<rparr>" "\<not> caught" using assms(2) by (auto simp: enter_call_def)
    then show ?thesis by metis
  next
    case False
    then obtain ret m where 1: "run_hook ?h env regs (registry (the_inst s)) (preempt_disable (mem s)) =
        Some (ret, m)" "s' = s\<lparr>mem := preempt_enable m\<rparr>" "caught \<longleftrightarrow> ret = 0"
      using assms(2) by (auto simp: enter_call_def run_entry_def bind_eq_Some_conv)
    have "in_use < 15" using False by (cases p) auto
    then show ?thesis
      using run_hook_sound(1,2) [OF assms(1) 1(1)] 1(2,3) False by auto
  qed
  then show "\<exists>m. s' = s\<lparr>mem := m\<rparr> \<and> preempt m = preempt (mem s)"
    and "caught \<Longrightarrow> probe_enabled s p \<and> in_use < 15 \<and>
      hook_denied ?h env (registry (the_inst s)) regs" by blast+
qed

lemma leave_call_frame:
  assumes "leave_call env regs rv s = Some (r, s')"
  shows "r = minus_EACCES"
    and "\<exists>m ws. s' = s\<lparr>mem := m, works := works s @ ws\<rparr> \<and> preempt m = preempt (mem s)"
proof -
  obtain c regs' s1 where 1: "krp_hook_tail env (regs\<lparr>ax := rv\<rparr>)
      (s\<lparr>mem := preempt_disable (mem s)\<rparr>) = Some (c, regs', s1)"
    and r: "r = ax regs'" "s' = s1\<lparr>mem := preempt_enable (mem s1)\<rparr>"
    using assms by (auto simp: leave_call_def bind_eq_Some_conv)
  show "r = minus_EACCES" using krp_hook_tail_frame(1) [OF 1] r(1) by simp
  obtain m ws where "s1 = s\<lparr>mem := preempt_disable (mem s)\<rparr>
      \<lparr>mem := m, works := works (s\<lparr>mem := preempt_disable (mem s)\<rparr>) @ ws\<rparr>"
      "preempt m = preempt (mem (s\<lparr>mem := preempt_disable (mem s)\<rparr>))"
    using krp_hook_tail_frame(2) [OF 1] by blast
  then have "s' = s\<lparr>mem := preempt_enable m, works := works s @ ws\<rparr>"
    "preempt (preempt_enable m) = preempt (mem s)" using r(2) by simp_all
  then show "\<exists>m ws. s' = s\<lparr>mem := m, works := works s @ ws\<rparr> \<and> preempt m = preempt (mem s)" by blast
qed

text \<open>A whole call changes nothing but the bookkeeping and the works.\<close>

lemma probed_call_frame:
  assumes "wf_entries (registry (the_inst s))" and "probed_call env p in_use regs rv s = Some (r, s')"
  shows "\<exists>m ws. s' = s\<lparr>mem := m, works := works s @ ws\<rparr> \<and> preempt m = preempt (mem s)"
    and "r = rv \<and> works s' = works s \<or> r = minus_EACCES"
proof -
  obtain caught s1 where 1: "enter_call env p in_use regs s = Some (caught, s1)"
    and 2: "(if caught then leave_call env regs rv s1 else Some (rv, s1)) = Some (r, s')"
    using assms(2) by (auto simp: probed_call_def bind_eq_Some_conv)
  obtain m where m: "s1 = s\<lparr>mem := m\<rparr>" "preempt m = preempt (mem s)"
    using enter_call_frame(1) [OF assms(1) 1] by blast
  have *: "(\<exists>m ws. s' = s\<lparr>mem := m, works := works s @ ws\<rparr> \<and> preempt m = preempt (mem s)) \<and>
    (r = rv \<and> works s' = works s \<or> r = minus_EACCES)"
  proof (cases caught)
    case False
    then have "s' = s\<lparr>mem := m, works := works s @ []\<rparr>" "r = rv \<and> works s' = works s"
      using 2 m by auto
    with m(2) show ?thesis by blast
  next
    case True
    then have "leave_call env regs rv s1 = Some (r, s')" using 2 by simp
    from leave_call_frame [OF this] m show ?thesis by auto
  qed
  then show "\<exists>m ws. s' = s\<lparr>mem := m, works := works s @ ws\<rparr> \<and> preempt m = preempt (mem s)" by blast
  from * show "r = rv \<and> works s' = works s \<or> r = minus_EACCES" by blast
qed

text \<open>A call that is changed was one the registry denies, through a probe that was enabled.\<close>

lemma probed_call_changed:
  assumes "wf_entries (registry (the_inst s))" and "probed_call env p in_use regs rv s = Some (r, s')"
    and "r \<noteq> rv \<or> works s' \<noteq> works s"
  shows "r = minus_EACCES" and "probe_enabled s p" and "in_use < 15"
    and "hook_denied (entry_handler (kretprobe_of p)) env (registry (the_inst s)) regs"
proof -
  show "r = minus_EACCES" using probed_call_frame(2) [OF assms(1,2)] assms(3) by auto
  obtain caught s1 where 1: "enter_call env p in_use regs s = Some (caught, s1)"
    and 2: "(if caught then leave_call env regs rv s1 else Some (rv, s1)) = Some (r, s')"
    using assms(2) by (auto simp: probed_call_def bind_eq_Some_conv)
  have caught
    using 2 assms(3) enter_call_frame(1) [OF assms(1) 1] by (auto split: if_splits)
  from enter_call_frame(2) [OF assms(1) 1 this]
  show "probe_enabled s p" "in_use < 15"
    "hook_denied (entry_handler (kretprobe_of p)) env (registry (the_inst s)) regs" by blast+
qed

definition blocked_work :: "kenv \<Rightarrow> string \<Rightarrow> log_dataset" where
  "blocked_work env exe =
     \<lparr>ld_tgid = tgid env, ld_tid = tid env, ld_uid = uid env, ld_euid = euid env,
      prog_path = stale env exe\<rparr>"

text \<open>With a working kernel, the call is caught exactly when the registry denies it.\<close>

lemma enter_call_exact:
  assumes "wf_entries (registry (the_inst s))" and "no_oom env"
    and "dentry_path_raw env (hook_dentry (entry_handler (kretprobe_of p)) env regs) = Some q"
  shows "\<exists>m. enter_call env p in_use regs s =
    Some (probe_enabled s p \<and> in_use < 15 \<and>
        hook_denied (entry_handler (kretprobe_of p)) env (registry (the_inst s)) regs, s\<lparr>mem := m\<rparr>) \<and>
    preempt m = preempt (mem s)"
proof -
  let ?h = "entry_handler (kretprobe_of p)"
  have max: "maxactive (kretprobe_of p) = 15" by (cases p) simp_all
  obtain m where m: "run_hook ?h env regs (registry (the_inst s)) (preempt_disable (mem s)) =
      Some (if hook_denied ?h env (registry (the_inst s)) regs then 0 else 1, m)"
    "preempt m = Suc (preempt (mem s))"
    using run_hook_no_oom [OF assms] by fastforce
  show ?thesis
  proof (cases "probe_enabled s p \<and> in_use < 15")
    case True
    then have "enter_call env p in_use regs s =
        Some (hook_denied ?h env (registry (the_inst s)) regs, s\<lparr>mem := preempt_enable m\<rparr>)"
      using m(1) by (simp add: enter_call_def run_entry_def max)
    then show ?thesis using True m(2) by auto
  next
    case False
    then have "enter_call env p in_use regs s = Some (False, s\<lparr>mem := mem s\<rparr>)"
      by (auto simp: enter_call_def max)
    then show ?thesis using False by (intro exI [of _ "mem s"]) auto
  qed
qed

text \<open>Without memory for its first buffer a handler catches nothing.\<close>

lemma enter_call_oom:
  assumes "wf_entries (registry (the_inst s))" and "\<not> kmalloc_ok env (allocs (mem s))"
  shows "\<exists>m. enter_call env p in_use regs s = Some (False, s\<lparr>mem := m\<rparr>)"
proof -
  have "\<not> kmalloc_ok env (allocs (preempt_disable (mem s)))"
    using assms(2) by (simp add: preempt_disable_def)
  from run_hook_oom [OF assms(1) this] obtain m where
    "run_hook (entry_handler (kretprobe_of p)) env regs (registry (the_inst s))
      (preempt_disable (mem s)) = Some (1, m)" by blast
  then have "enter_call env p in_use regs s = Some (False, s\<lparr>mem := preempt_enable m\<rparr>) \<or>
      enter_call env p in_use regs s = Some (False, s\<lparr>mem := mem s\<rparr>)"
    by (simp add: enter_call_def run_entry_def)
  then show ?thesis by blast
qed

text \<open>A caught call is blocked and recorded.\<close>

lemma leave_call_ok:
  assumes "\<not> spinlock_probing (the_inst s)" and "no_oom env"
    and "exe_dentry env = Some d" and "dentry_path_raw env d = Some exe"
  shows "\<exists>m. leave_call env regs rv s =
    Some (minus_EACCES, s\<lparr>mem := m, works := works s @ [blocked_work env exe]\<rparr>)"
proof -
  let ?s = "s\<lparr>mem := preempt_disable (mem s)\<rparr>"
  obtain m where "krp_hook_tail env (regs\<lparr>ax := rv\<rparr>) ?s =
      Some (0, regs\<lparr>ax := rv\<rparr>\<lparr>ax := minus_EACCES\<rparr>,
        ?s\<lparr>mem := m, works := works ?s @ [blocked_work env exe]\<rparr>)"
    using krp_hook_tail_ok [OF assms(2-4), of ?s "regs\<lparr>ax := rv\<rparr>"] assms(1)
    by (auto simp: blocked_work_def)
  then show ?thesis by (intro exI [of _ "preempt_enable m"]) (simp add: leave_call_def)
qed

text \<open>
  A kernel thread has no executable: recording it is a crash. The worker that writes the log is one.
\<close>

lemma leave_call_kernel_thread:
  assumes "no_oom env" and "exe_dentry env = None"
  shows "leave_call env regs rv s = None"
proof -
  have "log_handler env t = None" for t
    using assms by (simp add: log_handler_def kmalloc_def Let_def)
  then show ?thesis
    by (simp add: leave_call_def krp_hook_tail_def regs_set_return_value_def bind_eq_None_conv)
qed

lemma probed_call_exact:
  assumes "wf_entries (registry (the_inst s))" and "probe_enabled s p" and "in_use < 15"
    and "\<not> spinlock_probing (the_inst s)" and "no_oom env"
    and "dentry_path_raw env (hook_dentry (entry_handler (kretprobe_of p)) env regs) = Some q"
    and "exe_dentry env = Some d" and "dentry_path_raw env d = Some exe"
  shows "\<exists>m. probed_call env p in_use regs rv s =
    (if hook_denied (entry_handler (kretprobe_of p)) env (registry (the_inst s)) regs
     then Some (minus_EACCES, s\<lparr>mem := m, works := works s @ [blocked_work env exe]\<rparr>)
     else Some (rv, s\<lparr>mem := m\<rparr>))"
proof -
  let ?denied = "hook_denied (entry_handler (kretprobe_of p)) env (registry (the_inst s)) regs"
  obtain m where m: "enter_call env p in_use regs s = Some (?denied, s\<lparr>mem := m\<rparr>)"
    using enter_call_exact [OF assms(1,5,6), of in_use] assms(2,3) by auto
  show ?thesis
  proof (cases ?denied)
    case False
    with m show ?thesis by (auto simp: probed_call_def)
  next
    case True
    obtain m' where "leave_call env regs rv (s\<lparr>mem := m\<rparr>) =
        Some (minus_EACCES, s\<lparr>mem := m'\<rparr>\<lparr>works := works s @ [blocked_work env exe]\<rparr>)"
      using leave_call_ok [of "s\<lparr>mem := m\<rparr>" env d exe regs rv] assms(4,5,7,8) by auto
    with m True show ?thesis by (auto simp: probed_call_def)
  qed
qed

text \<open>
  The arguments a decision depends on. The handler of \<open>security_path_mkdir\<close> and
  \<open>security_path_rmdir\<close> takes its dentry from \<open>dx\<close> from 5.12 on and never looks at \<open>si\<close>.
\<close>

lemma hook_mkdir_regs:
  "hook_denied Hook_mkdir env reg regs \<longleftrightarrow>
     (case looked_up env (if linux_version env \<ge> KERNEL_VERSION 5 12 0 then dx regs else si regs) 3 of
        None \<Rightarrow> False | Some q \<Rightarrow> denies env reg q REFMON_NO_INO_NO)"
  by (simp add: dentry_arg_def)

end
