(* ===== verification/Monitor.thy ===== *)
theory Monitor
  imports Module Hooks
begin

text \<open>
  The running module as a transition system: its entry points as events, one step for each run of
  one, with the kernel's side of the run as a parameter of the step. The interface \<open>run_invariant\<close>
  turns what loading establishes and every event keeps into a fact about all reachable states; it is
  met by the safety invariant, by the uniqueness of the registered paths, by the agreement of probes
  and state, and by the untouched system call table.
\<close>

subsection \<open>Events\<close>

datatype event =
    Set_state cptr
  | Reconf_add cptr cptr
  | Reconf_rm cptr cptr
  | Flush cptr
  | Probed_call probe nat pt_regs u64  \<comment> \<open>instances in use, registers, the function's value\<close>
  | Deferred log_dataset
  | Read_proc string nat int

datatype outcome = Returned int | Value u64 | Bytes int string int | Done

text \<open>A system call, a probed call, a deferred work or a read runs to its end in one step; a
  scheduled work is run once, in any order.\<close>

inductive step :: "kenv \<Rightarrow> ksys \<Rightarrow> event \<Rightarrow> outcome \<Rightarrow> ksys \<Rightarrow> bool" where
  set_state: "sys_set_state env u s = Some (r, s') \<Longrightarrow> step env s (Set_state u) (Returned r) s'"
| reconf_add: "sys_reconf_add env u w s = Some (r, s') \<Longrightarrow>
    step env s (Reconf_add u w) (Returned r) s'"
| reconf_rm: "sys_reconf_rm env u w s = Some (r, s') \<Longrightarrow> step env s (Reconf_rm u w) (Returned r) s'"
| flush: "sys_flush env w s = Some (r, s') \<Longrightarrow> step env s (Flush w) (Returned r) s'"
| probed: "probed_call env p n regs rv s = Some (v, s') \<Longrightarrow>
    step env s (Probed_call p n regs rv) (Value v) s'"
| deferred: "works s = ws @ w # ws' \<Longrightarrow> defer_work env w (s\<lparr>works := ws @ ws'\<rparr>) = Some s' \<Longrightarrow>
    step env s (Deferred w) Done s'"
| read_proc: "read_proc env n pos name s = Some ((r, out, pos'), s') \<Longrightarrow>
    step env s (Read_proc name n pos) (Bytes r out pos') s'"

inductive_cases set_stateE [elim]: "step env s (Set_state u) r s'"
inductive_cases reconf_addE [elim]: "step env s (Reconf_add u w) r s'"
inductive_cases reconf_rmE [elim]: "step env s (Reconf_rm u w) r s'"
inductive_cases flushE [elim]: "step env s (Flush w) r s'"
inductive_cases probedE [elim]: "step env s (Probed_call p n regs rv) r s'"
inductive_cases deferredE [elim]: "step env s (Deferred w) r s'"
inductive_cases read_procE [elim]: "step env s (Read_proc name n pos) r s'"

lemmas sys_calls = sys_set_state_def sys_reconf_add_def sys_reconf_rm_def sys_flush_def

text \<open>A load that succeeds, then events, in kernels of which \<open>W\<close> holds.\<close>

inductive reachable :: "(kenv \<Rightarrow> bool) \<Rightarrow> ksys \<Rightarrow> ksys \<Rightarrow> bool" for W s0 where
  loaded: "W env \<Longrightarrow> just_loaded s0 \<Longrightarrow> init_module env s0 = Some (0, s) \<Longrightarrow> reachable W s0 s"
| event: "reachable W s0 s \<Longrightarrow> W env \<Longrightarrow> step env s e r s' \<Longrightarrow> reachable W s0 s'"

lemma reachable_mono:
  assumes "reachable W s0 s" and "\<And>env. W env \<Longrightarrow> V env"
  shows "reachable V s0 s"
  using assms by (induction rule: reachable.induct) (auto intro: reachable.intros)

locale run_invariant =
  fixes W :: "kenv \<Rightarrow> bool" and I :: "ksys \<Rightarrow> ksys \<Rightarrow> bool"
  assumes init: "W env \<Longrightarrow> just_loaded s0 \<Longrightarrow> init_module env s0 = Some (0, s) \<Longrightarrow> I s0 s"
    and step: "W env \<Longrightarrow> I s0 s \<Longrightarrow> step env s e r s' \<Longrightarrow> I s0 s'"
begin

lemma always: "reachable W s0 s \<Longrightarrow> I s0 s"
  by (induction rule: reachable.induct) (auto intro: init step)

text \<open>It holds in the kernels of a stronger assumption, too.\<close>

lemma always_stronger: "reachable V s0 s \<Longrightarrow> (\<And>env. V env \<Longrightarrow> W env) \<Longrightarrow> I s0 s"
  using always reachable_mono by blast

end

subsection \<open>What each event may change\<close>

text \<open>A step that is no reconfiguration and no change of state.\<close>

lemma defer_work_frame:
  assumes "defer_work env w s = Some s'"
  shows "\<exists>m f. s' = s\<lparr>mem := m, log_file := f\<rparr> \<and> preempt m = preempt (mem s)"
proof -
  obtain h m1 where h: "hashgen_filecont env (prog_path w) (preempt_disable (mem s)) = Some (h, m1)"
    using assms by (auto simp: defer_work_def bind_eq_Some_conv)
  then have m1: "preempt m1 = Suc (preempt (mem s))"
    using hashgen_filecont_preempt [OF h] by (simp add: preempt_disable_def)
  obtain m f where "s' = s\<lparr>mem := m, log_file := f\<rparr>"
    "m = preempt_enable m1 \<or> m = kfree (preempt_enable m1)"
  proof (cases h)
    case None
    then have "s' = s\<lparr>mem := preempt_enable m1, log_file := log_file s\<rparr>"
      using assms h by (auto simp: defer_work_def)
    then show ?thesis using that by blast
  next
    case (Some d)
    then have "s' = s\<lparr>mem := kfree (preempt_enable m1), log_file := log_file s\<rparr> \<or>
        (\<exists>f. s' = s\<lparr>mem := kfree (preempt_enable m1), log_file := f\<rparr>)"
      using assms h by (auto simp: defer_work_def Let_def split: if_splits)
    then show ?thesis using that by blast
  qed
  then show ?thesis using m1 by (auto simp: preempt_enable_def mem_simps)
qed

lemma read_proc_frame:
  assumes "read_proc env n pos name s = Some (x, s')"
  shows "s' = s"
  using assms
  by (auto simp: read_proc_def Let_def bind_eq_Some_conv split: if_splits prod.splits)

lemmas call_frames = reconf_add.call_frame reconf_rm.call_frame reconf_flush.call_frame

lemma set_state_cases:
  assumes "sys_set_state env u s = Some (r, s')"
  shows "r \<noteq> 0 \<and> s' = s \<or>
    (\<exists>str st. r = 0 \<and> euid env = 0 \<and> u = Some str \<and> read_state str = Some st \<and>
       s' = s\<lparr>the_inst := (the_inst s)\<lparr>state := st\<rparr>,
         probe_enabled := probes_after env (is_on ((the_inst s)\<lparr>state := st\<rparr>)) s\<rparr>)"
proof -
  have "\<not> spinlock_inst (the_inst s)"
    using assms
    by (auto simp: sys_calls do_set_state_def spin_instance_lock_def split: if_splits)
  then show ?thesis
    using assms by (auto simp: sys_calls do_set_state_eq split: if_splits option.splits)
qed

text \<open>Every step: the fields that it may have changed.\<close>

lemma step_frame:
  assumes "step env s e r s'" and "wf_entries (registry (the_inst s))"
  shows "same_install s s'" and "preempt (mem s') = preempt (mem s)"
    and "password (the_inst s') = password (the_inst s)"
    and "spinlock_inst (the_inst s') = spinlock_inst (the_inst s)"
    and "spinlock_probing (the_inst s') = spinlock_probing (the_inst s)"
proof -
  have "same_install s s' \<and> preempt (mem s') = preempt (mem s) \<and>
    password (the_inst s') = password (the_inst s) \<and>
    spinlock_inst (the_inst s') = spinlock_inst (the_inst s) \<and>
    spinlock_probing (the_inst s') = spinlock_probing (the_inst s)"
    using assms(1)
  proof cases
    case (set_state u r)
    then show ?thesis by (auto dest!: set_state_cases simp: same_install_def)
  next
    case (reconf_add u w r)
    then have "reg_frame s s'" using call_frames(1) by (simp add: sys_calls)
    then show ?thesis using reconf_add by (auto simp: reg_frame_def same_install_def)
  next
    case (reconf_rm u w r)
    then have "reg_frame s s'" using call_frames(2) by (simp add: sys_calls)
    then show ?thesis using reconf_rm by (auto simp: reg_frame_def same_install_def)
  next
    case (flush w r)
    then have "reg_frame s s'" using call_frames(3) by (simp add: sys_calls)
    then show ?thesis using flush by (auto simp: reg_frame_def same_install_def)
  next
    case (probed p n regs rv v)
    then show ?thesis using probed_call_frame(1) [OF assms(2)]
      by (fastforce simp: same_install_def)
  next
    case (deferred ws w ws')
    then show ?thesis using defer_work_frame by (fastforce simp: same_install_def)
  next
    case (read_proc n pos name r out pos')
    then have "s' = s" using read_proc_frame by blast
    then show ?thesis by simp
  qed
  then show "same_install s s'" "preempt (mem s') = preempt (mem s)"
    "password (the_inst s') = password (the_inst s)"
    "spinlock_inst (the_inst s') = spinlock_inst (the_inst s)"
    "spinlock_probing (the_inst s') = spinlock_probing (the_inst s)" by blast+
qed

text \<open>What a step may do to the state and the registry, and who can make it do that.\<close>

lemma step_state:
  assumes "step env s e r s'" and "wf_entries (registry (the_inst s))"
    and "state (the_inst s') \<noteq> state (the_inst s) \<or> probe_enabled s' \<noteq> probe_enabled s"
  shows "\<exists>str st. e = Set_state (Some str) \<and> euid env = 0 \<and> read_state str = Some st \<and>
    s' = s\<lparr>the_inst := (the_inst s)\<lparr>state := st\<rparr>,
      probe_enabled := probes_after env (is_on ((the_inst s)\<lparr>state := st\<rparr>)) s\<rparr>"
  using assms(1)
proof cases
  case (set_state u r)
  then show ?thesis using set_state_cases assms(3) by blast
next
  case (reconf_add u w r)
  then have "reg_frame s s'" using call_frames(1) by (simp add: sys_calls)
  then show ?thesis using assms(3) by (auto simp: reg_frame_def)
next
  case (reconf_rm u w r)
  then have "reg_frame s s'" using call_frames(2) by (simp add: sys_calls)
  then show ?thesis using assms(3) by (auto simp: reg_frame_def)
next
  case (flush w r)
  then have "reg_frame s s'" using call_frames(3) by (simp add: sys_calls)
  then show ?thesis using assms(3) by (auto simp: reg_frame_def)
next
  case (probed p n regs rv v)
  then show ?thesis using probed_call_frame(1) [OF assms(2)] assms(3) by fastforce
next
  case (deferred ws w ws')
  then show ?thesis using defer_work_frame assms(3) by fastforce
next
  case (read_proc n pos name r out pos')
  then have "s' = s" using read_proc_frame by blast
  then show ?thesis using assms(3) by simp
qed

text \<open>The three calls that the registry may change in, as one.\<close>

fun reconf_password :: "event \<Rightarrow> cptr option" where
  "reconf_password (Reconf_add u w) = Some w"
| "reconf_password (Reconf_rm u w) = Some w"
| "reconf_password (Flush w) = Some w"
| "reconf_password _ = None"

lemma step_registry:
  assumes "step env s e r s'" and "wf_entries (registry (the_inst s))"
    and "registry (the_inst s') \<noteq> registry (the_inst s)"
    and "\<And>x. length (sha256 env x) = 32"
  shows "\<exists>input pw. reconf_password e = Some (Some input) \<and> euid env = 0 \<and> is_reconf (the_inst s) \<and>
    copy_from_user env input = Some pw \<and> password (the_inst s) = Some (digest_of env pw)"
  using assms(1)
proof cases
  case (set_state u r)
  then show ?thesis using set_state_cases assms(3) by fastforce
next
  case (reconf_add u w r)
  then show ?thesis using reconf_add.change_authorised [OF _ assms(3,4)] by (auto simp: sys_calls)
next
  case (reconf_rm u w r)
  then show ?thesis using reconf_rm.change_authorised [OF _ assms(3,4)] by (auto simp: sys_calls)
next
  case (flush w r)
  then show ?thesis using reconf_flush.change_authorised [OF _ assms(3,4)] by (auto simp: sys_calls)
next
  case (probed p n regs rv v)
  then show ?thesis using probed_call_frame(1) [OF assms(2)] assms(3) by fastforce
next
  case (deferred ws w ws')
  then show ?thesis using defer_work_frame assms(3) by fastforce
next
  case (read_proc n pos name r out pos')
  then have "s' = s" using read_proc_frame by blast
  then show ?thesis using assms(3) by simp
qed

text \<open>How the registry may change: one well-formed entry more, one entry less, or none left.\<close>

lemma step_reg_cases:
  assumes "step env s e r s'" and "wf_entries (registry (the_inst s))"
  obtains (same) "registry (the_inst s') = registry (the_inst s)"
  | (added) p rp q where "resolve_path env (Some p) 2 = Some rp"
      "extract_ino_no_from_path env p \<noteq> REFMON_NO_INO_NO"
      "extract_ino_no_from_path env q \<noteq> REFMON_NO_INO_NO"
      "registry (the_inst s') = registry (the_inst s) @ [new_entry env p rp q]"
  | (removed) node where "registry (the_inst s') = remove1 node (registry (the_inst s))"
  | (flushed) "registry (the_inst s') = []"
proof (cases "registry (the_inst s') = registry (the_inst s)")
  case False
  note changed = this
  from assms(1) show thesis
  proof cases
    case (set_state u r)
    then show thesis using set_state_cases changed by fastforce
  next
    case (reconf_add u w r)
    then obtain s2 s3 where *: "registry (the_inst s2) = registry (the_inst s)"
        "reconf_add_body u env s2 = Some (r, s3)" "registry (the_inst s') = registry (the_inst s3)"
      using reconf_add.call_registry [OF reconf_add(3) [unfolded sys_calls]] changed by blast
    then obtain p m where "add_file_inner env p (s2\<lparr>mem := m\<rparr>) = Some (r, s3)"
      using reconf_add_body_cases [OF *(2)] changed by auto
    then show thesis
      using add_file_inner_cases [of env p "s2\<lparr>mem := m\<rparr>" r s3] * changed added
      by (auto simp: new_entry_def)
  next
    case (reconf_rm u w r)
    then obtain s2 s3 where *: "registry (the_inst s2) = registry (the_inst s)"
        "reconf_rm_body u env s2 = Some (r, s3)" "registry (the_inst s') = registry (the_inst s3)"
      using reconf_rm.call_registry [OF reconf_rm(3) [unfolded sys_calls]] changed by blast
    then show thesis using reconf_rm_body_cases [OF *(2)] changed removed by auto
  next
    case (flush w r)
    then obtain s2 s3 where *: "registry (the_inst s2) = registry (the_inst s)"
        "flush_body env s2 = Some (r, s3)" "registry (the_inst s') = registry (the_inst s3)"
      using reconf_flush.call_registry [OF flush(3) [unfolded sys_calls]] changed by blast
    then show thesis using flushed by (auto simp: flush_body_eq)
  next
    case (probed p n regs rv v)
    then show thesis using probed_call_frame(1) [OF assms(2)] changed by fastforce
  next
    case (deferred ws w ws')
    then show thesis using defer_work_frame changed by fastforce
  next
    case (read_proc n pos name r out pos')
    then have "s' = s" using read_proc_frame by blast
    then show thesis using changed by simp
  qed
qed (rule same)

lemma step_wf:
  assumes "step env s e r s'" and "wf_entries (registry (the_inst s))" and "pwd_absolute env"
  shows "wf_entries (registry (the_inst s'))"
  using assms(1,2)
proof (cases rule: step_reg_cases)
  case (added p rp q)
  then show ?thesis using assms(2) wf_new_entry(1) [OF assms(3)] by auto
next
  case (removed node)
  then show ?thesis using assms(2) set_remove1_subset by fastforce
qed (use assms(2) in simp_all)

subsection \<open>The safety invariant\<close>

text \<open>One hash function, a working directory with an absolute path, kprobes that answer as documented.\<close>

definition world :: "(string \<Rightarrow> u8 list) \<Rightarrow> kenv \<Rightarrow> bool" where
  "world h env \<longleftrightarrow> sha256 env = h \<and> (\<forall>x. length (h x) = 32) \<and> pwd_absolute env \<and> kprobes_ok env"

definition monitor_inv :: "(string \<Rightarrow> u8 list) \<Rightarrow> ksys \<Rightarrow> bool" where
  "monitor_inv h s \<longleftrightarrow>
     is_enumerator (state (the_inst s)) \<and> wf_entries (registry (the_inst s)) \<and>
     password (the_inst s) = Some (hex_string (h REFMON_DEFAULT_PASSWORD)) \<and>
     \<not> spinlock_inst (the_inst s) \<and> \<not> spinlock_probing (the_inst s) \<and> preempt (mem s) = 0 \<and>
     (\<forall>p. probe_registered s p)"

lemma read_state_enumerator: "read_state str = Some st \<Longrightarrow> is_enumerator st"
  using state_name.enc_dec by blast

lemma world_load:
  assumes "world h env" and "just_loaded s0" and "init_module env s0 = Some (0, s)"
  obtains slots ni m where "unused_slots s0 slots" "\<And>k. k \<in> set slots \<Longrightarrow> sct s0 k = ni"
    "preempt m = 0" "s = ready_state env slots ni m s0"
proof -
  have "kprobes_ok env" "\<And>x. length (sha256 env x) = 32" using assms(1) by (auto simp: world_def)
  from assms(3,2) this show thesis
    by (cases rule: init_module_cases) (use that in auto)
qed

interpretation safety: run_invariant "world h" "\<lambda>_. monitor_inv h" for h
proof unfold_locales
  fix env s0 s assume w: "world h env" "just_loaded s0" "init_module env s0 = Some (0, s)"
  then obtain slots ni m where "preempt m = 0" "s = ready_state env slots ni m s0"
    by (rule world_load)
  then show "monitor_inv h s"
    using w(1,2) by (simp add: monitor_inv_def just_loaded_def is_enumerator_def digest_of_def world_def)
next
  fix env s0 s e r s' assume w: "world h env" and i: "monitor_inv h s" and st: "step env s e r s'"
  note inv = i [unfolded monitor_inv_def]
  have wf: "wf_entries (registry (the_inst s))" using inv by blast
  note frame = step_frame [OF st wf]
  have "is_enumerator (state (the_inst s'))"
    using step_state [OF st wf] inv read_state_enumerator by fastforce
  moreover have "wf_entries (registry (the_inst s'))"
    using step_wf [OF st wf] w by (simp add: world_def)
  ultimately show "monitor_inv h s'"
    using inv frame by (simp add: monitor_inv_def same_install_def)
qed


subsection \<open>Further invariants\<close>

text \<open>With a working kernel no registered path occurs twice.\<close>

lemma step_unique:
  assumes "world h env" and "calm env" and "monitor_inv h s" and "reg_inv (registry (the_inst s))"
    and st: "step env s e r s'"
  shows "reg_inv (registry (the_inst s'))"
proof (cases "registry (the_inst s') = registry (the_inst s)")
  case True
  with assms(4) show ?thesis by simp
next
  case False
  note inv = assms(3) [unfolded monitor_inv_def]
  have wf: "wf_entries (registry (the_inst s))" using inv by blast
  obtain input where pw: "reconf_password e = Some (Some input)"
    using step_registry [OF st wf False calmD(5) [OF assms(2)]] by blast
  have side: "password (the_inst s) \<noteq> None" "\<not> spinlock_inst (the_inst s)" using inv by auto
  from st show ?thesis
  proof cases
    case (reconf_add u w r)
    show ?thesis
    proof (cases u)
      case None
      obtain s2 s3 where "reconf_add_body u env s2 = Some (r, s3)"
        using reconf_add.call_registry [OF reconf_add(3) [unfolded sys_calls]] False by blast
      then show ?thesis by (simp add: reconf_add_body_def sanitize_user_input_alloc_def None)
    next
      case (Some p)
      then have "w = Some input" using pw reconf_add by simp
      then show ?thesis
        using do_reconf_add_outcome [OF assms(2) wf side, of p input] reconf_add(3) Some assms(4)
          add_spec_inv [OF calmD(4) [OF assms(2)] assms(4)]
        by (auto simp: sys_calls reg_outcome_def split: if_splits)
    qed
  next
    case (reconf_rm u w r)
    obtain s2 s3 where "registry (the_inst s2) = registry (the_inst s)"
        "reconf_rm_body u env s2 = Some (r, s3)" "registry (the_inst s') = registry (the_inst s3)"
      using reconf_rm.call_registry [OF reconf_rm(3) [unfolded sys_calls]] False by blast
    then obtain node where "registry (the_inst s') = remove1 node (registry (the_inst s))"
      using reconf_rm_body_cases [of u env s2 r s3] False by auto
    then show ?thesis
      using assms(4) distinct_keys_remove1 [of entry_key] set_remove1_subset
      by (fastforce simp: reg_inv_def)
  next
    case (flush w r)
    then show ?thesis
      using reconf_flush.call_registry [OF flush(3) [unfolded sys_calls]] False
      by (auto simp: flush_body_eq reg_inv_def)
  qed (use pw in simp_all)
qed

interpretation unique: run_invariant "\<lambda>env. world h env \<and> calm env"
  "\<lambda>_ s. monitor_inv h s \<and> reg_inv (registry (the_inst s))" for h
proof unfold_locales
  fix env s0 s assume w: "world h env \<and> calm env" "just_loaded s0" "init_module env s0 = Some (0, s)"
  then obtain slots ni m where "s = ready_state env slots ni m s0" using world_load by blast
  then have "registry (the_inst s) = []" by simp
  then show "monitor_inv h s \<and> reg_inv (registry (the_inst s))"
    using safety.init [of h env s0 s] w by (simp add: reg_inv_def)
next
  fix env s0 s e r s'
  assume "world h env \<and> calm env" "monitor_inv h s \<and> reg_inv (registry (the_inst s))" "step env s e r s'"
  then show "monitor_inv h s' \<and> reg_inv (registry (the_inst s'))"
    using safety.step step_unique by blast
qed

text \<open>When the kernel arms probes as asked, they are enabled exactly while the monitor is on.\<close>

interpretation probes: run_invariant "\<lambda>env. world h env \<and> arming_ok env"
  "\<lambda>_ s. monitor_inv h s \<and> (\<forall>p. probe_enabled s p \<longleftrightarrow> is_on (the_inst s))" for h
proof unfold_locales
  fix env s0 s assume w: "world h env \<and> arming_ok env" "just_loaded s0" "init_module env s0 = Some (0, s)"
  then obtain slots ni m where "s = ready_state env slots ni m s0" using world_load by blast
  then have "\<forall>p. probe_enabled s p \<longleftrightarrow> is_on (the_inst s)" by (simp add: instance_tests)
  then show "monitor_inv h s \<and> (\<forall>p. probe_enabled s p \<longleftrightarrow> is_on (the_inst s))"
    using safety.init w by blast
next
  fix env s0 s e r s'
  assume w: "world h env \<and> arming_ok env" and st: "step env s e r s'"
    and i: "monitor_inv h s \<and> (\<forall>p. probe_enabled s p \<longleftrightarrow> is_on (the_inst s))"
  then have wf: "wf_entries (registry (the_inst s))" and reg: "\<forall>p. probe_registered s p"
    by (simp_all add: monitor_inv_def)
  have "probe_enabled s' p \<longleftrightarrow> is_on (the_inst s')" for p
  proof (cases "state (the_inst s') = state (the_inst s) \<and> probe_enabled s' = probe_enabled s")
    case True
    then show ?thesis using i by (simp add: instance_tests)
  next
    case False
    then show ?thesis
      using step_state [OF st wf] probes_after_ok [of env s] w reg by auto
  qed
  then show "monitor_inv h s' \<and> (\<forall>p. probe_enabled s' p \<longleftrightarrow> is_on (the_inst s'))"
    using safety.step w i st by blast
qed

text \<open>The installation stays as loading left it.\<close>

definition installed_in :: "ksys \<Rightarrow> ksys \<Rightarrow> bool" where
  "installed_in s0 s \<longleftrightarrow> just_loaded s0 \<and> (\<exists>env slots ni m. unused_slots s0 slots \<and>
     (\<forall>k\<in>set slots. sct s0 k = ni) \<and> same_install (ready_state env slots ni m s0) s)"

interpretation install: run_invariant "world h"
  "\<lambda>s0 s. monitor_inv h s \<and> installed_in s0 s" for h
proof unfold_locales
  fix env s0 s assume w: "world h env" "just_loaded s0" "init_module env s0 = Some (0, s)"
  then obtain slots ni m where "unused_slots s0 slots" "\<And>k. k \<in> set slots \<Longrightarrow> sct s0 k = ni"
      "preempt m = 0" "s = ready_state env slots ni m s0"
    by (rule world_load) blast
  then have "installed_in s0 s" using w(2) same_install_refl unfolding installed_in_def by blast
  then show "monitor_inv h s \<and> installed_in s0 s" using safety.init w by blast
next
  fix env s0 s e r s'
  assume w: "world h env" and i: "monitor_inv h s \<and> installed_in s0 s" and st: "step env s e r s'"
  then have "wf_entries (registry (the_inst s))" by (simp add: monitor_inv_def)
  then have "same_install s s'" using step_frame(1) [OF st] by blast
  then have "installed_in s0 s'"
    using i same_install_trans unfolding installed_in_def by blast
  then show "monitor_inv h s' \<and> installed_in s0 s'" using safety.step w i st by blast
qed

end
