(* ===== verification/Refinement.thy ===== *)
theory Refinement
  imports Monitor
begin

text \<open>
  What the monitor promises, without its data structures: a state and a table of entries by
  registered path. \<open>spec_call\<close> is a system call on it; \<open>abs_monitor\<close> forgets the rest of the
  module. With a working kernel the handlers compute exactly this, and the probes' decision is a
  question to the table.
\<close>

record spec_monitor =
  sp_state :: refmon_state
  sp_table :: "string \<rightharpoonup> registry_entry"

definition abs_monitor :: "ksys \<Rightarrow> spec_monitor" where
  "abs_monitor s =
     \<lparr>sp_state = state (the_inst s), sp_table = lookup_reg (registry (the_inst s))\<rparr>"

subsection \<open>The specification of the calls\<close>

text \<open>Who may reconfigure: root, in a reconfigurable state, with the password.\<close>

definition spec_verdict :: "kenv \<Rightarrow> string \<Rightarrow> spec_monitor \<Rightarrow> int" where
  "spec_verdict env w a =
     (if euid env \<noteq> 0 then - EACCES
      else if sp_state a \<notin> {REC_OFF, REC_ON} then - EPERM
      else if w = '''' then - EINVAL
      else if sha256 env w \<noteq> sha256 env REFMON_DEFAULT_PASSWORD then - EACCES
      else 0)"

definition spec_add :: "kenv \<Rightarrow> string \<Rightarrow> (string \<rightharpoonup> registry_entry) \<Rightarrow> int \<times> (string \<rightharpoonup> registry_entry)" where
  "spec_add env p t =
     (case resolve_path env (Some p) 2 of
        None \<Rightarrow> (- EINVAL, t)
      | Some rp \<Rightarrow>
          if rp \<in> dom t then (- EEXIST, t)
          else case resolve_path env (Some p) 3 of
            None \<Rightarrow> (- EINVAL, t)
          | Some q \<Rightarrow>
              if REFMON_NO_INO_NO \<in> {extract_ino_no_from_path env p, extract_ino_no_from_path env q}
              then (- EINVAL, t)
              else (0, t(rp \<mapsto> new_entry env p rp q)))"

definition spec_rm :: "kenv \<Rightarrow> string \<Rightarrow> (string \<rightharpoonup> registry_entry) \<Rightarrow> int \<times> (string \<rightharpoonup> registry_entry)" where
  "spec_rm env p t =
     (case resolve_path env (Some p) 2 of
        None \<Rightarrow> (- ENOENT, t)
      | Some rp \<Rightarrow> if rp \<in> dom t then (0, t(rp := None)) else (- ENOENT, t))"

definition spec_guarded ::
    "kenv \<Rightarrow> string \<Rightarrow> int \<times> (string \<rightharpoonup> registry_entry) \<Rightarrow> spec_monitor \<Rightarrow> int \<times> spec_monitor" where
  "spec_guarded env w out a =
     (if spec_verdict env w a \<noteq> 0 then (spec_verdict env w a, a)
      else (fst out, a\<lparr>sp_table := snd out\<rparr>))"

fun spec_call :: "kenv \<Rightarrow> event \<Rightarrow> spec_monitor \<Rightarrow> (int \<times> spec_monitor) option" where
  "spec_call env (Set_state (Some str)) a =
     Some (if euid env \<noteq> 0 then (- EACCES, a)
           else case read_state str of
             None \<Rightarrow> (- EINVAL, a)
           | Some st \<Rightarrow> (0, a\<lparr>sp_state := st\<rparr>))"
| "spec_call env (Reconf_add (Some p) (Some w)) a =
     Some (spec_guarded env w
       (if p = '''' then (- EINVAL, sp_table a) else spec_add env p (sp_table a)) a)"
| "spec_call env (Reconf_rm (Some p) (Some w)) a =
     Some (spec_guarded env w
       (if p = '''' then (- EINVAL, sp_table a) else spec_rm env p (sp_table a)) a)"
| "spec_call env (Flush (Some w)) a = Some (spec_guarded env w (0, Map.empty) a)"
| "spec_call env _ a = None"

subsection \<open>The tables and the lists\<close>

lemma spec_add_abs:
  assumes "pwd_absolute env" and "reg_inv reg"
  shows "spec_add env p (lookup_reg reg) = map_prod id lookup_reg (add_spec env p reg)"
proof -
  have "lookup_reg (reg @ [new_entry env p rp q]) = (lookup_reg reg)(rp \<mapsto> new_entry env p rp q)"
    if "resolve_path env (Some p) 2 = Some rp" "lookup_reg reg rp = None"
      "extract_ino_no_from_path env p \<noteq> REFMON_NO_INO_NO"
      "extract_ino_no_from_path env q \<noteq> REFMON_NO_INO_NO" for rp q
    using registry.look_add [OF assms(2), of "new_entry env p rp q"]
      wf_new_entry [OF assms(1) that(1,3,4)] that(2) by simp
  then show ?thesis
    by (auto simp: spec_add_def add_spec_def domIff split: option.split)
qed

lemma spec_rm_abs:
  assumes "reg_inv reg"
  shows "spec_rm env p (lookup_reg reg) = map_prod id lookup_reg (rm_spec env p reg)"
  using registry.look_del [OF assms]
  by (auto simp: spec_rm_def rm_spec_def domIff split: option.split)

lemma spec_verdict_abs:
  assumes "monitor_inv h s" and "sha256 env = h"
  shows "spec_verdict env w (abs_monitor s) = safety_verdict env w (the_inst s)"
  using assms
  by (auto simp: spec_verdict_def safety_verdict_def abs_monitor_def monitor_inv_def is_reconf_def
      digest_of_def)

text \<open>An outcome on the list is an outcome on the table.\<close>

lemma reg_outcome_abs:
  assumes "reg_outcome (Some (r, s')) s out"
  shows "r = fst out" and "abs_monitor s' = (abs_monitor s)\<lparr>sp_table := lookup_reg (snd out)\<rparr>"
proof -
  have *: "r = fst out" "registry (the_inst s') = snd out" "reg_frame s s'"
    using assms by (auto simp: reg_outcome_def)
  then show "r = fst out" by simp
  show "abs_monitor s' = (abs_monitor s)\<lparr>sp_table := lookup_reg (snd out)\<rparr>"
    using * reg_frame_fields(1) [OF *(3)] by (simp add: abs_monitor_def)
qed

lemma spec_guarded_abs:
  assumes "monitor_inv h s" and "sha256 env = h"
    and "reg_outcome (Some (r, s')) s
      (if safety_verdict env w (the_inst s) \<noteq> 0
       then (safety_verdict env w (the_inst s), registry (the_inst s)) else out)"
    and "out' = map_prod id lookup_reg out"
  shows "spec_guarded env w out' (abs_monitor s) = (r, abs_monitor s')"
proof -
  have "(abs_monitor s)\<lparr>sp_table := lookup_reg (registry (the_inst s))\<rparr> = abs_monitor s"
    by (simp add: abs_monitor_def)
  then show ?thesis
    using reg_outcome_abs [OF assms(3)] assms(4) spec_verdict_abs [OF assms(1,2)]
    by (auto simp: spec_guarded_def)
qed

subsection \<open>The handlers implement the specification\<close>

lemma lookup_reg_Nil: "lookup_reg [] = Map.empty"
  by (simp add: lookup_reg_def fun_eq_iff)

lemma step_spec:
  assumes "world h env" and "calm env" and "monitor_inv h s" and "reg_inv (registry (the_inst s))"
    and "step env s e (Returned r) s'" and "spec_call env e (abs_monitor s) = Some out"
  shows "out = (r, abs_monitor s')"
proof -
  note inv = assms(3) [unfolded monitor_inv_def]
  have wf: "wf_entries (registry (the_inst s))" using inv by blast
  have side: "password (the_inst s) \<noteq> None" "\<not> spinlock_inst (the_inst s)" using inv by auto
  have sha: "sha256 env = h" using assms(1) by (simp add: world_def)
  have table: "sp_table (abs_monitor s) = lookup_reg (registry (the_inst s))"
    by (simp add: abs_monitor_def)
  from assms(5) show ?thesis
  proof cases
    case (set_state u)
    then obtain str where "u = Some str" using assms(6) by (cases u) auto
    then show ?thesis
      using set_state(2) assms(6) side(2) set_state(1)
      by (auto simp: sys_calls do_set_state_eq abs_monitor_def split: if_splits option.splits)
  next
    case (reconf_add u w)
    then obtain p v where uw: "u = Some p" "w = Some v" using assms(6) by (cases u; cases w) auto
    then have "reg_outcome (Some (r, s')) s
      (if safety_verdict env v (the_inst s) \<noteq> 0
       then (safety_verdict env v (the_inst s), registry (the_inst s))
       else if p = '''' then (- EINVAL, registry (the_inst s))
       else add_spec env p (registry (the_inst s)))"
      using do_reconf_add_outcome [OF assms(2) wf side, of p v] reconf_add(2) by (simp add: sys_calls)
    then have "spec_guarded env v (if p = '''' then (- EINVAL, sp_table (abs_monitor s))
        else spec_add env p (sp_table (abs_monitor s))) (abs_monitor s) = (r, abs_monitor s')"
      by (rule spec_guarded_abs [OF assms(3) sha])
        (simp add: table spec_add_abs [OF calmD(4) [OF assms(2)] assms(4)])
    then show ?thesis using assms(6) uw reconf_add(1) by simp
  next
    case (reconf_rm u w)
    then obtain p v where uw: "u = Some p" "w = Some v" using assms(6) by (cases u; cases w) auto
    then have "reg_outcome (Some (r, s')) s
      (if safety_verdict env v (the_inst s) \<noteq> 0
       then (safety_verdict env v (the_inst s), registry (the_inst s))
       else if p = '''' then (- EINVAL, registry (the_inst s))
       else rm_spec env p (registry (the_inst s)))"
      using do_reconf_rm_outcome [OF assms(2) wf side, of p v] reconf_rm(2) by (simp add: sys_calls)
    then have "spec_guarded env v (if p = '''' then (- EINVAL, sp_table (abs_monitor s))
        else spec_rm env p (sp_table (abs_monitor s))) (abs_monitor s) = (r, abs_monitor s')"
      by (rule spec_guarded_abs [OF assms(3) sha]) (simp add: table spec_rm_abs [OF assms(4)])
    then show ?thesis using assms(6) uw reconf_rm(1) by simp
  next
    case (flush w)
    then obtain v where w: "w = Some v" using assms(6) by (cases w) auto
    then have "reg_outcome (Some (r, s')) s
      (if safety_verdict env v (the_inst s) \<noteq> 0
       then (safety_verdict env v (the_inst s), registry (the_inst s)) else (0, []))"
      using do_flush_registry_outcome [OF assms(2) side, of v] flush(2) by (simp add: sys_calls)
    then have "spec_guarded env v (0, Map.empty) (abs_monitor s) = (r, abs_monitor s')"
      by (rule spec_guarded_abs [OF assms(3) sha]) (simp add: lookup_reg_Nil)
    then show ?thesis using assms(6) w flush(1) by simp
  qed
qed


text \<open>A call that is specified returns.\<close>

lemma step_total:
  assumes "world h env" and "calm env" and "monitor_inv h s" and "reg_inv (registry (the_inst s))"
    and "spec_call env e (abs_monitor s) = Some out"
  shows "\<exists>s'. step env s e (Returned (fst out)) s' \<and> abs_monitor s' = snd out"
proof -
  note inv = assms(3) [unfolded monitor_inv_def]
  have wf: "wf_entries (registry (the_inst s))" using inv by blast
  have side: "password (the_inst s) \<noteq> None" "\<not> spinlock_inst (the_inst s)" using inv by auto
  have "\<exists>r s'. step env s e (Returned r) s'"
  proof (cases "(env, e, abs_monitor s)" rule: spec_call.cases)
    case (1 env' str a)
    have "\<exists>r s'. do_set_state env (Some str) s = Some (r, s')"
      using do_set_state_eq [OF side(2), of env "Some str"] by (cases "read_state str") auto
    with 1 show ?thesis by (metis Pair_inject step.set_state sys_set_state_def)
  next
    case (2 env' p w a)
    have "\<exists>r s'. do_reconf_add env (Some p) (Some w) s = Some (r, s')"
      using do_reconf_add_outcome [OF assms(2) wf side, of p w] unfolding reg_outcome_def by blast
    with 2 show ?thesis by (metis Pair_inject step.reconf_add sys_reconf_add_def)
  next
    case (3 env' p w a)
    have "\<exists>r s'. do_reconf_rm env (Some p) (Some w) s = Some (r, s')"
      using do_reconf_rm_outcome [OF assms(2) wf side, of p w] unfolding reg_outcome_def by blast
    with 3 show ?thesis by (metis Pair_inject step.reconf_rm sys_reconf_rm_def)
  next
    case (4 env' w a)
    have "\<exists>r s'. do_flush_registry env (Some w) s = Some (r, s')"
      using do_flush_registry_outcome [OF assms(2) side, of w] unfolding reg_outcome_def by blast
    with 4 show ?thesis by (metis Pair_inject step.flush sys_flush_def)
  qed (use assms(5) in auto)
  then show ?thesis using step_spec [OF assms(1-4) _ assms(5)] by fastforce
qed

subsection \<open>The decision as a question to the table\<close>

definition spec_denies :: "kenv \<Rightarrow> (string \<rightharpoonup> registry_entry) \<Rightarrow> string \<Rightarrow> u64 \<Rightarrow> bool" where
  "spec_denies env t p i \<longleftrightarrow> p \<noteq> '''' \<and> (\<exists>k e. t k = Some e \<and> protects env e p i)"

lemma lookup_reg_ran:
  assumes "reg_inv reg"
  shows "(\<exists>k. lookup_reg reg k = Some e) \<longleftrightarrow> e \<in> set reg"
proof
  assume "e \<in> set reg"
  then have "map_of (map (\<lambda>e. (entry_key e, e)) reg) (entry_key e) = Some e"
    using assms by (intro map_of_is_SomeI) (auto simp: reg_inv_def comp_def)
  then show "\<exists>k. lookup_reg reg k = Some e"
    using assms by (auto simp: lookup_reg_map_of reg_inv_def)
qed (auto dest: lookup_reg_Some)

lemma denies_spec: "reg_inv reg \<Longrightarrow> denies env reg p i \<longleftrightarrow> spec_denies env (lookup_reg reg) p i"
  unfolding denies_def spec_denies_def using lookup_reg_ran by blast

definition spec_blocks :: "hook \<Rightarrow> kenv \<Rightarrow> spec_monitor \<Rightarrow> pt_regs \<Rightarrow> bool" where
  "spec_blocks h env a regs \<longleftrightarrow> sp_state a \<in> {ON, REC_ON} \<and>
     (case looked_up env (hook_dentry h env regs) (hook_flags h) of
        None \<Rightarrow> False
      | Some q \<Rightarrow>
          (case h of
             Hook_open \<Rightarrow> f_flags env (si regs) AND 3 \<in> {1, 2} \<and>
               spec_denies env (sp_table a) q (extract_ino_no_from_path env q)
           | Hook_rm \<Rightarrow> extract_ino_no_from_path env q \<noteq> REFMON_NO_INO_NO \<and>
               spec_denies env (sp_table a) q (extract_ino_no_from_path env q)
           | Hook_mkdir \<Rightarrow> spec_denies env (sp_table a) q REFMON_NO_INO_NO))"

lemma is_on_iff: "is_enumerator (state i) \<Longrightarrow> is_on i \<longleftrightarrow> state i \<in> {ON, REC_ON}"
  by (auto simp: is_enumerator_def instance_tests)

lemma spec_blocks_abs:
  assumes "monitor_inv hs s" and "reg_inv (registry (the_inst s))"
  shows "spec_blocks h env (abs_monitor s) regs \<longleftrightarrow>
    is_on (the_inst s) \<and> hook_denied h env (registry (the_inst s)) regs"
proof -
  have "is_on (the_inst s) \<longleftrightarrow> state (the_inst s) \<in> {ON, REC_ON}"
    using assms(1) by (intro is_on_iff) (simp add: monitor_inv_def)
  then show ?thesis
    using denies_spec [OF assms(2)]
    by (cases h) (auto simp: spec_blocks_def hook_denied_verdict abs_monitor_def is_write_acc_iff
        split: option.split)
qed

subsection \<open>Protection\<close>

text \<open>A successful registration leaves an entry with the path it resolved to.\<close>

lemma add_success_entry:
  assumes "sys_reconf_add env u w s = Some (0, s')"
  shows "\<exists>input p rp q. u = Some input \<and> copy_from_user env input = Some p \<and>
    resolve_path env (Some p) 2 = Some rp \<and> resolve_path env (Some p) 3 = Some q \<and>
    registry (the_inst s') = registry (the_inst s) @ [new_entry env p rp q]"
proof -
  have call: "do_reconf_add env u w s = Some (0, s')" using assms by (simp add: sys_calls)
  from call show ?thesis
  proof (cases rule: reconf_add.call_cases)
    case (granted s1 m s3)
    have reg: "registry (the_inst s1) = registry (the_inst s)" using lock_fields(1) [OF granted(1)] .
    obtain input p m' where in_p: "u = Some input" "copy_from_user env input = Some p"
      and a: "add_file_inner env p (s1\<lparr>mem := m'\<rparr>) = Some (0, s3)"
      using reconf_add_body_cases [OF granted(3)] by auto
    then show ?thesis
      using add_file_inner_cases [OF a] granted(4) reg by (auto simp: new_entry_def)
  qed simp
qed

text \<open>A path is denied as soon as one entry protects it.\<close>

lemma protected_denied:
  assumes "e \<in> set reg" and "protects env e q i" and "q \<noteq> ''''"
  shows "denies env reg q i"
  using assms by (auto simp: denies_def)

lemma new_entry_protects:
  "protects env' (new_entry env p rp q) p' i \<longleftrightarrow>
     q = p' \<or> extract_ino_no_from_path env q = i \<or> (is_dir env' q \<noteq> 0 \<and> below q p')"
  by (auto simp: protects_def new_entry_def)


text \<open>An open for writing of a file that an entry protects.\<close>

lemma open_denied:
  assumes "new_entry env0 p rp q \<in> set reg" and "looked_up env (path_dentry env (di regs)) 1 = Some q'"
    and "q' \<noteq> ''''" and "f_flags env (si regs) AND 3 \<in> {1, 2}"
    and "q' = q \<or> extract_ino_no_from_path env q' = extract_ino_no_from_path env0 q \<or>
      is_dir env q = 1 \<and> below q q'"
  shows "hook_denied Hook_open env reg regs"
proof -
  have "protects env (new_entry env0 p rp q) q' (extract_ino_no_from_path env q')"
    using assms(5) by (auto simp: protects_def new_entry_def)
  then have "denies env reg q' (extract_ino_no_from_path env q')"
    using protected_denied assms(1,3) by blast
  then show ?thesis using assms(2,4) by (auto simp: is_write_acc_iff)
qed

end
