(* ===== verification/Onefilefs.thy ===== *)
theory Onefilefs
  imports Refmon_Model "HOL-Library.Signed_Division"
begin

text \<open>
  The file system that keeps the log (\<open>io/refmonfs/file.c\<close>, \<open>io/refmonfs/dir.c\<close>): one file, in
  blocks of 4096 bytes that start at block 2 of the device. Reading stays within a block; writing
  appends, and goes to the next block when the rest of the block is not larger than what is
  written. The offsets are C integers: \<^term>\<open>int\<close> with the conversions to unsigned long and to int
  written out. The interface \<open>append_file\<close> is what a sequence of appends relies on.
\<close>

subsection \<open>C integers\<close>

definition to_u64 :: "int \<Rightarrow> int" where "to_u64 x = x mod 2 ^ 64"

definition to_s32 :: "int \<Rightarrow> int" where "to_s32 x = signed_take_bit 31 x"

definition to_s64 :: "int \<Rightarrow> int" where "to_s64 x = signed_take_bit 63 x"

lemma to_u64_id [simp]: "0 \<le> x \<Longrightarrow> x < 2 ^ 64 \<Longrightarrow> to_u64 x = x"
  by (simp add: to_u64_def)

lemma to_s32_id [simp]: "0 \<le> x \<Longrightarrow> x < 2 ^ 31 \<Longrightarrow> to_s32 x = x"
  unfolding to_s32_def by (rule signed_take_bit_int_eq_self) auto

lemma to_s64_id [simp]: "0 \<le> x \<Longrightarrow> x < 2 ^ 63 \<Longrightarrow> to_s64 x = x"
  unfolding to_s64_def by (rule signed_take_bit_int_eq_self) auto

lemma to_s64_range: "- (2 ^ 63) \<le> to_s64 x \<and> to_s64 x < 2 ^ 63"
  unfolding to_s64_def
  using signed_take_bit_int_greater_eq_minus_exp [of 63 x] signed_take_bit_int_less_exp [of 63 x] by blast

lemma signed_divmod [simp]:
  "0 \<le> x \<Longrightarrow> x sdiv 4096 = x div 4096" "0 \<le> x \<Longrightarrow> x smod 4096 = x mod 4096" for x :: int
  by (cases "x = 0"; simp add: signed_divide_int_def signed_modulo_int_def)+

subsection \<open>The state\<close>

definition REFMON_FILE_LOG :: string where "REFMON_FILE_LOG = ''blocked-ops.log''"
definition MAGIC :: int where "MAGIC = 0x42424242"
definition DEFAULT_BLOCK_SIZE :: int where "DEFAULT_BLOCK_SIZE = 4096"
definition SB_BLOCK_NUMBER :: int where "SB_BLOCK_NUMBER = 0"
definition DEFAULT_INO_SIZE :: int where "DEFAULT_INO_SIZE = 2"
definition FILENAME_MAXLEN :: nat where "FILENAME_MAXLEN = 255"
definition SINGLEFILEFS_ROOT_INODE_NUMBER :: int where "SINGLEFILEFS_ROOT_INODE_NUMBER = 10"
definition SINGLEFILEFS_FILE_INODE_NUMBER :: int where "SINGLEFILEFS_FILE_INODE_NUMBER = 1"
definition SINGLEFILEFS_INODES_BLOCK_NUMBER :: int where "SINGLEFILEFS_INODES_BLOCK_NUMBER = 1"

lemmas fs_constants = DEFAULT_BLOCK_SIZE_def DEFAULT_INO_SIZE_def SB_BLOCK_NUMBER_def
  SINGLEFILEFS_INODES_BLOCK_NUMBER_def SINGLEFILEFS_FILE_INODE_NUMBER_def
  SINGLEFILEFS_ROOT_INODE_NUMBER_def

text \<open>
  An inode in memory, the mounted file system (the data of each block, the cache of inodes by
  number, the module's mutex), an open file, and the one segment of a kernel's write.
\<close>

record inode =
  i_size :: int
  i_mode :: int
  i_new :: bool      \<comment> \<open>locked until it is set up: the flag \<open>I_NEW\<close>\<close>

record onefs =
  device :: "int \<Rightarrow> string"
  icache :: "int \<Rightarrow> inode option"
  refmonfs_mutex :: bool

record open_file =
  f_inode :: int
  f_pos :: int

record kvec =
  iov_base :: string
  iov_len :: int

text \<open>
  What is outside: which blocks \<open>sb_bread\<close> gives, how many bytes \<open>copy_to_user\<close> leaves, whether there
  is memory for an inode or a root, what \<open>iput\<close> does with an inode that was not set up, and the
  value of the variable \<open>out_size\<close>, which is never set.
\<close>

record fsenv =
  bread_ok :: "int \<Rightarrow> bool"
  uncopied :: "int \<Rightarrow> nat"
  iget_ok :: bool
  make_root_ok :: bool
  iput_keeps :: bool
  out_size :: int

definition sb_bread :: "fsenv \<Rightarrow> onefs \<Rightarrow> int \<Rightarrow> string option" where
  "sb_bread env s b = (if bread_ok env b then Some (device s b) else None)"

definition mutex_lock :: "onefs \<Rightarrow> onefs option" where
  "mutex_lock s = (if refmonfs_mutex s then None else Some (s\<lparr>refmonfs_mutex := True\<rparr>))"

definition mutex_unlock :: "onefs \<Rightarrow> onefs" where
  "mutex_unlock s = s\<lparr>refmonfs_mutex := False\<rparr>"

text \<open>Copying out of and into the data of a block; outside of it is a memory error.\<close>

definition load_bytes :: "string \<Rightarrow> int \<Rightarrow> int \<Rightarrow> string option" where
  "load_bytes b i n =
     (if 0 \<le> i \<and> 0 \<le> n \<and> i + n \<le> int (length b) then Some (take (nat n) (drop (nat i) b))
      else None)"

definition store_bytes :: "string \<Rightarrow> int \<Rightarrow> string \<Rightarrow> string option" where
  "store_bytes b i x =
     (if 0 \<le> i \<and> i + int (length x) \<le> int (length b)
      then Some (take (nat i) b @ x @ drop (nat i + length x) b) else None)"

subsection \<open>Reading and writing\<close>

text \<open>The length of a read is cut at the end of the file, then at the end of the block.\<close>

definition within_file :: "int \<Rightarrow> int \<Rightarrow> int \<Rightarrow> int" where
  "within_file file_size off len =
     (if file_size < to_u64 (off + len) then to_u64 (file_size - off) else len)"

definition within_block :: "int \<Rightarrow> int \<Rightarrow> int" where
  "within_block offset len =
     (if DEFAULT_BLOCK_SIZE < to_u64 (offset + len) then to_u64 (DEFAULT_BLOCK_SIZE - offset)
      else len)"

text \<open>
  \<open>onefilefs_read\<close>: the value returned, the bytes that reached the user and the new offset. The
  inode is read before the test for a NULL file, and so a NULL file crashes.
\<close>

definition onefilefs_read ::
    "fsenv \<Rightarrow> open_file option \<Rightarrow> int \<Rightarrow> int \<Rightarrow> onefs \<Rightarrow> (int \<times> string \<times> int \<times> onefs) option" where
  "onefilefs_read env filp len off s0 = do {
     f \<leftarrow> filp;
     the_inode \<leftarrow> icache s0 (f_inode f);
     s \<leftarrow> mutex_lock s0;
     let file_size = to_u64 (i_size the_inode) in
     if file_size \<le> to_u64 off then Some (0, [], off, mutex_unlock s)
     else
       let offset = off smod DEFAULT_BLOCK_SIZE;
           len2 = within_block offset (within_file file_size off len);
           block_to_read = to_s32 (off sdiv DEFAULT_BLOCK_SIZE + DEFAULT_INO_SIZE) in
       (case sb_bread env s block_to_read of
          None \<Rightarrow> Some (- EIO, [], off, mutex_unlock s)
        | Some b_data \<Rightarrow> do {
            bytes \<leftarrow> load_bytes b_data offset len2;
            let copied = len2 - int (uncopied env len2) in
            Some (copied, take (nat copied) bytes, off + copied, mutex_unlock s)
          })
   }"

text \<open>
  Where a write goes: is the next block taken, the block of the end of the file, the offset in the
  file, and the offset and number of the block written.
\<close>

definition write_place :: "int \<Rightarrow> int \<Rightarrow> bool \<times> int \<times> int \<times> int \<times> int" where
  "write_place offset to_be_written =
     (let block_offset = offset smod DEFAULT_BLOCK_SIZE;
          block_to_write = to_s32 (offset sdiv DEFAULT_BLOCK_SIZE + DEFAULT_INO_SIZE);
          spare_space = DEFAULT_BLOCK_SIZE - block_offset in
      if to_u64 spare_space \<le> to_be_written
      then (True, block_to_write, offset + spare_space, 0, to_s32 (block_to_write + 1))
      else (False, block_to_write, offset, block_offset, block_to_write))"

text \<open>
  \<open>onefilefs_write_async\<close>. It returns the variable \<open>out_size\<close>; the size is changed in the inode in
  memory only. The bytes of the segment are read up to its length.
\<close>

definition onefilefs_write_async ::
    "fsenv \<Rightarrow> open_file option \<Rightarrow> kvec \<Rightarrow> onefs \<Rightarrow> (int \<times> open_file \<times> onefs) option" where
  "onefilefs_write_async env filp kv s0 = do {
     f \<leftarrow> filp;
     the_inode \<leftarrow> icache s0 (f_inode f);
     s \<leftarrow> mutex_lock s0;
     let file_size = to_u64 (i_size the_inode);
         to_be_written = iov_len kv;
         (next, block0, offset, block_offset, block_to_write) =
           write_place (i_size the_inode) to_be_written in
     if next \<and> sb_bread env s block0 = None then Some (- EIO, f, mutex_unlock s)
     else
       (case sb_bread env s block_to_write of
          None \<Rightarrow> Some (- EIO, f, mutex_unlock s)
        | Some b_data \<Rightarrow> do {
            src \<leftarrow> load_bytes (iov_base kv) 0 to_be_written;
            b \<leftarrow> store_bytes b_data block_offset src;
            let grown = to_u64 (offset + to_be_written) in
            Some (out_size env, f\<lparr>f_pos := offset\<rparr>,
              mutex_unlock (s\<lparr>device := (device s)(block_to_write := b),
                icache := (if file_size < grown
                           then (icache s)(f_inode f \<mapsto> the_inode\<lparr>i_size := to_s64 grown\<rparr>)
                           else icache s)\<rparr>))
          })
   }"

subsection \<open>Looking the file up, and listing the directory\<close>

definition S_IFREG :: int where "S_IFREG = 0x8000"
definition S_IFDIR :: int where "S_IFDIR = 0x4000"

text \<open>\<open>S_IRUSR | S_IRGRP | S_IROTH | S_IWUSR | S_IWGRP | S_IXUSR | S_IXGRP | S_IXOTH\<close>\<close>

definition REFMONFS_PERMISSIONS :: int where "REFMONFS_PERMISSIONS = 0x1FD"

text \<open>
  \<open>iget_locked\<close>: no memory, an inode of the cache, or a new one. An inode that is still being set up
  is waited for, which is for ever if the one who did it gave up.
\<close>

datatype iget = No_inode | Cached inode | New_inode

definition iget_locked :: "fsenv \<Rightarrow> onefs \<Rightarrow> int \<Rightarrow> iget option" where
  "iget_locked env s n =
     (case icache s n of
        Some ino \<Rightarrow> if i_new ino then None else Some (Cached ino)
      | None \<Rightarrow> Some (if iget_ok env then New_inode else No_inode))"

definition iput_new :: "fsenv \<Rightarrow> int \<Rightarrow> inode \<Rightarrow> onefs \<Rightarrow> onefs" where
  "iput_new env n ino s =
     s\<lparr>icache := (icache s)(n := if iput_keeps env then Some (ino\<lparr>i_new := True\<rparr>) else None)\<rparr>"

text \<open>The result of a lookup: the child's entry, an error pointer, or NULL. The child's entry is
  its inode number, \<^term>\<open>None\<close> as long as none is attached.\<close>

datatype lookup_ret = Child_dentry | Err_ptr int | Null_dentry

text \<open>
  Eight bytes of a block as an integer: the machine is little-endian.
\<close>

primrec le_value :: "string \<Rightarrow> int" where
  "le_value [] = 0"
| "le_value (c # cs) = int (of_char c) + 256 * le_value cs"

primrec le_bytes :: "nat \<Rightarrow> int \<Rightarrow> string" where
  "le_bytes 0 x = []"
| "le_bytes (Suc n) x = char_of (nat (x mod 256)) # le_bytes n (x div 256)"

text \<open>\<open>struct onefilefs_inode\<close>: mode (4 bytes, 4 of padding), number, data block, size. \<open>struct
  onefilefs_sb_info\<close>: version, magic, block size, number of inodes, free blocks.\<close>

definition inode_file_size :: "string \<Rightarrow> int" where
  "inode_file_size b_data = le_value (take 8 (drop 24 b_data))"

definition sb_magic :: "string \<Rightarrow> int" where
  "sb_magic b_data = le_value (take 8 (drop 8 b_data))"

text \<open>\<open>onefilefs_lookup\<close> in the root for a name\<close>

definition onefilefs_lookup ::
    "fsenv \<Rightarrow> string \<Rightarrow> int option \<Rightarrow> onefs \<Rightarrow> (lookup_ret \<times> int option \<times> onefs) option" where
  "onefilefs_lookup env name child s =
     (if name = REFMON_FILE_LOG then do {
        got \<leftarrow> iget_locked env s 1;
        case got of
          No_inode \<Rightarrow> Some (Err_ptr (- ENOMEM), child, s)
        | Cached _ \<Rightarrow> Some (Child_dentry, child, s)
        | New_inode \<Rightarrow>
            let ino = \<lparr>i_size = 0, i_mode = S_IFREG + REFMONFS_PERMISSIONS, i_new = True\<rparr> in
            (case sb_bread env s SINGLEFILEFS_INODES_BLOCK_NUMBER of
               None \<Rightarrow> Some (Err_ptr (- EIO), child, iput_new env 1 ino s)
             | Some b_data \<Rightarrow>
                 Some (Child_dentry, Some 1,
                   s\<lparr>icache := (icache s)(1 \<mapsto>
                     ino\<lparr>i_size := to_s64 (inode_file_size b_data), i_new := False\<rparr>)\<rparr>))
      }
      else Some (Null_dentry, child, s))"

text \<open>
  \<open>onefilefs_iterate\<close>. Each entry that \<open>dir_emit\<close> accepts advances the position; a name is passed
  with the length 255, more than the literal has.
\<close>

record dir_context =
  ctx_pos :: int
  emitted :: "(string \<times> nat \<times> int) list"

definition dir_emit ::
    "(int \<Rightarrow> bool) \<Rightarrow> string \<Rightarrow> nat \<Rightarrow> int \<Rightarrow> dir_context \<Rightarrow> bool \<times> dir_context" where
  "dir_emit accept name namelen ino ctx =
     (if accept (ctx_pos ctx)
      then (True, ctx\<lparr>emitted := emitted ctx @ [(name, namelen, ino)]\<rparr>) else (False, ctx))"

definition emit_at ::
    "(int \<Rightarrow> bool) \<Rightarrow> int \<Rightarrow> string \<Rightarrow> int \<Rightarrow> dir_context \<Rightarrow> bool \<times> dir_context" where
  "emit_at accept pos name ino ctx =
     (if ctx_pos ctx = pos then
        (case dir_emit accept name FILENAME_MAXLEN ino ctx of
           (True, ctx') \<Rightarrow> (True, ctx'\<lparr>ctx_pos := ctx_pos ctx' + 1\<rparr>)
         | (False, ctx') \<Rightarrow> (False, ctx'))
      else (True, ctx))"

definition onefilefs_iterate :: "(int \<Rightarrow> bool) \<Rightarrow> dir_context \<Rightarrow> int \<times> dir_context" where
  "onefilefs_iterate accept ctx =
     (if 3 \<le> ctx_pos ctx then (0, ctx)
      else let (go, ctx1) = emit_at accept 0 ''.'' SINGLEFILEFS_ROOT_INODE_NUMBER ctx in
      if \<not> go then (0, ctx1)
      else let (go, ctx2) = emit_at accept 1 ''..'' 1 ctx1 in
      if \<not> go then (0, ctx2)
      else let (go, ctx3) = emit_at accept 2 REFMON_FILE_LOG SINGLEFILEFS_FILE_INODE_NUMBER ctx2 in
      (0, ctx3))"

subsection \<open>The bytes of the file\<close>

text \<open>The byte at an offset of the file, and the bytes between two offsets.\<close>

definition file_byte :: "(int \<Rightarrow> string) \<Rightarrow> nat \<Rightarrow> char" where
  "file_byte dev i = dev (int (i div 4096) + 2) ! (i mod 4096)"

definition file_bytes :: "(int \<Rightarrow> string) \<Rightarrow> nat \<Rightarrow> nat \<Rightarrow> string" where
  "file_bytes dev m n = map (file_byte dev) [m..<n]"

definition wf_device :: "(int \<Rightarrow> string) \<Rightarrow> bool" where
  "wf_device dev \<longleftrightarrow> (\<forall>b. length (dev b) = 4096)"

text \<open>The blocks up to an offset can be read, and it is small enough for a C int to count them.\<close>

definition fits :: "fsenv \<Rightarrow> nat \<Rightarrow> bool" where
  "fits env n \<longleftrightarrow> n \<le> 2 ^ 42 \<and> (\<forall>b. 2 \<le> b \<and> b \<le> int (n div 4096) + 2 \<longrightarrow> bread_ok env b)"

lemma fits_mono: "fits env n \<Longrightarrow> m \<le> n \<Longrightarrow> fits env m"
proof -
  assume "fits env n" "m \<le> n"
  moreover have "m div 4096 \<le> n div 4096" using \<open>m \<le> n\<close> by (rule div_le_mono)
  ultimately show ?thesis by (auto simp: fits_def)
qed

lemma fits_block: "fits env n \<Longrightarrow> m \<le> n \<Longrightarrow> bread_ok env (int (m div 4096) + 2)"
  using fits_mono [of env n m] by (simp add: fits_def)

lemma length_file_bytes [simp]: "length (file_bytes dev m n) = n - m"
  by (simp add: file_bytes_def)

lemma file_bytes_append:
  assumes "l \<le> m" and "m \<le> n"
  shows "file_bytes dev l n = file_bytes dev l m @ file_bytes dev m n"
proof -
  have "[l..<n] = [l..<m] @ [m..<n]"
    using upt_add_eq_append [OF assms(1), of "n - m"] assms(2) by simp
  then show ?thesis by (simp add: file_bytes_def)
qed

lemma file_bytes_cong:
  "(\<And>i. m \<le> i \<Longrightarrow> i < n \<Longrightarrow> file_byte dev i = file_byte dev' i) \<Longrightarrow>
     file_bytes dev m n = file_bytes dev' m n"
  by (simp add: file_bytes_def)

lemma file_bytes_take: "take k (file_bytes dev m n) = file_bytes dev m (min n (m + k))"
  by (simp add: file_bytes_def take_map take_upt min_def)

lemma block_of:
  "r < 4096 \<Longrightarrow> (4096 * q + r) div 4096 = q" "r < 4096 \<Longrightarrow> (4096 * q + r) mod 4096 = r" for q r :: nat
  by simp_all

lemma same_block:
  assumes "m mod 4096 + i < (4096 :: nat)"
  shows "(m + i) div 4096 = m div 4096" and "(m + i) mod 4096 = m mod 4096 + i"
proof -
  have m: "m + i = 4096 * (m div 4096) + (m mod 4096 + i)" by (metis add.assoc mult_div_mod_eq)
  show "(m + i) div 4096 = m div 4096" by (subst m) (rule block_of(1) [OF assms])
  show "(m + i) mod 4096 = m mod 4096 + i" by (subst m) (rule block_of(2) [OF assms])
qed

text \<open>Bytes of the file that lie in one block.\<close>

lemma block_slice:
  assumes "wf_device dev" and "m mod 4096 + k \<le> 4096"
  shows "file_bytes dev m (m + k) = take k (drop (m mod 4096) (dev (int (m div 4096) + 2)))"
proof (rule nth_equalityI)
  show "length (file_bytes dev m (m + k)) =
      length (take k (drop (m mod 4096) (dev (int (m div 4096) + 2))))"
    using assms by (simp add: wf_device_def)
  fix i assume "i < length (file_bytes dev m (m + k))"
  then show "file_bytes dev m (m + k) ! i =
      take k (drop (m mod 4096) (dev (int (m div 4096) + 2))) ! i"
    using assms same_block [of m i] by (simp add: file_bytes_def file_byte_def wf_device_def)
qed

lemma load_block:
  assumes "wf_device dev" and "m mod 4096 + k \<le> 4096"
  shows "load_bytes (dev (int (m div 4096) + 2)) (int (m mod 4096)) (int k) =
    Some (file_bytes dev m (m + k))"
proof -
  have "int (m mod 4096) + int k \<le> 4096" using assms(2) by linarith
  then show ?thesis
    unfolding block_slice [OF assms] using assms(1) by (simp add: load_bytes_def wf_device_def)
qed

text \<open>Storing within one block changes these bytes and no other.\<close>

definition with_bytes :: "(int \<Rightarrow> string) \<Rightarrow> nat \<Rightarrow> string \<Rightarrow> (int \<Rightarrow> string)" where
  "with_bytes dev m x =
     (let b = int (m div 4096) + 2 in
      dev(b := take (m mod 4096) (dev b) @ x @ drop (m mod 4096 + length x) (dev b)))"

lemma store_block:
  assumes "wf_device dev" and "m mod 4096 + length x \<le> 4096"
  shows "\<exists>b. store_bytes (dev (int (m div 4096) + 2)) (int (m mod 4096)) x = Some b \<and>
    dev(int (m div 4096) + 2 := b) = with_bytes dev m x"
proof -
  have "int (m mod 4096) + int (length x) \<le> 4096" using assms(2) by linarith
  moreover have "nat (int (m mod 4096)) = m mod 4096" by simp
  ultimately show ?thesis
    using assms(1) by (simp add: store_bytes_def wf_device_def with_bytes_def Let_def del: nat_int_comparison)
qed

lemma stored_wf:
  assumes "wf_device dev" and "m mod 4096 + length x \<le> 4096"
  shows "wf_device (with_bytes dev m x)"
  using assms by (simp add: wf_device_def with_bytes_def Let_def)

lemma stored_byte:
  assumes "wf_device dev" and "m mod 4096 + length x \<le> 4096"
  shows "file_byte (with_bytes dev m x) i =
    (if m \<le> i \<and> i < m + length x then x ! (i - m) else file_byte dev i)"
proof (cases "i div 4096 = m div 4096")
  case True
  let ?b = "dev (int (m div 4096) + 2)"
  have len: "length ?b = 4096" using assms(1) by (simp add: wf_device_def)
  have i: "i = 4096 * (m div 4096) + i mod 4096" "m = 4096 * (m div 4096) + m mod 4096"
    using True mult_div_mod_eq [of 4096 i] by simp_all
  have le: "m \<le> i \<longleftrightarrow> m mod 4096 \<le> i mod 4096" "i < m + length x \<longleftrightarrow> i mod 4096 < m mod 4096 + length x"
    "i - m = i mod 4096 - m mod 4096"
    using i by linarith+
  show ?thesis
    unfolding le file_byte_def with_bytes_def Let_def
    using True len assms(2) by (auto simp: nth_append)
next
  case False
  have "m \<le> i \<and> i < m + length x \<Longrightarrow> i div 4096 = m div 4096"
  proof -
    assume i: "m \<le> i \<and> i < m + length x"
    then have "m mod 4096 + (i - m) < 4096" using assms(2) by linarith
    then show "i div 4096 = m div 4096" using same_block(1) [of m "i - m"] i by simp
  qed
  then show ?thesis using False by (auto simp: file_byte_def with_bytes_def Let_def)
qed

lemma stored_bytes:
  assumes "wf_device dev" and "m mod 4096 + length x \<le> 4096"
  shows "file_bytes (with_bytes dev m x) 0 (m + length x) = file_bytes dev 0 m @ x"
proof -
  have "file_bytes (with_bytes dev m x) 0 m = file_bytes dev 0 m"
    by (rule file_bytes_cong) (simp add: stored_byte [OF assms])
  moreover have "file_bytes (with_bytes dev m x) m (m + length x) = x"
    by (rule nth_equalityI) (simp_all add: file_bytes_def stored_byte [OF assms])
  ultimately show ?thesis
    using file_bytes_append [of 0 m "m + length x" "with_bytes dev m x"] by simp
qed


subsection \<open>What reading and writing do\<close>

lemma mutex_pair [simp]: "\<not> refmonfs_mutex s \<Longrightarrow> mutex_lock s = Some (s\<lparr>refmonfs_mutex := True\<rparr>)"
  "\<not> refmonfs_mutex s \<Longrightarrow> mutex_unlock (s\<lparr>refmonfs_mutex := True\<rparr>) = s"
  by (simp_all add: mutex_lock_def mutex_unlock_def)

lemma sb_bread_block:
  assumes "fits env n" and "m \<le> n"
  shows "sb_bread env s (to_s32 (int m sdiv 4096 + 2)) = Some (device s (int (m div 4096) + 2))"
proof -
  have m: "m \<le> 2 ^ 42" using assms by (simp add: fits_def)
  have "m div 4096 \<le> 2 ^ 42 div 4096" by (rule div_le_mono [OF m])
  then have "to_s32 (int m sdiv 4096 + 2) = int (m div 4096) + 2" by (simp add: zdiv_int)
  then show ?thesis using fits_block [OF assms] by (simp add: sb_bread_def)
qed

text \<open>The bytes one call of read delivers: not past the file, nor past the block.\<close>

definition read_len :: "nat \<Rightarrow> nat \<Rightarrow> nat \<Rightarrow> nat" where
  "read_len n off len = min (min len (n - off)) (4096 - off mod 4096)"

lemma within_file_ok:
  assumes "off < n" and "n \<le> 2 ^ 42" and "off + len < 2 ^ 64"
  shows "within_file (int n) (int off) (int len) = int (min len (n - off))"
proof -
  have "to_u64 (int off + int len) = int off + int len" "to_u64 (int n - int off) = int n - int off"
    using assms by simp_all
  then show ?thesis using assms(1) by (auto simp: within_file_def min_def)
qed

lemma within_block_ok:
  assumes "r < 4096" and "l \<le> 2 ^ 42"
  shows "within_block (int r) (int l) = int (min l (4096 - r))"
proof -
  have "to_u64 (int r + int l) = int r + int l" "to_u64 (4096 - int r) = 4096 - int r"
    using assms by simp_all
  then show ?thesis using assms by (auto simp: within_block_def DEFAULT_BLOCK_SIZE_def min_def)
qed

lemma onefilefs_read_ok:
  assumes "icache s (f_inode f) = Some ino" and "i_size ino = int n" and "\<not> refmonfs_mutex s"
    and "wf_device (device s)" and "fits env n" and "off + len < 2 ^ 64"
    and "\<And>k. uncopied env k \<le> nat k"
  shows "onefilefs_read env (Some f) (int len) (int off) s =
    Some (if n \<le> off then (0, [], int off, s)
          else let k = read_len n off len; c = k - uncopied env (int k) in
            (int c, file_bytes (device s) off (off + c), int (off + c), s))"
proof -
  have n: "n \<le> 2 ^ 42" using assms(5) by (simp add: fits_def)
  then have size: "to_u64 (i_size ino) = int n" "to_u64 (int off) = int off"
    using assms(2,6) by simp_all
  show ?thesis
  proof (cases "n \<le> off")
    case True
    then show ?thesis using assms(1,3) size by (simp add: onefilefs_read_def)
  next
    case False
    define k u where "k = read_len n off len" and "u = uncopied env (int k)"
    have u: "u \<le> k" using assms(7) [of "int k"] by (simp add: u_def)
    have r: "off mod 4096 < 4096" by simp
    have off: "int off smod 4096 = int (off mod 4096)" by (simp add: zmod_int)
    have len: "within_block (int (off mod 4096)) (within_file (int n) (int off) (int len)) = int k"
      using False n assms(6) within_block_ok [OF r, of "min len (n - off)"]
      by (simp add: within_file_ok k_def read_len_def)
    have k: "off mod 4096 + k \<le> 4096" using r by (auto simp: k_def read_len_def)
    have "sb_bread env (s\<lparr>refmonfs_mutex := True\<rparr>) (to_s32 (int off sdiv 4096 + 2)) =
        Some (device s (int (off div 4096) + 2))"
      using sb_bread_block [OF assms(5), of off] False by simp
    moreover note load_block [OF assms(4) k]
    moreover have "take (k - u) (file_bytes (device s) off (off + k)) = file_bytes (device s) off (off + (k - u))"
      by (simp add: file_bytes_take)
    ultimately show ?thesis
      unfolding onefilefs_read_def DEFAULT_BLOCK_SIZE_def DEFAULT_INO_SIZE_def
      using assms(1,3) size False u
      by (simp add: off len Let_def k_def [symmetric] u_def [symmetric] nat_diff_distrib
          del: signed_divmod)
  qed
qed

text \<open>Where a write puts its bytes.\<close>

definition write_offset :: "nat \<Rightarrow> nat \<Rightarrow> nat" where
  "write_offset n len = (if 4096 - n mod 4096 \<le> len then n + (4096 - n mod 4096) else n)"

lemma next_block:
  "n + (4096 - n mod 4096) = 4096 * (n div 4096 + 1)"
  "int n + (4096 - int (n mod 4096)) = int (4096 * (n div 4096 + 1))" for n :: nat
proof -
  have *: "4096 * q + r + (4096 - r) = 4096 * (q + 1)" if "r < 4096" for q r :: nat using that by simp
  from * [of "n mod 4096" "n div 4096"] show "n + (4096 - n mod 4096) = 4096 * (n div 4096 + 1)"
    by simp
  then have "int (n + (4096 - n mod 4096)) = int (4096 * (n div 4096 + 1))" by (rule arg_cong)
  moreover have "n mod 4096 \<le> 4096" by simp
  ultimately show "int n + (4096 - int (n mod 4096)) = int (4096 * (n div 4096 + 1))"
    by (simp only: of_nat_add of_nat_diff of_nat_numeral)
qed

lemma write_offset_bounds:
  "n \<le> write_offset n len" "write_offset n len \<le> n + len"
  "len \<le> 4096 \<Longrightarrow> write_offset n len mod 4096 + len \<le> 4096"
proof -
  show "n \<le> write_offset n len" "write_offset n len \<le> n + len"
    using mod_less_divisor [of 4096 n] by (auto simp: write_offset_def)
  show "len \<le> 4096 \<Longrightarrow> write_offset n len mod 4096 + len \<le> 4096"
    by (cases "4096 - n mod 4096 \<le> len") (simp add: write_offset_def next_block(1), simp add: write_offset_def)
qed

lemma write_place_ok:
  fixes n len :: nat
  assumes "n \<le> 2 ^ 42"
  shows "write_place (int n) (int len) =
    (4096 - n mod 4096 \<le> len, int (n div 4096) + 2, int (write_offset n len),
     int (write_offset n len mod 4096), int (write_offset n len div 4096) + 2)"
proof -
  have r: "n mod 4096 < 4096" "int n smod 4096 = int (n mod 4096)" by (simp_all add: zmod_int)
  have "to_u64 (4096 - int (n mod 4096)) = int (4096 - n mod 4096)"
    using r(1) by (simp add: of_nat_diff)
  then have more: "(to_u64 (4096 - int (n mod 4096)) \<le> int len) = (4096 - n mod 4096 \<le> len)"
    by (simp only: of_nat_le_iff)
  have "n div 4096 \<le> 2 ^ 42 div 4096" by (rule div_le_mono [OF assms])
  then have block: "to_s32 (int n sdiv 4096 + 2) = int (n div 4096) + 2"
    "to_s32 (int (n div 4096) + 2 + 1) = int (n div 4096) + 3"
    by (simp_all add: zdiv_int)
  show ?thesis
    unfolding write_place_def Let_def DEFAULT_BLOCK_SIZE_def DEFAULT_INO_SIZE_def r(2) more block
      write_offset_def next_block
    by simp
qed

lemma load_all [simp]: "load_bytes x 0 (int (length x)) = Some x"
  by (simp add: load_bytes_def)

lemma onefilefs_write_ok:
  assumes "icache s (f_inode f) = Some ino" and "i_size ino = int n" and "\<not> refmonfs_mutex s"
    and "wf_device (device s)" and "length x \<le> 4096"
    and "fits env (write_offset n (length x) + length x)"
  shows "onefilefs_write_async env (Some f) \<lparr>iov_base = x, iov_len = int (length x)\<rparr> s =
    Some (out_size env, f\<lparr>f_pos := int (write_offset n (length x))\<rparr>,
      s\<lparr>device := with_bytes (device s) (write_offset n (length x)) x,
        icache := (icache s)(f_inode f \<mapsto> ino\<lparr>i_size := int (write_offset n (length x) + length x)\<rparr>)\<rparr>)"
proof -
  define off where "off = write_offset n (length x)"
  have off: "n \<le> off" "off mod 4096 + length x \<le> 4096"
    using write_offset_bounds(1) write_offset_bounds(3) [OF assms(5)] by (simp_all add: off_def)
  have small: "off + length x \<le> 2 ^ 42" using assms(6) by (simp add: fits_def off_def)
  then have n: "n \<le> 2 ^ 42" "off \<le> 2 ^ 42" using off(1) by simp_all
  have sz: "to_u64 (int n) = int n" "to_u64 (int off + int (length x)) = int (off + length x)"
    "to_s64 (int (off + length x)) = int (off + length x)"
    using small n by simp_all
  let ?s = "s\<lparr>refmonfs_mutex := True\<rparr>"
  have b0: "sb_bread env ?s (int (n div 4096) + 2) = Some (device s (int (n div 4096) + 2))"
    using fits_block [OF assms(6), of n] off(1) by (simp add: sb_bread_def off_def)
  have b1: "sb_bread env ?s (int (off div 4096) + 2) = Some (device s (int (off div 4096) + 2))"
    using fits_block [OF assms(6), of off] by (simp add: sb_bread_def off_def)
  obtain b where b: "store_bytes (device s (int (off div 4096) + 2)) (int (off mod 4096)) x = Some b"
    "(device s)(int (off div 4096) + 2 := b) = with_bytes (device s) off x"
    using store_block [OF assms(4) off(2)] by blast
  define ino' where "ino' = ino\<lparr>i_size := int (off + length x)\<rparr>"
  have grow: "(if int n < int (off + length x) then (icache s)(f_inode f \<mapsto> ino') else icache s) =
      (icache s)(f_inode f \<mapsto> ino')"
  proof (cases "n < off + length x")
    case False
    then have "ino' = ino" using off(1) assms(2) by (simp add: ino'_def)
    then show ?thesis using assms(1) by (simp add: fun_upd_idem)
  qed simp
  have s: "mutex_unlock (?s\<lparr>device := d, icache := c\<rparr>) = s\<lparr>device := d, icache := c\<rparr>" for d c
    using assms(3) by (simp add: mutex_unlock_def)
  have "onefilefs_write_async env (Some f) \<lparr>iov_base = x, iov_len = int (length x)\<rparr> s =
    Some (out_size env, f\<lparr>f_pos := int off\<rparr>, mutex_unlock (?s\<lparr>device := with_bytes (device s) off x,
      icache := (if int n < int (off + length x) then (icache s)(f_inode f \<mapsto> ino') else icache s)\<rparr>))"
    unfolding onefilefs_write_async_def ino'_def
    using assms(1-3) write_place_ok [OF n(1), of "length x"] b0 b1 b
    by (simp add: sz off_def [symmetric] Let_def del: of_nat_add)
  from this [unfolded grow s, unfolded ino'_def off_def] show ?thesis .
qed


text \<open>A record that is larger than a block is copied past the end of the block's data.\<close>

lemma onefilefs_write_overflow:
  assumes "icache s (f_inode f) = Some ino" and "i_size ino = int n" and "wf_device (device s)"
    and "4096 < length x" and "fits env (n + 4096)"
  shows "onefilefs_write_async env (Some f) \<lparr>iov_base = x, iov_len = int (length x)\<rparr> s = None"
proof (cases "refmonfs_mutex s")
  case True
  then show ?thesis using assms(1) by (simp add: onefilefs_write_async_def mutex_lock_def)
next
  case False
  have n: "n \<le> 2 ^ 42" using assms(5) by (simp add: fits_def)
  have off: "write_offset n (length x) = n + (4096 - n mod 4096)"
    using assms(4) by (simp add: write_offset_def)
  let ?s = "s\<lparr>refmonfs_mutex := True\<rparr>"
  have b: "sb_bread env ?s (int (m div 4096) + 2) = Some (device s (int (m div 4096) + 2))"
    if "m \<le> n + 4096" for m
    using fits_block [OF assms(5) that] by (simp add: sb_bread_def)
  have "length (device s k) = 4096" for k using assms(3) by (simp add: wf_device_def)
  then have "store_bytes (device s k) 0 x = None" for k
    using assms(4) by (simp add: store_bytes_def)
  then show ?thesis
    using assms(1,2) False write_place_ok [OF n, of "length x"] b [of n]
      b [of "write_offset n (length x)"]
    by (simp add: onefilefs_write_async_def off next_block(1) Let_def)
qed

text \<open>A block that cannot be read: the error is returned and nothing is changed.\<close>

lemma onefilefs_write_error:
  assumes "icache s (f_inode f) = Some ino" and "\<not> refmonfs_mutex s" and "\<And>b. \<not> bread_ok env b"
  shows "onefilefs_write_async env (Some f) kv s = Some (- EIO, f, s)"
  using assms
  by (simp add: onefilefs_write_async_def sb_bread_def Let_def split: prod.split)

subsection \<open>Reading a whole file\<close>

text \<open>A reader that asks for \<open>len\<close> bytes until it gets none.\<close>

partial_function (option) read_all ::
    "fsenv \<Rightarrow> open_file \<Rightarrow> int \<Rightarrow> int \<Rightarrow> onefs \<Rightarrow> string option" where
  "read_all env f len off s = do {
     (ret, bytes, off', s') \<leftarrow> onefilefs_read env (Some f) len off s;
     if ret \<le> 0 then Some []
     else do {
       rest \<leftarrow> read_all env f len off' s';
       Some (bytes @ rest)
     }
   }"

lemma read_all_from:
  assumes "icache s (f_inode f) = Some ino" and "i_size ino = int n" and "\<not> refmonfs_mutex s"
    and "wf_device (device s)" and "fits env n" and "\<And>k. uncopied env k = 0"
    and "0 < len" and "len \<le> 2 ^ 32" and "off \<le> n"
  shows "read_all env f (int len) (int off) s = Some (file_bytes (device s) off n)"
  using assms(9)
proof (induction "n - off" arbitrary: off rule: less_induct)
  case less
  have n: "n \<le> 2 ^ 42" using assms(5) by (simp add: fits_def)
  then have "off + len < 2 ^ 64" using less.prems assms(8) by simp
  from onefilefs_read_ok [OF assms(1-5) this]
  have r: "onefilefs_read env (Some f) (int len) (int off) s =
    Some (if n \<le> off then (0, [], int off, s)
          else (int (read_len n off len), file_bytes (device s) off (off + read_len n off len),
            int (off + read_len n off len), s))"
    using assms(6) by (simp add: Let_def)
  show ?case
  proof (cases "n \<le> off")
    case True
    then show ?thesis using r less.prems by (simp add: read_all.simps [of env f _ "int off"] file_bytes_def)
  next
    case False
    define k where "k = read_len n off len"
    have k: "0 < k" "off + k \<le> n" using False assms(7) by (auto simp: k_def read_len_def)
    then have "read_all env f (int len) (int (off + k)) s = Some (file_bytes (device s) (off + k) n)"
      using less.hyps [of "off + k"] False by simp
    then show ?thesis
      using r False k file_bytes_append [of off "off + k" n "device s"]
      by (simp add: read_all.simps [of env f _ "int off"] k_def [symmetric] del: of_nat_add)
  qed
qed

subsection \<open>Appending\<close>

text \<open>A sequence of appends, stopped by the first that fails.\<close>

fun put_all :: "(string \<Rightarrow> 's \<Rightarrow> 's option) \<Rightarrow> string list \<Rightarrow> 's \<Rightarrow> 's option" where
  "put_all put [] s = Some s"
| "put_all put (x # xs) s = do { s' \<leftarrow> put x s; put_all put xs s' }"

text \<open>
  What the log's writer relies on: an append of at most \<open>limit\<close> bytes keeps the text, may fill up with
  NULs no more than it adds, uses up the room it was given, and leaves alone what is \<open>kept\<close>.
\<close>

locale append_file =
  fixes put :: "string \<Rightarrow> 's \<Rightarrow> 's option"
    and text_of :: "'s \<Rightarrow> string"
    and room :: "'s \<Rightarrow> nat \<Rightarrow> bool"
    and limit :: nat
    and kept :: "'s \<Rightarrow> 'k"
  assumes put_ok: "room s n \<Longrightarrow> 2 * length x \<le> n \<Longrightarrow> length x \<le> limit \<Longrightarrow>
    \<exists>s' k. put x s = Some s' \<and> text_of s' = text_of s @ replicate k NUL @ x \<and> k \<le> length x \<and>
      room s' (n - 2 * length x) \<and> kept s' = kept s"
begin

lemma put_all_ok:
  assumes "room s n" and "2 * length (concat xs) \<le> n" and "\<forall>x\<in>set xs. length x \<le> limit"
  shows "\<exists>s' ks. put_all put xs s = Some s' \<and> length ks = length xs \<and>
    text_of s' = text_of s @ concat (map2 (\<lambda>k x. replicate k NUL @ x) ks xs) \<and>
    room s' (n - 2 * length (concat xs)) \<and> kept s' = kept s"
  using assms
proof (induction xs arbitrary: s n)
  case Nil
  then show ?case by simp
next
  case (Cons x xs)
  have "2 * length x \<le> n" "length x \<le> limit" using Cons.prems by simp_all
  from put_ok [OF Cons.prems(1) this] obtain s1 k where 1: "put x s = Some s1"
    "text_of s1 = text_of s @ replicate k NUL @ x" "room s1 (n - 2 * length x)" "kept s1 = kept s" by blast
  have "2 * length (concat xs) \<le> n - 2 * length x" "\<forall>x\<in>set xs. length x \<le> limit"
    using Cons.prems by simp_all
  from Cons.IH [OF 1(3) this] obtain s' ks where
    "put_all put xs s1 = Some s'" "length ks = length xs"
    "text_of s' = text_of s1 @ concat (map2 (\<lambda>k x. replicate k NUL @ x) ks xs)"
    "room s' (n - 2 * length x - 2 * length (concat xs))" "kept s' = kept s1" by blast
  then have "put_all put (x # xs) s = Some s' \<and> length (k # ks) = length (x # xs) \<and>
      text_of s' = text_of s @ concat (map2 (\<lambda>k x. replicate k NUL @ x) (k # ks) (x # xs)) \<and>
      room s' (n - 2 * length (concat (x # xs))) \<and> kept s' = kept s"
    using 1 by (simp add: diff_diff_left)
  then show ?case by blast
qed

lemma put_all_text:
  assumes "room s n" and "2 * length (concat xs) \<le> n"
    and "\<forall>x\<in>set xs. length x \<le> limit \<and> nul_free x" and "put_all put xs s = Some s'"
  shows "filter (\<lambda>c. c \<noteq> NUL) (text_of s') = filter (\<lambda>c. c \<noteq> NUL) (text_of s) @ concat xs"
proof -
  obtain ks where ks: "length ks = length xs"
    "text_of s' = text_of s @ concat (map2 (\<lambda>k x. replicate k NUL @ x) ks xs)"
    using put_all_ok [OF assms(1,2)] assms(3,4) by auto
  have "filter (\<lambda>c. c \<noteq> NUL) (concat (map2 (\<lambda>k x. replicate k NUL @ x) ks xs)) = concat xs"
    using ks(1) assms(3)
  proof (induction ks xs rule: list_induct2)
    case (Cons k ks x xs)
    then have "filter (\<lambda>c. c \<noteq> NUL) x = x" by (auto simp: nul_free_def filter_id_conv)
    then show ?case using Cons by simp
  qed simp
  then show ?thesis using ks(2) by simp
qed

end

text \<open>The one file, in memory: its text, and that more bytes fit on the device, which holds zeros there.\<close>

definition file_text :: "int \<Rightarrow> onefs \<Rightarrow> string" where
  "file_text ino s =
     (case icache s ino of None \<Rightarrow> [] | Some i \<Rightarrow> file_bytes (device s) 0 (nat (i_size i)))"

definition file_room :: "fsenv \<Rightarrow> int \<Rightarrow> onefs \<Rightarrow> nat \<Rightarrow> bool" where
  "file_room env ino s room \<longleftrightarrow>
     (\<exists>i n. icache s ino = Some i \<and> i_size i = int n \<and> \<not> i_new i \<and> fits env (n + room) \<and>
        (\<forall>k\<ge>n. file_byte (device s) k = NUL)) \<and>
     \<not> refmonfs_mutex s \<and> wf_device (device s)"

definition append_record :: "fsenv \<Rightarrow> open_file \<Rightarrow> string \<Rightarrow> onefs \<Rightarrow> onefs option" where
  "append_record env f x s = map_option (\<lambda>(_, _, s'). s')
     (onefilefs_write_async env (Some f) \<lparr>iov_base = x, iov_len = int (length x)\<rparr> s)"

lemma file_bytes_replicate:
  "\<forall>k\<ge>n. file_byte dev k = NUL \<Longrightarrow> n \<le> m \<Longrightarrow> file_bytes dev n m = replicate (m - n) NUL"
  by (rule nth_equalityI) (simp_all add: file_bytes_def)

lemma append_record_ok:
  assumes "file_room env (f_inode f) s n" and "2 * length x \<le> n" and "length x \<le> 4096"
  shows "\<exists>s' k. append_record env f x s = Some s' \<and>
    file_text (f_inode f) s' = file_text (f_inode f) s @ replicate k NUL @ x \<and> k \<le> length x \<and>
    file_room env (f_inode f) s' (n - 2 * length x) \<and>
    (device s' 0, device s' 1) = (device s 0, device s 1)"
proof -
  obtain i sz where i: "icache s (f_inode f) = Some i" "i_size i = int sz" "\<not> i_new i"
    "fits env (sz + n)" "\<forall>k\<ge>sz. file_byte (device s) k = NUL" "\<not> refmonfs_mutex s"
    "wf_device (device s)"
    using assms(1) by (auto simp: file_room_def)
  define off where "off = write_offset sz (length x)"
  note bounds = write_offset_bounds(1,2) [of sz "length x", folded off_def]
    write_offset_bounds(3) [OF assms(3), of sz, folded off_def]
  have fits: "fits env (off + length x)" by (rule fits_mono [OF i(4)]) (use bounds assms(2) in simp)
  define s' where "s' = s\<lparr>device := with_bytes (device s) off x,
    icache := (icache s)(f_inode f \<mapsto> i\<lparr>i_size := int (off + length x)\<rparr>)\<rparr>"
  have "append_record env f x s = Some s'"
    using onefilefs_write_ok [OF i(1,2,6,7) assms(3)] fits
    by (simp add: append_record_def s'_def off_def)
  moreover have "file_text (f_inode f) s' =
      file_text (f_inode f) s @ replicate (off - sz) NUL @ x"
    using stored_bytes [OF i(7) bounds(3)] file_bytes_append [of 0 sz off "device s"] bounds(1)
      file_bytes_replicate [OF i(5) bounds(1)] i(1,2)
    by (simp add: file_text_def s'_def del: of_nat_add)
  moreover have "file_room env (f_inode f) s' (n - 2 * length x)"
  proof -
    have "fits env (off + length x + (n - 2 * length x))"
      by (rule fits_mono [OF i(4)]) (use bounds assms(2) in simp)
    then show ?thesis
      using i stored_wf [OF i(7) bounds(3)] bounds(1)
      by (auto simp: file_room_def s'_def stored_byte [OF i(7) bounds(3)] simp del: of_nat_add)
  qed
  moreover have "off - sz \<le> length x" using bounds(2) by simp
  moreover have "(device s' 0, device s' 1) = (device s 0, device s 1)"
    by (simp add: s'_def with_bytes_def Let_def)
  ultimately show ?thesis by blast
qed

interpretation onefile: append_file "append_record env f" "file_text (f_inode f)"
    "file_room env (f_inode f)" 4096 "\<lambda>s. (device s 0, device s 1)" for env f
  by unfold_locales (rule append_record_ok)


subsection \<open>Integers on the device\<close>

lemma le_value_bytes: "le_value (le_bytes n x) = x mod 256 ^ n"
proof (induction n arbitrary: x)
  case (Suc n)
  have "int (of_char (char_of (nat (x mod 256)) :: char)) = x mod 256" by simp
  moreover have "x mod 256 ^ Suc n = 256 * ((x div 256) mod 256 ^ n) + x mod 256"
    using zmod_zmult2_eq [of "256 ^ n" x 256] by simp
  ultimately show ?case using Suc by simp
qed simp

lemma length_le_bytes [simp]: "length (le_bytes n x) = n"
  by (induction n arbitrary: x) simp_all

lemma le_value_range: "0 \<le> le_value t \<and> le_value t < 256 ^ length t"
proof (induction t)
  case (Cons c t)
  have "int (of_char c) < 256" by (simp only: of_nat_less_numeral_iff) simp
  moreover have "le_value t + 1 \<le> 256 ^ length t" using Cons by simp
  ultimately have "int (of_char c) + 256 * le_value t < 256 * 256 ^ length t" by linarith
  then show ?case using Cons by simp
qed simp

lemma le_bytes_value: "le_bytes (length t) (le_value t) = t"
proof (induction t)
  case (Cons c t)
  have c: "(of_char c :: nat) < 256" by simp
  then have "le_value (c # t) mod 256 = int (of_char c)" "le_value (c # t) div 256 = le_value t"
    by simp_all
  then show ?case using Cons by simp
qed simp

interpretation disk_u64: codec "\<lambda>x. 0 \<le> x \<and> x < 2 ^ 64" "\<lambda>x. Some (le_bytes 8 x)"
    "\<lambda>t. if length t = 8 then Some (le_value t) else None"
proof unfold_locales
  show "(if length t = 8 then Some (le_value t) else None) = Some v"
    if "0 \<le> v \<and> v < 2 ^ 64" "Some (le_bytes 8 v) = Some t" for v t
    using that le_value_bytes [of 8 v] by auto
  show "(0 \<le> v \<and> v < 2 ^ 64) \<and> Some (le_bytes 8 v) = Some t"
    if "(if length t = 8 then Some (le_value t) else None) = Some v" for v t
  proof -
    have t: "length t = 8" "v = le_value t" using that by (auto split: if_splits)
    then show ?thesis using le_value_range [of t] le_bytes_value [of t] by simp
  qed
qed simp

subsection \<open>The directory\<close>

definition dir_entries :: "(string \<times> nat \<times> int) list" where
  "dir_entries = [(''.'', 255, 10), (''..'', 255, 1), (''blocked-ops.log'', 255, 1)]"

text \<open>However the calls are cut, the entries come in order, each once.\<close>

lemma onefilefs_iterate_emits:
  assumes "onefilefs_iterate accept ctx = (ret, ctx')" and "0 \<le> ctx_pos ctx" and "ctx_pos ctx \<le> 3"
    and "emitted ctx = take (nat (ctx_pos ctx)) dir_entries"
  shows "ret = 0 \<and> ctx_pos ctx \<le> ctx_pos ctx' \<and> ctx_pos ctx' \<le> 3 \<and>
    emitted ctx' = take (nat (ctx_pos ctx')) dir_entries \<and> (ctx_pos ctx' < 3 \<longrightarrow> \<not> accept (ctx_pos ctx'))"
proof -
  consider "ctx_pos ctx = 0" | "ctx_pos ctx = 1" | "ctx_pos ctx = 2" | "ctx_pos ctx = 3"
    using assms(2,3) by linarith
  then show ?thesis
    by cases (use assms(1,4) in \<open>auto simp: onefilefs_iterate_def emit_at_def dir_emit_def
      dir_entries_def FILENAME_MAXLEN_def SINGLEFILEFS_ROOT_INODE_NUMBER_def REFMON_FILE_LOG_def
      SINGLEFILEFS_FILE_INODE_NUMBER_def split: if_splits\<close>)
qed

subsection \<open>Lookups\<close>

lemma onefilefs_lookup_new:
  assumes "icache s 1 = None" and "iget_ok env" and "bread_ok env 1"
  shows "onefilefs_lookup env REFMON_FILE_LOG child s =
    Some (Child_dentry, Some 1, s\<lparr>icache := (icache s)(1 \<mapsto>
      \<lparr>i_size = to_s64 (inode_file_size (device s 1)), i_mode = S_IFREG + REFMONFS_PERMISSIONS,
       i_new = False\<rparr>)\<rparr>)"
  using assms
  by (simp add: onefilefs_lookup_def iget_locked_def sb_bread_def SINGLEFILEFS_INODES_BLOCK_NUMBER_def)

text \<open>An inode of the cache is found, but not attached to the entry that asked for it.\<close>

lemma onefilefs_lookup_cached:
  assumes "icache s 1 = Some ino" and "\<not> i_new ino"
  shows "onefilefs_lookup env REFMON_FILE_LOG child s = Some (Child_dentry, child, s)"
  using assms by (simp add: onefilefs_lookup_def iget_locked_def)

lemma onefilefs_lookup_other:
  "name \<noteq> REFMON_FILE_LOG \<Longrightarrow> onefilefs_lookup env name child s = Some (Null_dentry, child, s)"
  by (simp add: onefilefs_lookup_def)

text \<open>After a failed read of the inode's block, a kept inode makes the next lookup wait for ever.\<close>

lemma onefilefs_lookup_stuck:
  assumes "icache s 1 = None" and "iget_ok env" and "\<not> bread_ok env 1" and "iput_keeps env"
    and "onefilefs_lookup env REFMON_FILE_LOG child s = Some (ret, child', s')"
  shows "ret = Err_ptr (- EIO) \<and> onefilefs_lookup env' REFMON_FILE_LOG child' s' = None"
  using assms
  by (auto simp: onefilefs_lookup_def iget_locked_def sb_bread_def SINGLEFILEFS_INODES_BLOCK_NUMBER_def
      iput_new_def)


end
