(* ===== verification/Mkfs.thy ===== *)
theory Mkfs
  imports Onefilefs
begin

text \<open>
  Making and mounting the log's file system: \<open>io/refmonfs/singlefilemakefs.c\<close>, which writes the
  superblock, the inode and the first line of the file, and \<open>io/refmonfs/singlefilefs.c\<close>, whose
  \<open>singlefilefs_fill_super\<close> checks the superblock. The lemmas follow the bytes from the
  maker to a reader of the mounted file, and through an unmount.
\<close>

subsection \<open>The maker\<close>

definition file_body :: string where
  "file_body = ''tgid'' @ [CHR 0x09] @ ''tid'' @ [CHR 0x09, CHR 0x09] @ ''uid'' @
     [CHR 0x09, CHR 0x09] @ ''euid'' @ [CHR 0x09] @ ''path'' @ [CHR 0x09, CHR 0x09, CHR 0x09] @
     ''sha'' @ [CHR 0x0A]"

text \<open>
  What is outside: opening and writing the device, memory for the padding and the bytes it holds, and
  the fields that are written without being set.
\<close>

record mkfs_env =
  dev_open_ok :: bool
  write_ret :: "nat \<Rightarrow> nat \<Rightarrow> int"        \<comment> \<open>the n-th write, of so many bytes\<close>
  unset_u64 :: "nat \<Rightarrow> int"
  unset_bytes :: "nat \<Rightarrow> char"
  block_padding :: "string option"

record onefilefs_sb_info =
  version :: int
  sb_info_magic :: int
  block_size :: int
  inodes_count :: int
  free_blocks :: int
  sb_padding :: string

record onefilefs_inode =
  mode :: int
  mode_padding :: string
  inode_no :: int
  data_block_number :: int
  inode_size :: int

definition sb_image :: "onefilefs_sb_info \<Rightarrow> string" where
  "sb_image sb = le_bytes 8 (version sb) @ le_bytes 8 (sb_info_magic sb) @
     le_bytes 8 (block_size sb) @ le_bytes 8 (inodes_count sb) @ le_bytes 8 (free_blocks sb) @
     sb_padding sb"

definition inode_image :: "onefilefs_inode \<Rightarrow> string" where
  "inode_image ino = le_bytes 4 (mode ino) @ mode_padding ino @ le_bytes 8 (inode_no ino) @
     le_bytes 8 (data_block_number ino) @ le_bytes 8 (inode_size ino)"

text \<open>The device file being written: its bytes, the position, and the number of writes so far.\<close>

record dev_file =
  bytes :: string
  dev_pos :: nat
  writes :: nat

definition dev_write :: "mkfs_env \<Rightarrow> string \<Rightarrow> dev_file \<Rightarrow> int \<times> dev_file" where
  "dev_write env data d =
     (let ret = write_ret env (writes d) (length data);
          n = nat ret in
      (ret, d\<lparr>bytes := take (dev_pos d) (bytes d) @ take n data @ drop (dev_pos d + n) (bytes d),
              dev_pos := dev_pos d + n, writes := Suc (writes d)\<rparr>))"

text \<open>\<open>main\<close>: its value, and the device.\<close>

definition mkfs_sb :: "mkfs_env \<Rightarrow> onefilefs_sb_info" where
  "mkfs_sb env = \<lparr>version = 1, sb_info_magic = MAGIC, block_size = DEFAULT_BLOCK_SIZE,
     inodes_count = unset_u64 env 0, free_blocks = unset_u64 env 1,
     sb_padding = map (unset_bytes env) [0..<4056]\<rparr>"

definition mkfs_inode :: "mkfs_env \<Rightarrow> onefilefs_inode" where
  "mkfs_inode env = \<lparr>mode = S_IFREG, mode_padding = map (unset_bytes env) [0..<4],
     inode_no = SINGLEFILEFS_FILE_INODE_NUMBER, data_block_number = unset_u64 env 2,
     inode_size = int (strlen file_body)\<rparr>"

definition mkfs_main :: "mkfs_env \<Rightarrow> nat \<Rightarrow> dev_file \<Rightarrow> int \<times> dev_file" where
  "mkfs_main env argc d =
     (if argc \<noteq> 2 then (- 1, d)
      else if \<not> dev_open_ok env then (- 1, d)
      else let (ret, d1) = dev_write env (sb_image (mkfs_sb env)) d in
      if ret \<noteq> DEFAULT_BLOCK_SIZE then (ret, d1)
      else let (ret, d2) = dev_write env (inode_image (mkfs_inode env)) d1 in
      if ret \<noteq> 32 then (- 1, d2)
      else case block_padding env of
        None \<Rightarrow> (- 1, d2)
      | Some padding \<Rightarrow>
        let (ret, d3) = dev_write env padding d2 in
        if ret \<noteq> 4064 then (- 1, d3)
        else let (ret, d4) = dev_write env file_body d3 in
        if ret \<noteq> int (strlen file_body) then (- 1, d4)
        else (0, d4))"

subsection \<open>Mounting\<close>

text \<open>
  \<open>singlefilefs_fill_super\<close>. The test after reading the superblock is on the wrong variable, so a
  block that cannot be read crashes. The root is the inode with number 10.
\<close>

record super_block =
  s_magic :: int
  s_root :: "int option"

definition singlefilefs_fill_super ::
    "fsenv \<Rightarrow> super_block \<Rightarrow> onefs \<Rightarrow> (int \<times> super_block \<times> onefs) option" where
  "singlefilefs_fill_super env sb0 s = do {
     let sb = sb0\<lparr>s_magic := MAGIC\<rparr>;
     b_data \<leftarrow> sb_bread env s SB_BLOCK_NUMBER;
     if sb_magic b_data \<noteq> s_magic sb then Some (- EBADF, sb, s)
     else do {
       got \<leftarrow> iget_locked env s SINGLEFILEFS_ROOT_INODE_NUMBER;
       if got = No_inode then Some (- ENOMEM, sb, s)
       else
         let ino = \<lparr>i_size = (case got of Cached i \<Rightarrow> i_size i | _ \<Rightarrow> 0),
                    i_mode = S_IFDIR + REFMONFS_PERMISSIONS, i_new = False\<rparr> in
         if \<not> make_root_ok env
         then Some (- ENOMEM, sb, iput_new env SINGLEFILEFS_ROOT_INODE_NUMBER ino s)
         else Some (0, sb\<lparr>s_root := Some SINGLEFILEFS_ROOT_INODE_NUMBER\<rparr>,
           s\<lparr>icache := (icache s)(SINGLEFILEFS_ROOT_INODE_NUMBER \<mapsto> ino)\<rparr>)
     }
   }"

text \<open>A device file seen in blocks, and unmounting: the cache of inodes goes, the blocks stay.\<close>

definition image_block :: "string \<Rightarrow> int \<Rightarrow> string" where
  "image_block img b =
     map (\<lambda>i. let k = 4096 * nat b + i in if k < length img then img ! k else NUL) [0..<4096]"

definition fresh_mount :: "(int \<Rightarrow> string) \<Rightarrow> onefs" where
  "fresh_mount dev = \<lparr>device = dev, icache = Map.empty, refmonfs_mutex = False\<rparr>"

subsection \<open>From the maker to the reader\<close>

text \<open>A maker whose writes are complete.\<close>

definition mkfs_ok :: "mkfs_env \<Rightarrow> bool" where
  "mkfs_ok env \<longleftrightarrow> dev_open_ok env \<and> (\<forall>k n. write_ret env k n = int n) \<and>
     (\<exists>p. block_padding env = Some p \<and> length p = 4064)"

lemma image_lengths [simp]:
  "length (sb_image (mkfs_sb env)) = 4096" "length (inode_image (mkfs_inode env)) = 32"
  "length file_body = 31"
  by (simp_all add: sb_image_def mkfs_sb_def inode_image_def mkfs_inode_def file_body_def)

lemma dev_write_full:
  assumes "write_ret env (writes d) (length data) = int (length data)"
  shows "dev_write env data d = (int (length data),
    d\<lparr>bytes := take (dev_pos d) (bytes d) @ data @ drop (dev_pos d + length data) (bytes d),
      dev_pos := dev_pos d + length data, writes := Suc (writes d)\<rparr>)"
  using assms by (simp add: dev_write_def Let_def)

text \<open>A sequence of writes from the start puts their bytes one after the other.\<close>

lemma dev_write_next:
  assumes "bytes d = x @ drop (length x) img" and "dev_pos d = length x"
    and "write_ret env (writes d) (length data) = int (length data)"
  shows "\<exists>d'. dev_write env data d = (int (length data), d') \<and>
    bytes d' = (x @ data) @ drop (length (x @ data)) img \<and> dev_pos d' = length (x @ data)"
  unfolding dev_write_full [OF assms(3)] using assms(1,2) by (simp add: add.commute)

definition mkfs_prefix :: "mkfs_env \<Rightarrow> string" where
  "mkfs_prefix env = sb_image (mkfs_sb env) @ inode_image (mkfs_inode env) @ the (block_padding env)"

lemma mkfs_main_ok:
  assumes "mkfs_ok env" and "dev_pos d = 0"
  shows "\<exists>d'. mkfs_main env 2 d = (0, d') \<and>
    bytes d' = mkfs_prefix env @ file_body @ drop 8223 (bytes d)"
proof -
  obtain pad where pad: "block_padding env = Some pad" "length pad = 4064"
    using assms(1) by (auto simp: mkfs_ok_def)
  have w: "write_ret env k n = int n" for k n using assms(1) by (simp add: mkfs_ok_def)
  let ?sb = "sb_image (mkfs_sb env)" let ?ino = "inode_image (mkfs_inode env)"
  obtain d1 where 1: "dev_write env ?sb d = (4096, d1)" "bytes d1 = ?sb @ drop (length ?sb) (bytes d)"
    "dev_pos d1 = length ?sb"
    using dev_write_next [of d "[]" "bytes d" env ?sb] assms(2) w by auto
  obtain d2 where 2: "dev_write env ?ino d1 = (32, d2)" "dev_pos d2 = length (?sb @ ?ino)"
    "bytes d2 = (?sb @ ?ino) @ drop (length (?sb @ ?ino)) (bytes d)"
    using dev_write_next [OF 1(2,3) w, of ?ino] by auto
  obtain d3 where 3: "dev_write env pad d2 = (4064, d3)" "dev_pos d3 = length ((?sb @ ?ino) @ pad)"
    "bytes d3 = ((?sb @ ?ino) @ pad) @ drop (length ((?sb @ ?ino) @ pad)) (bytes d)"
    using dev_write_next [OF 2(3,2) w, of pad] pad(2) by auto
  obtain d4 where 4: "dev_write env file_body d3 = (31, d4)"
    "bytes d4 = (((?sb @ ?ino) @ pad) @ file_body) @
      drop (length (((?sb @ ?ino) @ pad) @ file_body)) (bytes d)"
    using dev_write_next [OF 3(3,2) w, of file_body] by auto
  have "mkfs_main env 2 d = (0, d4)"
    using assms(1) 1(1) 2(1) 3(1) 4(1) pad(1)
    by (simp add: mkfs_main_def mkfs_ok_def DEFAULT_BLOCK_SIZE_def)
  then show ?thesis using 4(2) pad by (simp add: mkfs_prefix_def)
qed

lemma image_block_part:
  assumes "4096 * b + k \<le> length img" and "k \<le> 4096"
  shows "take k (image_block img (int b)) = take k (drop (4096 * b) img)"
  by (rule nth_equalityI) (use assms in \<open>simp_all add: image_block_def Let_def\<close>)

lemma wf_image [simp]: "wf_device (image_block img)"
  by (simp add: wf_device_def image_block_def)

lemma image_file_byte:
  "file_byte (image_block img) i = (if 8192 + i < length img then img ! (8192 + i) else NUL)"
proof -
  have "nat (int (i div 4096) + 2) = i div 4096 + 2" by simp
  moreover have "4096 * (i div 4096 + 2) + i mod 4096 = 8192 + i"
  proof -
    have "4096 * (i div 4096 + 2) + i mod 4096 = 8192 + (4096 * (i div 4096) + i mod 4096)" by simp
    then show ?thesis by simp
  qed
  ultimately show ?thesis by (simp add: file_byte_def image_block_def Let_def add.commute)
qed

text \<open>A made device: the two blocks in front, the first line, zeros.\<close>

definition made :: "(int \<Rightarrow> string) \<Rightarrow> bool" where
  "made dev \<longleftrightarrow> wf_device dev \<and> sb_magic (dev 0) = MAGIC \<and> inode_file_size (dev 1) = 31 \<and>
     file_bytes dev 0 31 = file_body"

lemma mkfs_made:
  assumes "mkfs_ok env" and "dev_pos d = 0" and "set (bytes d) \<subseteq> {NUL}"
    and "mkfs_main env 2 d = (ret, d')"
  shows "ret = 0 \<and> made (image_block (bytes d')) \<and>
    (\<forall>k\<ge>31. file_byte (image_block (bytes d')) k = NUL)"
proof -
  have ret: "ret = 0" and d': "bytes d' = mkfs_prefix env @ file_body @ drop 8223 (bytes d)"
    using mkfs_main_ok [OF assms(1,2)] assms(4) by auto
  let ?sb = "sb_image (mkfs_sb env)" and ?ino = "inode_image (mkfs_inode env)"
  obtain pad where pre: "mkfs_prefix env = ?sb @ ?ino @ pad" "length pad = 4064"
    using assms(1) by (auto simp: mkfs_ok_def mkfs_prefix_def)
  then have len: "length (mkfs_prefix env) = 8192" by simp
  have "take 16 (image_block (bytes d') 0) = take 16 ?sb"
    using image_block_part [of 0 16 "bytes d'"] by (simp add: d' pre)
  then have "drop 8 (take 16 (image_block (bytes d') 0)) = drop 8 (take 16 ?sb)" by simp
  then have "take 8 (drop 8 (image_block (bytes d') 0)) = take 8 (drop 8 ?sb)"
    by (simp add: drop_take)
  also have "\<dots> = le_bytes 8 MAGIC" by (simp add: sb_image_def mkfs_sb_def)
  finally have sb: "sb_magic (image_block (bytes d') 0) = MAGIC"
    by (simp add: sb_magic_def le_value_bytes MAGIC_def)
  have "take 32 (image_block (bytes d') 1) = ?ino"
    using image_block_part [of 1 32 "bytes d'"] by (simp add: d' pre)
  then have "drop 24 (take 32 (image_block (bytes d') 1)) = drop 24 ?ino" by simp
  then have "take 8 (drop 24 (image_block (bytes d') 1)) = drop 24 ?ino" by (simp add: drop_take)
  also have "\<dots> = le_bytes 8 31" by (simp add: inode_image_def mkfs_inode_def)
  finally have ino: "inode_file_size (image_block (bytes d') 1) = 31"
    by (simp add: inode_file_size_def le_value_bytes)
  have byte: "file_byte (image_block (bytes d')) i = (if i < 31 then file_body ! i else NUL)" for i
  proof -
    have "bytes d ! k = NUL" if "k < length (bytes d)" for k
      using assms(3) nth_mem [OF that] by blast
    then show ?thesis
      by (auto simp: image_file_byte d' nth_append len)
  qed
  then have "file_bytes (image_block (bytes d')) 0 31 = file_body"
    by (intro nth_equalityI) (simp_all add: file_bytes_def)
  then show ?thesis using ret sb ino byte by (simp add: made_def)
qed


text \<open>Mounting a device, and looking the log up in its root: the inode it is opened with.\<close>

definition open_log :: "fsenv \<Rightarrow> (int \<Rightarrow> string) \<Rightarrow> onefs option" where
  "open_log env dev = do {
     (ret, sb, s1) \<leftarrow> singlefilefs_fill_super env \<lparr>s_magic = 0, s_root = None\<rparr> (fresh_mount dev);
     (found, child, s2) \<leftarrow> onefilefs_lookup env REFMON_FILE_LOG None s1;
     if ret = 0 \<and> child = Some 1 then Some s2 else None
   }"

subsection \<open>The module of the file system\<close>

text \<open>
  Loading and unloading: the type of the file system is put on the kernel's list and taken off it,
  if the kernel agrees; \<open>ret\<close> is its answer. The messages are left out.
\<close>

definition onefilefs_type :: string where "onefilefs_type = ''singlefilefs''"

definition singlefilefs_init :: "int \<Rightarrow> string list \<Rightarrow> int \<times> string list" where
  "singlefilefs_init ret types = (ret, if ret = 0 then types @ [onefilefs_type] else types)"

definition singlefilefs_exit :: "int \<Rightarrow> string list \<Rightarrow> string list" where
  "singlefilefs_exit ret types = (if ret = 0 then remove1 onefilefs_type types else types)"

lemma init_exit:
  "onefilefs_type \<notin> set types \<Longrightarrow> singlefilefs_init r types = (0, types') \<Longrightarrow>
     singlefilefs_exit 0 types' = types"
  by (auto simp: singlefilefs_init_def singlefilefs_exit_def remove1_append split: if_splits)

text \<open>
  Mounting hands \<open>singlefilefs_fill_super\<close> to \<open>mount_bdev\<close>, a parameter: it opens the device and has
  a new super block filled; the result is an error or the super block with its root.
\<close>

type_synonym fill_super = "super_block \<Rightarrow> onefs \<Rightarrow> (int \<times> super_block \<times> onefs) option"
type_synonym bdev_mounter = "fill_super \<Rightarrow> onefs \<Rightarrow> ((int + super_block) \<times> onefs) option"

definition singlefilefs_mount :: "bdev_mounter \<Rightarrow> fsenv \<Rightarrow> onefs \<Rightarrow> ((int + super_block) \<times> onefs) option" where
  "singlefilefs_mount mount_bdev env s = mount_bdev (singlefilefs_fill_super env) s"

text \<open>The documented behaviour of \<open>mount_bdev\<close> on a device that can be opened and is not mounted.\<close>

definition empty_super :: super_block where "empty_super = \<lparr>s_magic = 0, s_root = None\<rparr>"

definition bdev_ok :: "bdev_mounter \<Rightarrow> bool" where
  "bdev_ok mount_bdev \<longleftrightarrow> (\<forall>fill s. mount_bdev fill s = do {
     (ret, sb, s') \<leftarrow> fill empty_super s;
     Some (if ret = 0 then Inr sb else Inl ret, s')
   })"

text \<open>Unmounting: \<open>kill_block_super\<close> drops what is cached of the device; the device stays.\<close>

definition singlefilefs_kill_superblock :: "onefs \<Rightarrow> onefs" where
  "singlefilefs_kill_superblock s = s\<lparr>icache := Map.empty\<rparr>"

lemma unmount_mount: "\<not> refmonfs_mutex s \<Longrightarrow> singlefilefs_kill_superblock s = fresh_mount (device s)"
  by (simp add: singlefilefs_kill_superblock_def fresh_mount_def)

lemma open_log_mount:
  assumes "bdev_ok mount_bdev"
  shows "open_log env dev = do {
     (root, s1) \<leftarrow> singlefilefs_mount mount_bdev env (fresh_mount dev);
     (found, child, s2) \<leftarrow> onefilefs_lookup env REFMON_FILE_LOG None s1;
     case root of Inl _ \<Rightarrow> None | Inr _ \<Rightarrow> if child = Some 1 then Some s2 else None
   }"
  using assms
  by (auto simp: singlefilefs_mount_def bdev_ok_def open_log_def empty_super_def Let_def
      split: bind_split prod.split)

subsection \<open>Opening the log on a made device\<close>

definition mount_ok :: "fsenv \<Rightarrow> bool" where
  "mount_ok env \<longleftrightarrow> iget_ok env \<and> make_root_ok env \<and> bread_ok env 0 \<and> bread_ok env 1"

lemma singlefilefs_fill_super_cases:
  assumes "icache s 10 = None"
  shows "singlefilefs_fill_super env sb s =
    (if \<not> bread_ok env 0 then None
     else if sb_magic (device s 0) \<noteq> MAGIC then Some (- EBADF, sb\<lparr>s_magic := MAGIC\<rparr>, s)
     else if \<not> iget_ok env then Some (- ENOMEM, sb\<lparr>s_magic := MAGIC\<rparr>, s)
     else let ino = \<lparr>i_size = 0, i_mode = S_IFDIR + REFMONFS_PERMISSIONS, i_new = False\<rparr> in
       if \<not> make_root_ok env then Some (- ENOMEM, sb\<lparr>s_magic := MAGIC\<rparr>, iput_new env 10 ino s)
       else Some (0, sb\<lparr>s_magic := MAGIC, s_root := Some 10\<rparr>, s\<lparr>icache := (icache s)(10 \<mapsto> ino)\<rparr>))"
  using assms
  by (simp add: singlefilefs_fill_super_def sb_bread_def iget_locked_def fs_constants Let_def)

lemma open_log_made:
  assumes "made dev" and "mount_ok env"
  shows "\<exists>s. open_log env dev = Some s \<and> device s = dev \<and> \<not> refmonfs_mutex s \<and>
    icache s 1 = Some \<lparr>i_size = 31, i_mode = S_IFREG + REFMONFS_PERMISSIONS, i_new = False\<rparr> \<and>
    file_text 1 s = file_body"
proof -
  define s1 where "s1 = (fresh_mount dev)\<lparr>icache := [10 \<mapsto>
    \<lparr>i_size = 0, i_mode = S_IFDIR + REFMONFS_PERMISSIONS, i_new = False\<rparr>]\<rparr>"
  have "singlefilefs_fill_super env \<lparr>s_magic = 0, s_root = None\<rparr> (fresh_mount dev) =
      Some (0, \<lparr>s_magic = MAGIC, s_root = Some 10\<rparr>, s1)"
    using singlefilefs_fill_super_cases [of "fresh_mount dev"] assms
    by (simp add: fresh_mount_def made_def mount_ok_def s1_def Let_def)
  moreover have "icache s1 1 = None" "device s1 = dev" "\<not> refmonfs_mutex s1"
    by (simp_all add: s1_def fresh_mount_def)
  moreover note onefilefs_lookup_new [OF this(1), of env None]
  ultimately show ?thesis
    using assms by (simp add: open_log_def made_def mount_ok_def file_text_def)
qed

lemma open_log_room:
  assumes "made dev" and "mount_ok env" and "\<forall>k\<ge>31. file_byte dev k = NUL" and "fits env (31 + n)"
    and "open_log env dev = Some s"
  shows "file_room env 1 s n"
proof -
  have "device s = dev" "\<not> refmonfs_mutex s"
    "icache s 1 = Some \<lparr>i_size = 31, i_mode = S_IFREG + REFMONFS_PERMISSIONS, i_new = False\<rparr>"
    using open_log_made [OF assms(1,2)] assms(5) by auto
  then show ?thesis
    using assms(1,3,4) unfolding file_room_def made_def
    by (intro conjI exI [of _ "\<lparr>i_size = 31, i_mode = S_IFREG + REFMONFS_PERMISSIONS, i_new = False\<rparr>"]
        exI [of _ 31]) simp_all
qed

text \<open>Reading back what was appended.\<close>

lemma file_room_read:
  assumes "file_room env (f_inode f) s n" and "\<And>k. uncopied env k = 0" and "0 < len" and "len \<le> 2 ^ 32"
  shows "read_all env f (int len) 0 s = Some (file_text (f_inode f) s)"
proof -
  obtain i sz where i: "icache s (f_inode f) = Some i" "i_size i = int sz" "fits env (sz + n)"
    "\<not> refmonfs_mutex s" "wf_device (device s)"
    using assms(1) by (auto simp: file_room_def)
  have "fits env sz" using fits_mono [OF i(3)] by simp
  from read_all_from [OF i(1,2,4,5) this assms(2-4), of 0] show ?thesis
    using i by (simp add: file_text_def)
qed

lemma appended_made:
  assumes "file_room env 1 s n" and "2 * length (concat lines) \<le> n"
    and "\<forall>x\<in>set lines. length x \<le> 4096" and "f_inode f = 1"
    and "made (device s)" and "file_text 1 s = file_body"
  shows "\<exists>s'. put_all (append_record env f) lines s = Some s' \<and> made (device s') \<and>
    file_room env 1 s' (n - 2 * length (concat lines))"
proof -
  have room: "file_room env (f_inode f) s n" using assms(1,4) by simp
  obtain s' rest where s': "put_all (append_record env f) lines s = Some s'"
    "file_text 1 s' = file_body @ rest" "file_room env 1 s' (n - 2 * length (concat lines))"
    "device s' 0 = device s 0" "device s' 1 = device s 1"
    using onefile.put_all_ok [OF room assms(2,3)] assms(4,6) by auto
  obtain i sz where i: "icache s' 1 = Some i" "i_size i = int sz" "wf_device (device s')"
    using s'(3) by (auto simp: file_room_def)
  have whole: "file_bytes (device s') 0 sz = file_body @ rest"
    using s'(2) i(1,2) by (simp add: file_text_def)
  have "31 \<le> sz" using arg_cong [OF whole, of length] by simp
  then have "file_bytes (device s') 0 31 = file_body"
    using whole file_bytes_take [of 31 "device s'" 0 sz] by simp
  then show ?thesis using s' i(3) assms(5) by (auto simp: made_def)
qed


end
