(* ===== verification/Logfile.thy ===== *)
theory Logfile
  imports Monitor Mkfs
begin

text \<open>
  From the blocked call to the line on the disk. A run is a reachable state with the events that led
  to it; every work and every line of the log goes back to a blocked call of the run. The lines are
  written through the file system of \<open>Onefilefs\<close>, whose interface \<open>append_file\<close> gives what a
  reader of the log finds.
\<close>

subsection \<open>What is put on record\<close>

definition exe_path :: "kenv \<Rightarrow> cptr" where
  "exe_path env = (case exe_dentry env of None \<Rightarrow> None | Some d \<Rightarrow> dentry_path_raw env d)"

lemma log_handler_works:
  assumes "log_handler env s = Some (ret, s')"
  shows "works s' = works s \<or> (\<exists>exe. exe_path env = Some exe \<and> works s' = works s @ [blocked_work env exe])"
proof -
  obtain ok1 m1 where 1: "kmalloc env GFP_ATOMIC (mem s) = (ok1, m1)" by force
  show ?thesis
  proof (cases ok1)
    case False
    then show ?thesis using assms 1 by (auto simp: log_handler_def)
  next
    case True
    then obtain d p m2 where d: "exe_dentry env = Some d"
      and 2: "extract_path_from_dentry env d m1 = Some (p, m2)"
      using assms 1 by (auto simp: log_handler_def bind_eq_Some_conv)
    obtain ok3 m3 where 3: "kmalloc env GFP_ATOMIC m2 = (ok3, m3)" by force
    obtain ok4 m4 where 4: "kmalloc env GFP_ATOMIC m3 = (ok4, m4)" by force
    show ?thesis
    proof (cases p)
      case None
      then show ?thesis using assms 1 2 d True by (auto simp: log_handler_def)
    next
      case (Some q)
      then obtain exe where "dentry_path_raw env d = Some exe" "q = stale env exe"
        using extract_path_sound [of env d m1 q m2] 2 by auto
      then show ?thesis
        using assms 1 2 3 4 d True Some
        by (auto simp: log_handler_def exe_path_def blocked_work_def split: if_splits)
    qed
  qed
qed

lemma leave_call_works:
  assumes "leave_call env regs rv s = Some (r, s')"
  shows "works s' = works s \<or> (\<exists>exe. exe_path env = Some exe \<and> works s' = works s @ [blocked_work env exe])"
proof -
  obtain s1 c s2 where "spin_probing_lock (s\<lparr>mem := preempt_disable (mem s)\<rparr>) = Some s1"
    and h: "log_handler env s1 = Some (c, s2)" and "works s' = works (spin_probing_unlock s2)"
    using assms
    by (auto simp: leave_call_def krp_hook_tail_def regs_set_return_value_def bind_eq_Some_conv
        split: if_splits)
  then have "works s1 = works s" "works s' = works s2"
    by (auto simp: spin_defs split: if_splits)
  then show ?thesis using log_handler_works [OF h] by auto
qed

lemma probed_call_works:
  assumes "wf_entries (registry (the_inst s))" and "probed_call env p in_use regs rv s = Some (r, s')"
  shows "works s' = works s \<or>
    r = minus_EACCES \<and> (\<exists>exe. exe_path env = Some exe \<and> works s' = works s @ [blocked_work env exe])"
proof -
  obtain caught s1 where 1: "enter_call env p in_use regs s = Some (caught, s1)"
    and 2: "(if caught then leave_call env regs rv s1 else Some (rv, s1)) = Some (r, s')"
    using assms(2) by (auto simp: probed_call_def bind_eq_Some_conv)
  have s1: "works s1 = works s" using enter_call_frame(1) [OF assms(1) 1] by auto
  show ?thesis
  proof (cases caught)
    case True
    then have "leave_call env regs rv s1 = Some (r, s')" using 2 by simp
    from leave_call_works [OF this] leave_call_frame(1) [OF this] s1 show ?thesis by simp
  qed (use 2 s1 in auto)
qed

text \<open>The line a run of \<open>defer\<close> writes, if any.\<close>

lemma defer_work_log:
  assumes "defer_work env w s = Some s'"
  shows "works s' = works s \<and> (log_file s' = log_file s \<or>
    (\<exists>h m m'. hashgen_filecont env (prog_path w) m = Some (Some h, m') \<and>
       log_file s' = log_file s @ [take 515 (log_line w h)]))"
proof -
  obtain h m1 where h: "hashgen_filecont env (prog_path w) (preempt_disable (mem s)) = Some (h, m1)"
    using assms by (auto simp: defer_work_def bind_eq_Some_conv)
  show ?thesis
  proof (cases h)
    case None
    then show ?thesis using assms h by (auto simp: defer_work_def)
  next
    case (Some hash)
    then have "works s' = works s \<and> (log_file s' = log_file s \<or>
        log_file s' = log_file s @ [take 515 (log_line w hash)])"
      using assms h
      by (auto simp: defer_work_def snprintf_def REFMON_LOGLEN_def Let_def split: if_splits)
    then show ?thesis using h Some by blast
  qed
qed

text \<open>Every other event leaves works and log alone.\<close>

lemma step_audit:
  assumes "step env s e r s'" and "wf_entries (registry (the_inst s))"
  shows "works s' = works s \<and> log_file s' = log_file s \<or>
    (\<exists>p n regs rv exe. e = Probed_call p n regs rv \<and> r = Value minus_EACCES \<and>
       exe_path env = Some exe \<and> works s' = works s @ [blocked_work env exe] \<and>
       log_file s' = log_file s) \<or>
    (\<exists>w ws ws'. e = Deferred w \<and> works s = ws @ w # ws' \<and> works s' = ws @ ws' \<and>
       (log_file s' = log_file s \<or>
        (\<exists>h m m'. hashgen_filecont env (prog_path w) m = Some (Some h, m') \<and>
           log_file s' = log_file s @ [take 515 (log_line w h)])))"
  using assms(1)
proof cases
  case (set_state u r)
  then show ?thesis using set_state_cases [of env u s r s'] by auto
next
  case (reconf_add u w r)
  then have "reg_frame s s'" using call_frames(1) by (simp add: sys_calls)
  then show ?thesis by (auto simp: reg_frame_def)
next
  case (reconf_rm u w r)
  then have "reg_frame s s'" using call_frames(2) by (simp add: sys_calls)
  then show ?thesis by (auto simp: reg_frame_def)
next
  case (flush w r)
  then have "reg_frame s s'" using call_frames(3) by (simp add: sys_calls)
  then show ?thesis by (auto simp: reg_frame_def)
next
  case (probed p n regs rv v)
  have "log_file s' = log_file s"
    using probed_call_frame(1) [OF assms(2) probed(3)] by auto
  then show ?thesis using probed probed_call_works [OF assms(2) probed(3)] by blast
next
  case (deferred ws w ws')
  then show ?thesis using defer_work_log [OF deferred(4)] by auto
next
  case (read_proc n pos name r out pos')
  then have "s' = s" using read_proc_frame by blast
  then show ?thesis by simp
qed

subsection \<open>Runs with their events\<close>

inductive run :: "(kenv \<Rightarrow> bool) \<Rightarrow> ksys \<Rightarrow> (kenv \<times> event \<times> outcome) list \<Rightarrow> ksys \<Rightarrow> bool" for W s0 where
  start: "W env \<Longrightarrow> just_loaded s0 \<Longrightarrow> init_module env s0 = Some (0, s) \<Longrightarrow> run W s0 [] s"
| extend: "run W s0 tr s \<Longrightarrow> W env \<Longrightarrow> step env s e r s' \<Longrightarrow> run W s0 (tr @ [(env, e, r)]) s'"

lemma run_reachable: "run W s0 tr s \<Longrightarrow> reachable W s0 s"
  by (induction rule: run.induct) (auto intro: reachable.intros)

lemma reachable_run: "reachable W s0 s \<Longrightarrow> \<exists>tr. run W s0 tr s"
proof (induction rule: reachable.induct)
  case (loaded env s)
  then show ?case using run.start by blast
next
  case (event s env e r s')
  then show ?case using run.extend by blast
qed

text \<open>A work of a call that was blocked in the run, and a line that such a work wrote.\<close>

definition blocked_in :: "(kenv \<times> event \<times> outcome) list \<Rightarrow> log_dataset \<Rightarrow> bool" where
  "blocked_in tr w \<longleftrightarrow> (\<exists>env p n regs rv exe.
     (env, Probed_call p n regs rv, Value minus_EACCES) \<in> set tr \<and> exe_path env = Some exe \<and>
     w = blocked_work env exe)"

definition logged_in :: "(kenv \<times> event \<times> outcome) list \<Rightarrow> string \<Rightarrow> bool" where
  "logged_in tr x \<longleftrightarrow> (\<exists>w env h m m'. blocked_in tr w \<and> (env, Deferred w, Done) \<in> set tr \<and>
     hashgen_filecont env (prog_path w) m = Some (Some h, m') \<and> x = take 515 (log_line w h))"

lemma blocked_inI:
  "(env, Probed_call p n regs rv, Value minus_EACCES) \<in> set tr \<Longrightarrow> exe_path env = Some exe \<Longrightarrow>
     blocked_in tr (blocked_work env exe)"
  unfolding blocked_in_def by blast

lemma blocked_in_longer: "blocked_in tr w \<Longrightarrow> blocked_in (tr @ tr') w"
proof -
  assume "blocked_in tr w"
  then obtain env p n regs rv exe where
    "(env, Probed_call p n regs rv, Value minus_EACCES) \<in> set tr"
    "exe_path env = Some exe" "w = blocked_work env exe"
    unfolding blocked_in_def by blast
  then show ?thesis using blocked_inI [of env p n regs rv "tr @ tr'" exe] by simp
qed

lemma logged_in_longer: "logged_in tr x \<Longrightarrow> logged_in (tr @ tr') x"
proof -
  assume "logged_in tr x"
  then obtain w env h m m' where "blocked_in tr w" "(env, Deferred w, Done) \<in> set tr"
    "hashgen_filecont env (prog_path w) m = Some (Some h, m')" "x = take 515 (log_line w h)"
    unfolding logged_in_def by blast
  moreover have "(env, Deferred w, Done) \<in> set (tr @ tr')" using calculation(2) by simp
  ultimately show ?thesis using blocked_in_longer unfolding logged_in_def by blast
qed

lemma init_audit:
  assumes "world h env" and "just_loaded s0" and "init_module env s0 = Some (0, s)"
  shows "works s = [] \<and> log_file s = log_file s0"
proof -
  obtain slots ni m where "s = ready_state env slots ni m s0" using world_load [OF assms] by blast
  then show ?thesis
    using assms(2) by (simp add: just_loaded_def ready_state_def installed_state_def)
qed

lemma run_audit:
  assumes "run (world h) s0 tr s"
  shows "(\<forall>w\<in>set (works s). blocked_in tr w) \<and>
    (\<exists>xs. log_file s = log_file s0 @ xs \<and> (\<forall>x\<in>set xs. logged_in tr x \<and> length x \<le> 515))"
  using assms
proof (induction rule: run.induct)
  case (start env s)
  then show ?case using init_audit by simp
next
  case (extend tr s env e r s')
  have "monitor_inv h s" using safety.always [OF run_reachable [OF extend.hyps(1)]] .
  then have wf: "wf_entries (registry (the_inst s))" by (simp add: monitor_inv_def)
  let ?tr = "tr @ [(env, e, r)]"
  obtain xs where xs: "log_file s = log_file s0 @ xs" "\<forall>x\<in>set xs. logged_in tr x \<and> length x \<le> 515"
    using extend.IH by blast
  then have old: "\<forall>x\<in>set xs. logged_in ?tr x \<and> length x \<le> 515" "\<forall>w\<in>set (works s). blocked_in ?tr w"
    using extend.IH blocked_in_longer logged_in_longer by blast+
  from step_audit [OF extend.hyps(3) wf] show ?case
  proof (elim disjE exE conjE)
    assume "works s' = works s" "log_file s' = log_file s"
    then show ?thesis using xs(1) old by auto
  next
    fix p n regs rv exe
    assume e: "e = Probed_call p n regs rv" "r = Value minus_EACCES" "exe_path env = Some exe"
      and s': "works s' = works s @ [blocked_work env exe]" "log_file s' = log_file s"
    have "blocked_in ?tr (blocked_work env exe)" using blocked_inI [of env p n regs rv ?tr exe] e by simp
    then show ?thesis using xs(1) old s' by auto
  next
    fix w ws ws'
    assume s': "works s = ws @ w # ws'" "works s' = ws @ ws'" "log_file s' = log_file s"
    then show ?thesis using xs(1) old by auto
  next
    fix w ws ws' h m m'
    assume e: "e = Deferred w" and s': "works s = ws @ w # ws'" "works s' = ws @ ws'"
      and hash: "hashgen_filecont env (prog_path w) m = Some (Some h, m')"
      and l: "log_file s' = log_file s @ [take 515 (log_line w h)]"
    have "r = Done" using extend.hyps(3) e by auto
    moreover have "blocked_in ?tr w" using old(2) s'(1) by simp
    ultimately have "logged_in ?tr (take 515 (log_line w h))"
      unfolding logged_in_def using e hash by fastforce
    then have "\<forall>x\<in>set (xs @ [take 515 (log_line w h)]). logged_in ?tr x \<and> length x \<le> 515"
      using old(1) by auto
    moreover have "log_file s' = log_file s0 @ xs @ [take 515 (log_line w h)]" using l xs(1) by simp
    ultimately show ?thesis using old(2) s' by auto
  qed
qed

subsection \<open>The log on the disk\<close>

text \<open>
  The lines of a run, written to a made and mounted device: a reader finds the first line and then
  each line of the log, whole and in order, with NULs only where a block was filled up.
\<close>

lemma log_on_device:
  assumes "made dev" and "\<forall>k\<ge>31. file_byte dev k = NUL" and "mount_ok env"
    and "\<And>k. uncopied env k = 0" and "fits env (31 + 2 * length (concat xs))"
    and "\<forall>x\<in>set xs. length x \<le> 4096" and "f_inode f = 1" and "0 < len" and "len \<le> 2 ^ 32"
  shows "\<exists>fs fs' ks. open_log env dev = Some fs \<and> put_all (append_record env f) xs fs = Some fs' \<and>
    length ks = length xs \<and> made (device fs') \<and>
    read_all env f (int len) 0 fs' =
      Some (file_body @ concat (map2 (\<lambda>k x. replicate k NUL @ x) ks xs))"
proof -
  obtain fs where fs: "open_log env dev = Some fs" "device fs = dev" "file_text 1 fs = file_body"
    using open_log_made [OF assms(1,3)] by blast
  have room: "file_room env 1 fs (2 * length (concat xs))"
    by (rule open_log_room [OF assms(1,3,2,5) fs(1)])
  then have room_f: "file_room env (f_inode f) fs (2 * length (concat xs))" using assms(7) by simp
  obtain fs' ks where fs': "put_all (append_record env f) xs fs = Some fs'" "length ks = length xs"
    "file_text 1 fs' = file_text 1 fs @ concat (map2 (\<lambda>k x. replicate k NUL @ x) ks xs)"
    using onefile.put_all_ok [OF room_f order.refl assms(6)] assms(7) by auto
  have kept: "made (device fs') \<and> file_room env 1 fs' (2 * length (concat xs) - 2 * length (concat xs))"
    using appended_made [OF room order.refl assms(6,7)] fs(2,3) assms(1) fs'(1) by auto
  then have "read_all env f (int len) 0 fs' = Some (file_text 1 fs')"
    using file_room_read [of env f fs', OF _ assms(4,8,9)] assms(7) by auto
  then show ?thesis using fs fs' kept by auto
qed


end
