(* ===== verification/User.thy ===== *)
theory User
  imports Module
begin

text \<open>
  \<open>user/\<close>: the command line program. It reads the numbers of the system calls from
  \<open>/proc/refmon-syscallcodes\<close>, calls one, and turns \<open>errno\<close> into a message and an exit status.
  The C library is modelled as far as it is used: \<open>fscanf\<close> with \<open>"%d\n"\<close>, \<open>fgets\<close>, and the wrapper
  \<open>syscall\<close>; \<open>getopt_long\<close> and \<open>main\<close> are in theory \<open>Options\<close>. What is printed is a list of texts, one
  for each \<open>printf\<close> or \<open>perror\<close>, without their last newline and without what \<open>perror\<close> adds.
\<close>

subsection \<open>Reading the numbers of the calls\<close>

definition isspace :: "char \<Rightarrow> bool" where
  "isspace c \<longleftrightarrow> of_char c \<in> {32, 9, 10, 11, 12, 13 :: nat}"

definition isdigit :: "char \<Rightarrow> bool" where
  "isdigit c \<longleftrightarrow> (48 :: nat) \<le> of_char c \<and> of_char c < (58 :: nat)"

definition dec_value :: "string \<Rightarrow> nat" where
  "dec_value ds = foldl (\<lambda>n c. 10 * n + (of_char c - 48)) 0 ds"

text \<open>\<open>%d\<close>: the number and the rest of the input, for a number that fits an \<open>int\<close>.\<close>

definition scan_d :: "string \<Rightarrow> (int \<times> string) option" where
  "scan_d s =
     (let t = dropWhile isspace s;
          neg = (take 1 t = ''-'');
          u = (if take 1 t = ''-'' \<or> take 1 t = ''+'' then tl t else t);
          ds = takeWhile isdigit u
      in if ds = [] then None
         else Some (if neg then - int (dec_value ds) else int (dec_value ds), dropWhile isdigit u))"

abbreviation (input) SC_NO :: nat where "SC_NO \<equiv> 4"
abbreviation (input) SC_ORDER_SET_STATE :: nat where "SC_ORDER_SET_STATE \<equiv> 0"
abbreviation (input) SC_ORDER_RECONF_ADD :: nat where "SC_ORDER_RECONF_ADD \<equiv> 1"
abbreviation (input) SC_ORDER_RECONF_RM :: nat where "SC_ORDER_RECONF_RM \<equiv> 2"
abbreviation (input) SC_ORDER_FLUSH :: nat where "SC_ORDER_FLUSH \<equiv> 3"

text \<open>The loop of \<open>get_syscall_index\<close>; the newline of the format skips any white space.\<close>

fun scan_codes :: "nat \<Rightarrow> string \<Rightarrow> int list option" where
  "scan_codes 0 s = Some []"
| "scan_codes (Suc n) s =
     (case scan_d s of
        None \<Rightarrow> None
      | Some (i, rest) \<Rightarrow> map_option ((#) i) (scan_codes n (dropWhile isspace rest)))"

text \<open>\<open>file\<close> is what the proc file holds, \<^term>\<open>None\<close> when it cannot be opened.\<close>

definition get_syscall_index :: "cptr \<Rightarrow> nat \<Rightarrow> int" where
  "get_syscall_index file index =
     (case file of
        None \<Rightarrow> - 1
      | Some text \<Rightarrow>
          (case scan_codes SC_NO text of
             None \<Rightarrow> - EINVAL
           | Some codes \<Rightarrow> codes ! index))"

text \<open>What it prints when it fails.\<close>

definition syscall_index_errors :: "cptr \<Rightarrow> string list" where
  "syscall_index_errors file =
     (case file of
        None \<Rightarrow> [''Error while trying to open syscall codes proc file'']
      | Some text \<Rightarrow>
          if scan_codes SC_NO text = None then [''Error while reading from syscall codes proc file''] else [])"

subsection \<open>System calls from user space\<close>

text \<open>The kernel calls what the table holds; \<open>other\<close> stands for all the other system calls.\<close>

definition dispatch ::
    "kenv \<Rightarrow> (u64 \<Rightarrow> ksys \<Rightarrow> (int \<times> ksys) option) \<Rightarrow> int \<Rightarrow> cptr \<Rightarrow> cptr \<Rightarrow> ksys \<Rightarrow> (int \<times> ksys) option" where
  "dispatch env other nr a b s =
     (let f = sct s nr in
      if f = sc_addr_set_state env then sys_set_state env a s
      else if f = sc_addr_reconf_add env then sys_reconf_add env a b s
      else if f = sc_addr_reconf_rm env then sys_reconf_rm env a b s
      else if f = sc_addr_flush env then sys_flush env a s
      else other f s)"

text \<open>The wrapper: an error goes to \<open>errno\<close>, which a success leaves alone.\<close>

definition libc_syscall :: "int \<Rightarrow> int \<Rightarrow> int \<times> int" where
  "libc_syscall raw errno = (if - 4096 < raw \<and> raw < 0 then (- 1, - raw) else (raw, errno))"

text \<open>The last lines of all commands: \<open>switch (-errno)\<close> decides, not the return value.\<close>

definition exit_of_errno :: "int \<Rightarrow> int" where
  "exit_of_errno errno = (if - errno = 0 then 0 else - errno)"

type_synonym command_result = "(int \<times> string list) \<times> ksys"

text \<open>What a call prints: one line for any failure, and one for the value of \<open>errno\<close>.\<close>

definition call_report :: "int \<Rightarrow> string \<Rightarrow> string list" where
  "call_report ret msg =
     (if ret \<noteq> 0 then [''An error occurred while attempting syscall:'', msg] else [msg])"

definition set_state_message :: "string \<Rightarrow> int \<Rightarrow> string" where
  "set_state_message new_state errno =
     (if - errno = 0 then ''State changed to '' @ new_state @ ''.''
      else if - errno = - EINVAL
      then ''Invalid parameter. Please make sure the state specified is either one of the followings: OFF ON REC-OFF REC-ON''
      else if - errno = - EACCES then ''Access denied. This operation requires you to be root.''
      else ''Unexpected error'')"

definition cmd_set_state ::
    "kenv \<Rightarrow> (u64 \<Rightarrow> ksys \<Rightarrow> (int \<times> ksys) option) \<Rightarrow> cptr \<Rightarrow> int \<Rightarrow> string \<Rightarrow> ksys \<Rightarrow> command_result option" where
  "cmd_set_state env other file errno new_state s =
     (let syscall_index = get_syscall_index file SC_ORDER_SET_STATE in
      if syscall_index < 0
      then Some ((syscall_index, syscall_index_errors file @
        [''Error while trying to get syscall code for _set_state'']), s)
      else do {
        (raw, s') \<leftarrow> dispatch env other syscall_index (Some new_state) None s;
        let (ret, errno') = libc_syscall raw errno;
        Some ((exit_of_errno errno', call_report ret (set_state_message new_state errno')), s')
      })"

definition reconf_message :: "string \<Rightarrow> int \<Rightarrow> string \<Rightarrow> int \<Rightarrow> string" where
  "reconf_message done_msg code msg errno =
     (if - errno = 0 then done_msg
      else if - errno = - EINVAL
      then ''Invalid parameter. Please check again your password and the path you submitted.''
      else if - errno = - EACCES
      then ''Access denied. Either you are non-root or the password you prompted is wrong.''
      else if - errno = - ENOMEM then ''Memory error while executing syscall.''
      else if - errno = code then msg
      else if - errno = - EPERM
      then ''Operation not permitted. RefMon is in a non-reconfigurable state. Please change the state to either REC-OFF or REC-ON.''
      else ''Unexpected error'')"

definition cmd_reconf_add ::
    "kenv \<Rightarrow> (u64 \<Rightarrow> ksys \<Rightarrow> (int \<times> ksys) option) \<Rightarrow> cptr \<Rightarrow> int \<Rightarrow> string \<Rightarrow> string \<Rightarrow> ksys \<Rightarrow>
       command_result option" where
  "cmd_reconf_add env other file errno p pw s =
     (let syscall_index = get_syscall_index file SC_ORDER_RECONF_ADD in
      if syscall_index < 0
      then Some ((syscall_index, syscall_index_errors file @
        [''Error while trying to get syscall code for reconf_add'']), s)
      else do {
        (raw, s') \<leftarrow> dispatch env other syscall_index (Some p) (Some pw) s;
        let (ret, errno') = libc_syscall raw errno;
        Some ((exit_of_errno errno', call_report ret
          (reconf_message (''Path '' @ p @ '' ADDED to the reference monitor.'') (- EEXIST)
             ''The path is already registered.'' errno')), s')
      })"

definition cmd_reconf_rm ::
    "kenv \<Rightarrow> (u64 \<Rightarrow> ksys \<Rightarrow> (int \<times> ksys) option) \<Rightarrow> cptr \<Rightarrow> int \<Rightarrow> string \<Rightarrow> string \<Rightarrow> ksys \<Rightarrow>
       command_result option" where
  "cmd_reconf_rm env other file errno p pw s =
     (let syscall_index = get_syscall_index file SC_ORDER_RECONF_RM in
      if syscall_index < 0
      then Some ((syscall_index, syscall_index_errors file @
        [''Error while trying to get syscall code for reconf_rm'']), s)
      else do {
        (raw, s') \<leftarrow> dispatch env other syscall_index (Some p) (Some pw) s;
        let (ret, errno') = libc_syscall raw errno;
        Some ((exit_of_errno errno', call_report ret
          (reconf_message (''Path '' @ p @ '' REMOVED from the reference monitor.'') (- ENOENT)
             ''The path is not registered.'' errno')), s')
      })"

definition cmd_flush ::
    "kenv \<Rightarrow> (u64 \<Rightarrow> ksys \<Rightarrow> (int \<times> ksys) option) \<Rightarrow> cptr \<Rightarrow> int \<Rightarrow> string \<Rightarrow> ksys \<Rightarrow> command_result option" where
  "cmd_flush env other file errno pw s =
     (let syscall_index = get_syscall_index file SC_ORDER_FLUSH in
      if syscall_index < 0
      then Some ((syscall_index, syscall_index_errors file @
        [''Error while trying to get syscall code for flush'']), s)
      else do {
        (raw, s') \<leftarrow> dispatch env other syscall_index (Some pw) None s;
        let (ret, errno') = libc_syscall raw errno;
        Some ((exit_of_errno errno', call_report ret
          (if - errno' = 0 then ''Registry flushed. [*** REMEMBER: YOU ARE IN TEST MODE ***]''
           else ''Unexpected error'')), s')
      })"


subsection \<open>Printing the proc files\<close>

text \<open>The C library's side of a command.\<close>

record uenv =
  test_build :: bool                  \<comment> \<open>compiled with \<open>-DTEST\<close>\<close>
  getpass :: cptr                     \<comment> \<open>what the user types, None on an error\<close>
  calloc_ok :: bool
  popen_cat :: "string \<Rightarrow> cptr"       \<comment> \<open>what \<open>cat\<close> of a file prints, None if it cannot run\<close>
  pclose_ok :: bool
  u_errno :: int                      \<comment> \<open>\<open>errno\<close> after the last call\<close>

abbreviation (input) PIPE_BUF :: nat where "PIPE_BUF \<equiv> 4096"

definition PROC_USER_STATE_FILE :: string where "PROC_USER_STATE_FILE = ''/proc/refmon-state''"
definition PROC_USER_LIST_FILE :: string where "PROC_USER_LIST_FILE = ''/proc/refmon-list''"

text \<open>\<open>fgets\<close> with a buffer of \<open>n\<close>: up to and with a newline, at most \<open>n - 1\<close> bytes.\<close>

fun fgets :: "nat \<Rightarrow> string \<Rightarrow> string \<times> string" where
  "fgets (Suc (Suc n)) (c # cs) =
     (if c = CHR 0x0A then ([c], cs) else let (l, r) = fgets (Suc n) cs in (c # l, r))"
| "fgets _ s = ([], s)"

lemma fgets_split: "fgets n s = (l, r) \<Longrightarrow> s = l @ r"
  by (induction n s arbitrary: l r rule: fgets.induct) (auto split: if_splits prod.splits)

lemma fgets_progress: "1 < n \<Longrightarrow> s \<noteq> [] \<Longrightarrow> fst (fgets n s) \<noteq> []"
  by (cases "(n, s)" rule: fgets.cases) (auto split: prod.split)

text \<open>The loop of \<open>read_procfile_from_user\<close>: what it prints.\<close>

function print_lines :: "string \<Rightarrow> string" where
  "print_lines s =
     (if s = [] then [] else let (l, r) = fgets PIPE_BUF s in l @ print_lines r)"
  by auto
termination
proof (relation "measure length")
  fix s :: string and x l r assume *: "s \<noteq> []" "x = fgets PIPE_BUF s" "(l, r) = x"
  then have eq: "fgets PIPE_BUF s = (l, r)" by simp
  then have "l \<noteq> []" using fgets_progress [of PIPE_BUF s] *(1) by simp
  then show "(r, s) \<in> measure length" using fgets_split [OF eq] by simp
qed simp

declare print_lines.simps [simp del]

text \<open>The return value and what is printed.\<close>

definition read_procfile_from_user :: "uenv \<Rightarrow> string \<Rightarrow> int \<times> string" where
  "read_procfile_from_user u filepath =
     (if \<not> calloc_ok u then (- ENOMEM, ''Error while trying to allocate memory'' @ [CHR 0x0A])
      else case popen_cat u filepath of
        None \<Rightarrow> (- EIO, ''Error while reading procfile'' @ [CHR 0x0A])
      | Some text \<Rightarrow>
          if \<not> pclose_ok u
          then (- EIO, print_lines text @ ''Error while closing procfile'' @ [CHR 0x0A])
          else (0, print_lines text))"

definition cmd_print_state :: "uenv \<Rightarrow> int \<times> string" where
  "cmd_print_state u =
     (let (ret, out) = read_procfile_from_user u PROC_USER_STATE_FILE in
      if ret < 0 then (- u_errno u, out @ ''Error while reading proc state file'' @ [CHR 0x0A])
      else (0, out))"

definition cmd_print_registry :: "uenv \<Rightarrow> int \<times> string" where
  "cmd_print_registry u =
     (let (ret, out) = read_procfile_from_user u PROC_USER_LIST_FILE in
      if ret < 0 then (- ret, out @ ''Error while reading proc list file'' @ [CHR 0x0A])
      else (0, out))"

text \<open>\<open>cmd_opinfo\<close>, with its banner in UTF-8.\<close>

definition shades :: "nat \<Rightarrow> string" where
  "shades n = concat (replicate n [CHR 0xE2, CHR 0x96, CHR 0x91])"

definition opinfo_banner :: string where
  "opinfo_banner =
     shades 19 @ [CHR 0x0A] @
     shades 2 @ replicate 15 (CHR '' '') @ shades 2 @ [CHR 0x0A] @
     shades 2 @ ''  R e f M o n  '' @ shades 2 @ [CHR 0x0A] @
     shades 2 @ replicate 15 (CHR '' '') @ shades 2 @ [CHR 0x0A] @
     shades 19 @ [CHR 0x0A] @
     ''Info about current operations:'' @ [CHR 0x0A] @
     ''-----------------------------'' @ [CHR 0x0A] @
     ''State: ''"

definition cmd_opinfo :: "uenv \<Rightarrow> int \<times> string" where
  "cmd_opinfo u =
     (let (ret, out1) = cmd_print_state u in
      if ret \<noteq> 0 then (ret, opinfo_banner @ out1)
      else let (ret, out2) = cmd_print_registry u;
               out = opinfo_banner @ out1 @ ''Pathlist:'' @ [CHR 0x0A] @ out2 in
      if ret \<noteq> 0 then (ret, out)
      else (0, out))"

definition ask_for_password :: "uenv \<Rightarrow> cptr" where
  "ask_for_password u = (if test_build u then Some ''ciao'' else getpass u)"

subsection \<open>The exit status\<close>

text \<open>What \<open>WEXITSTATUS\<close> gives for a program whose \<open>main\<close> returned \<open>ret\<close>.\<close>

definition exit_status :: "int \<Rightarrow> int" where
  "exit_status ret = ret mod 256"

subsection \<open>Numbers read back\<close>

lemma isdigit_digit_char [simp]: "d < 10 \<Longrightarrow> isdigit (digit_char d)"
  by (simp add: isdigit_def digit_char_def)

lemma dec_value_append: "dec_value (ds @ [c]) = 10 * dec_value ds + (of_char c - 48)"
  by (simp add: dec_value_def)

lemma dec_nat_read: "dec_value (dec_nat n) = n \<and> dec_nat n \<noteq> [] \<and> (\<forall>c\<in>set (dec_nat n). isdigit c)"
proof (induction n rule: dec_nat.induct)
  case (1 n)
  show ?case
  proof (cases "n < 10")
    case True
    then show ?thesis by (simp add: dec_nat.simps [of n] dec_value_def of_char_digit_char)
  next
    case False
    then have "dec_value (dec_nat n) = 10 * (n div 10) + n mod 10"
      using 1 by (simp add: dec_nat.simps [of n] dec_value_append of_char_digit_char)
    then show ?thesis using 1 False by (auto simp: dec_nat.simps [of n])
  qed
qed

lemma isdigit_simps [simp]:
  "\<not> isdigit CHR 0x0A" "\<not> isdigit CHR ''-''" "isdigit c \<Longrightarrow> \<not> isspace c" "isspace CHR 0x0A"
  "\<not> isspace CHR ''-''"
  by (auto simp: isdigit_def isspace_def)

lemma scan_d_dec_int: "scan_d (dec_int i @ CHR 0x0A # rest) = Some (i, CHR 0x0A # rest)"
proof -
  have *: "takeWhile isdigit (ds @ CHR 0x0A # rest) = ds \<and>
      dropWhile isdigit (ds @ CHR 0x0A # rest) = CHR 0x0A # rest" if "\<forall>c\<in>set ds. isdigit c" for ds
    using that by (simp add: takeWhile_append dropWhile_append)
  show ?thesis
  proof (cases "i < 0")
    case True
    note d = dec_nat_read [of "nat (- i)"]
    with True * [of "dec_nat (nat (- i))"] show ?thesis by (simp add: scan_d_def dec_int_def)
  next
    case False
    note d = dec_nat_read [of "nat i"]
    then obtain c ds where c: "dec_nat (nat i) = c # ds" "isdigit c" by (cases "dec_nat (nat i)") auto
    then have "c \<noteq> CHR ''-''" "c \<noteq> CHR ''+''" by (auto simp: isdigit_def)
    with False * [of "dec_nat (nat i)"] d c show ?thesis by (simp add: scan_d_def dec_int_def)
  qed
qed

lemma dropWhile_dec_int [simp]: "dropWhile isspace (dec_int i @ r) = dec_int i @ r"
proof -
  have "\<exists>c ds. dec_int i = c # ds \<and> \<not> isspace c"
    using dec_nat_read [of "nat i"] by (cases "dec_nat (nat i)") (auto simp: dec_int_def)
  then show ?thesis by auto
qed

text \<open>The program reads the numbers that the module prints.\<close>

lemma scan_codes_text:
  "scan_codes SC_NO (codes_text c) = Some [sc_code_set_state c, sc_code_reconf_add c,
     sc_code_reconf_rm c, sc_code_flush c]"
  by (simp add: codes_text_def scan_d_dec_int numeral_eq_Suc)

lemma print_lines_all: "print_lines s = s"
proof (induction s rule: print_lines.induct)
  case (1 s)
  show ?case
  proof (cases "s = []")
    case False
    obtain l r where lr: "fgets PIPE_BUF s = (l, r)" by force
    then have "print_lines r = r" using 1 [OF False] by simp
    then show ?thesis using False lr fgets_split [OF lr] by (subst print_lines.simps) simp
  qed (simp add: print_lines.simps)
qed

subsection \<open>A command is its system call\<close>

text \<open>The entries that the module prints hold its calls, at four different addresses.\<close>

definition calls_installed :: "kenv \<Rightarrow> ksys \<Rightarrow> bool" where
  "calls_installed env s \<longleftrightarrow>
     (let c = syscall_codes s in
      sct s (sc_code_set_state c) = sc_addr_set_state env \<and>
      sct s (sc_code_reconf_add c) = sc_addr_reconf_add env \<and>
      sct s (sc_code_reconf_rm c) = sc_addr_reconf_rm env \<and>
      sct s (sc_code_flush c) = sc_addr_flush env \<and>
      0 \<le> sc_code_set_state c \<and> 0 \<le> sc_code_reconf_add c \<and> 0 \<le> sc_code_reconf_rm c \<and>
      0 \<le> sc_code_flush c \<and> int_codes c) \<and>
     distinct (sc_addrs env)"

lemma calls_installed_ready:
  assumes "unused_slots s slots" and "distinct (sc_addrs env)"
  shows "calls_installed env (ready_state env slots ni m s)"
proof -
  have "unused_slots t slots" if "sct t = sct s" for t
    using assms(1) that by (simp add: unused_slots_def)
  note table = installed_state_table [OF this refl]
  have "0 \<le> slots ! k \<and> slots ! k < 256" if "k < 4" for k
    using assms(1) that nth_mem [of k slots] by (auto simp: unused_slots_def)
  from this [of 0] this [of 1] this [of 2] this [of 3] show ?thesis
    using table(1-4) assms(2)
    by (simp add: calls_installed_def ready_state_def installed_state_def int_codes_def)
qed

lemma calls_installed_same:
  assumes "calls_installed env s" and "same_install s t" and "sc_addrs env' = sc_addrs env"
  shows "calls_installed env' t"
  using assms by (simp add: calls_installed_def same_install_def sc_addrs_def Let_def)

lemma dispatch_installed:
  assumes "calls_installed env s"
  shows "dispatch env other (sc_code_set_state (syscall_codes s)) a b s = sys_set_state env a s"
    and "dispatch env other (sc_code_reconf_add (syscall_codes s)) a b s = sys_reconf_add env a b s"
    and "dispatch env other (sc_code_reconf_rm (syscall_codes s)) a b s = sys_reconf_rm env a b s"
    and "dispatch env other (sc_code_flush (syscall_codes s)) a b s = sys_flush env a s"
  using assms by (auto simp: calls_installed_def dispatch_def sc_addrs_def Let_def)

lemma get_syscall_index_text:
  "get_syscall_index (Some (codes_text c)) 0 = sc_code_set_state c"
  "get_syscall_index (Some (codes_text c)) 1 = sc_code_reconf_add c"
  "get_syscall_index (Some (codes_text c)) 2 = sc_code_reconf_rm c"
  "get_syscall_index (Some (codes_text c)) 3 = sc_code_flush c"
  by (simp_all add: get_syscall_index_def scan_codes_text)

lemma libc_syscall_exit:
  assumes "- 4096 < raw" and "raw \<le> 0"
  shows "exit_of_errno (snd (libc_syscall raw errno)) = (if raw = 0 then - errno else raw)"
  using assms by (auto simp: libc_syscall_def exit_of_errno_def)

text \<open>What a command returns and does to the module, for the numbers the module printed.\<close>

lemma cmd_set_state_call:
  assumes "calls_installed env s" and "sys_set_state env (Some st) s = Some (raw, s')"
    and "- 4096 < raw" and "raw \<le> 0"
  shows "\<exists>msgs. cmd_set_state env other (Some (codes_text (syscall_codes s))) errno st s =
    Some ((if raw = 0 then - errno else raw, msgs), s')"
proof -
  have "0 \<le> sc_code_set_state (syscall_codes s)"
    using assms(1) by (simp add: calls_installed_def Let_def)
  then show ?thesis
    using assms(2) dispatch_installed(1) [OF assms(1), of other "Some st" None]
      libc_syscall_exit [OF assms(3,4), of errno]
    by (simp add: cmd_set_state_def get_syscall_index_text split_beta)
qed

lemma cmd_reconf_add_call:
  assumes "calls_installed env s" and "sys_reconf_add env (Some p) (Some pw) s = Some (raw, s')"
    and "- 4096 < raw" and "raw \<le> 0"
  shows "\<exists>msgs. cmd_reconf_add env other (Some (codes_text (syscall_codes s))) errno p pw s =
    Some ((if raw = 0 then - errno else raw, msgs), s')"
proof -
  have "0 \<le> sc_code_reconf_add (syscall_codes s)"
    using assms(1) by (simp add: calls_installed_def Let_def)
  then show ?thesis
    using assms(2) dispatch_installed(2) [OF assms(1), of other "Some p" "Some pw"]
      libc_syscall_exit [OF assms(3,4), of errno] get_syscall_index_text(2)
    by (simp add: cmd_reconf_add_def split_beta)
qed

lemma cmd_reconf_rm_call:
  assumes "calls_installed env s" and "sys_reconf_rm env (Some p) (Some pw) s = Some (raw, s')"
    and "- 4096 < raw" and "raw \<le> 0"
  shows "\<exists>msgs. cmd_reconf_rm env other (Some (codes_text (syscall_codes s))) errno p pw s =
    Some ((if raw = 0 then - errno else raw, msgs), s')"
proof -
  have "0 \<le> sc_code_reconf_rm (syscall_codes s)"
    using assms(1) by (simp add: calls_installed_def Let_def)
  then show ?thesis
    using assms(2) dispatch_installed(3) [OF assms(1), of other "Some p" "Some pw"]
      libc_syscall_exit [OF assms(3,4), of errno] get_syscall_index_text(3)
    by (simp add: cmd_reconf_rm_def split_beta)
qed

end
