(* ===== verification/Options.thy ===== *)
theory Options
  imports User
begin

text \<open>
  \<open>main\<close> of \<open>user/user.c\<close>, from the words of the command line to the command that runs: a loop over the
  answers of \<open>getopt_long\<close>, which is modelled as the GNU C library's, with \<open>POSIXLY_CORRECT\<close> unset.
  Between its calls it keeps the letters left of a word of short options and the words left;
  words that are no options are skipped, \<open>--\<close> ends the options, a long option may be abbreviated,
  and an abbreviation is ambiguous only if two of the options it fits differ in what they do. The
  messages that \<open>getopt_long\<close> itself writes are left out.
\<close>

subsection \<open>The options of a command line\<close>

record long_option =
  opt_name :: string
  has_arg :: bool
  opt_val :: char

definition SHORT_OPTIONS :: string where "SHORT_OPTIONS = ''s:a:r:ihx''"

text \<open>The table of \<open>main\<close>; the last entry is there with TEST only.\<close>

definition long_options :: "bool \<Rightarrow> long_option list" where
  "long_options test =
     [\<lparr>opt_name = ''set-state'', has_arg = True, opt_val = CHR ''s''\<rparr>,
      \<lparr>opt_name = ''off'', has_arg = False, opt_val = NUL\<rparr>,
      \<lparr>opt_name = ''on'', has_arg = False, opt_val = NUL\<rparr>,
      \<lparr>opt_name = ''recoff'', has_arg = False, opt_val = NUL\<rparr>,
      \<lparr>opt_name = ''recon'', has_arg = False, opt_val = NUL\<rparr>,
      \<lparr>opt_name = ''reconf-add'', has_arg = True, opt_val = CHR ''a''\<rparr>,
      \<lparr>opt_name = ''reconf-rm'', has_arg = True, opt_val = CHR ''r''\<rparr>,
      \<lparr>opt_name = ''print-state'', has_arg = False, opt_val = NUL\<rparr>,
      \<lparr>opt_name = ''print-registry'', has_arg = False, opt_val = NUL\<rparr>,
      \<lparr>opt_name = ''opinfo'', has_arg = False, opt_val = CHR ''i''\<rparr>,
      \<lparr>opt_name = ''help'', has_arg = False, opt_val = CHR ''h''\<rparr>] @
     (if test then [\<lparr>opt_name = ''flush'', has_arg = False, opt_val = CHR ''x''\<rparr>] else [])"

text \<open>
  What one call of \<open>getopt_long\<close> gives: the value, \<open>optarg\<close> and the name that \<open>option_index\<close> points
  to; \<open>'?'\<close>; or -1. Without an argument \<open>optarg\<close> is a null pointer, which no case reads.
\<close>

datatype getopt_answer =
    Opt char cptr string
  | Opt_unknown
  | Opt_end

text \<open>A short option of the string: does it take an argument?\<close>

fun find_short :: "string \<Rightarrow> char \<Rightarrow> bool option" where
  "find_short [] c = None"
| "find_short (d # ds) c = (if c = d then Some (take 1 ds = '':'') else find_short ds c)"

text \<open>What is left between two calls: the letters of a word of short options, and the words after it.\<close>

record getopt_state =
  letters :: string
  words_left :: "string list"

definition getopt_start :: "string list \<Rightarrow> getopt_state" where
  "getopt_start argv = \<lparr>letters = '''', words_left = tl argv\<rparr>"

text \<open>\<open>attached\<close> is what follows the letter in its word, \<open>rest\<close> the words after it.\<close>

definition short_opt :: "string \<Rightarrow> char \<Rightarrow> string \<Rightarrow> string list \<Rightarrow> getopt_answer \<times> getopt_state" where
  "short_opt os c attached rest =
     (let go_on = \<lparr>letters = attached, words_left = rest\<rparr> in
      if c = CHR '':'' \<or> c = CHR '';'' then (Opt_unknown, go_on)
      else case find_short os c of
        None \<Rightarrow> (Opt_unknown, go_on)
      | Some arg \<Rightarrow>
          if \<not> arg then (Opt c None '''', go_on)
          else if attached \<noteq> '''' then (Opt c (Some attached) '''', go_on\<lparr>letters := ''''\<rparr>)
          else (case rest of
                  [] \<Rightarrow> (Opt_unknown, go_on)
                | w # ws \<Rightarrow> (Opt c (Some w) '''', \<lparr>letters = '''', words_left = ws\<rparr>)))"

text \<open>The entry a long option means: the one of that name, or what all it abbreviates agree on.\<close>

definition same_effect :: "long_option \<Rightarrow> long_option \<Rightarrow> bool" where
  "same_effect o1 o2 \<longleftrightarrow> has_arg o1 = has_arg o2 \<and> opt_val o1 = opt_val o2"

definition find_long :: "long_option list \<Rightarrow> string \<Rightarrow> long_option option" where
  "find_long lo name =
     (case filter (\<lambda>x. opt_name x = name) lo of
        x # _ \<Rightarrow> Some x
      | [] \<Rightarrow>
          (case filter (\<lambda>x. take (length name) (opt_name x) = name) lo of
             [] \<Rightarrow> None
           | x # xs \<Rightarrow> if list_all (same_effect x) xs then Some x else None))"

definition long_opt ::
    "long_option list \<Rightarrow> string \<Rightarrow> string list \<Rightarrow> getopt_answer \<times> getopt_state" where
  "long_opt lo word rest =
     (let name = takeWhile (\<lambda>c. c \<noteq> CHR ''='') word;
          arg = drop (length name) word;
          go_on = \<lparr>letters = '''', words_left = rest\<rparr> in
      case find_long lo name of
        None \<Rightarrow> (Opt_unknown, go_on)
      | Some x \<Rightarrow>
          if arg \<noteq> ''''
          then (if has_arg x then Opt (opt_val x) (Some (tl arg)) (opt_name x) else Opt_unknown, go_on)
          else if has_arg x
          then (case rest of
                  [] \<Rightarrow> (Opt_unknown, go_on)
                | w # ws \<Rightarrow> (Opt (opt_val x) (Some w) (opt_name x), go_on\<lparr>words_left := ws\<rparr>))
          else (Opt (opt_val x) None (opt_name x), go_on))"

definition is_option :: "string \<Rightarrow> bool" where
  "is_option w \<longleftrightarrow> take 1 w = ''-'' \<and> w \<noteq> ''-''"

definition getopt_long ::
    "string \<Rightarrow> long_option list \<Rightarrow> getopt_state \<Rightarrow> getopt_answer \<times> getopt_state" where
  "getopt_long os lo st =
     (case letters st of
        c # attached \<Rightarrow> short_opt os c attached (words_left st)
      | [] \<Rightarrow>
          (case dropWhile (\<lambda>w. \<not> is_option w) (words_left st) of
             [] \<Rightarrow> (Opt_end, getopt_start [])
           | w # rest \<Rightarrow>
               if w = ''--'' then (Opt_end, getopt_start [])
               else if take 2 w = ''--'' then long_opt lo (drop 2 w) rest
               else short_opt os (w ! 1) (drop 2 w) rest))"

text \<open>Every answer but the last uses letters up.\<close>

definition to_parse :: "getopt_state \<Rightarrow> nat" where
  "to_parse st = length (letters st) + sum_list (map (\<lambda>w. Suc (length w)) (words_left st))"

lemma short_opt_parse: "to_parse (snd (short_opt os c attached rest)) \<le>
    length attached + sum_list (map (\<lambda>w. Suc (length w)) rest)"
  by (auto simp: short_opt_def to_parse_def Let_def split: option.split list.split)

lemma long_opt_parse: "to_parse (snd (long_opt lo word rest)) \<le> sum_list (map (\<lambda>w. Suc (length w)) rest)"
  by (auto simp: long_opt_def to_parse_def Let_def split: option.split list.split)

lemma getopt_parse:
  assumes "getopt_long os lo st = (answer, st')" and "answer \<noteq> Opt_end"
  shows "to_parse st' < to_parse st"
proof (cases "letters st")
  case (Cons c attached)
  then have "st' = snd (short_opt os c attached (words_left st))" using assms(1) by (simp add: getopt_long_def)
  then show ?thesis
    using short_opt_parse [of os c attached "words_left st"] Cons by (simp add: to_parse_def)
next
  case Nil
  let ?n = "\<lambda>ws. sum_list (map (\<lambda>w. Suc (length w)) ws)"
  obtain w rest where w: "dropWhile (\<lambda>w. \<not> is_option w) (words_left st) = w # rest"
    using assms Nil by (auto simp: getopt_long_def split: list.splits)
  have "?n (words_left st) = ?n (takeWhile (\<lambda>w. \<not> is_option w) (words_left st)) + ?n (w # rest)"
    by (metis map_append sum_list_append takeWhile_dropWhile_id w)
  then have le: "Suc (length w) + ?n rest \<le> to_parse st" by (simp add: to_parse_def)
  have "to_parse st' \<le> length w + ?n rest"
    using assms Nil w long_opt_parse [of lo "drop 2 w" rest] short_opt_parse [of os "w ! 1" "drop 2 w" rest]
    by (auto simp: getopt_long_def split: if_splits)
  with le show ?thesis by linarith
qed

subsection \<open>The program\<close>

definition of_print :: "int \<times> string \<Rightarrow> ksys \<Rightarrow> command_result option" where
  "of_print r s = Some ((fst r, [snd r]), s)"

definition print_usage :: "cptr \<Rightarrow> string list" where
  "print_usage prog_name =
     (let p = (case prog_name of None \<Rightarrow> ''(null)'' | Some q \<Rightarrow> q) in
      [''Usage: '' @ p @ '' COMMAND [ARGS...]'' @ [CHR 0x0A] @ ''Run '' @ [CHR 0x27] @ p @
       '' --help'' @ [CHR 0x27] @ '' for further information.''])"

definition usage :: "string list \<Rightarrow> ksys \<Rightarrow> command_result option" where
  "usage argv s = Some ((- EINVAL, print_usage (case argv of [] \<Rightarrow> None | w # _ \<Rightarrow> Some w)), s)"

definition wrong_args :: "ksys \<Rightarrow> command_result option" where
  "wrong_args s = Some ((- EINVAL, [''Wrong arguments number. See --help flag for details.'']), s)"

definition cmd_help :: "bool \<Rightarrow> int \<times> string list" where
  "cmd_help test = (0,
     [''Usage: refmon OPTIONS [FILE]'',
      ''Reference monitor, for enhanced file access protection.'' @ [CHR 0x0A],
      ''Options:'',
      ''  -s, --set-state <STATE>     Set state to STATE'',
      ''      --off                   Set state to OFF (alias for --set-state OFF)'',
      ''      --on                    Set state to ON (alias for --set-state ON)'',
      ''      --recoff                Set state to REC-OFF (alias for --set-state REC-OFF)'',
      ''      --recon                 Set state to REC-ON (alias for --set-state REC-ON)'',
      ''  -a, --reconf-add <PATH>     Add PATH to refmon registry'',
      ''  -r, --reconf-rm <PATH>      Remove PATH from refmon registry'',
      ''      --print-state           Print current state'',
      ''      --print-registry        Print the registry'',
      ''  -i, --opinfo                Print operational info (more human-friendly)'',
      ''  -h, --help                  Show this help message''] @
     (if test then [''  -x, --flush                 Flush the refmon registry (test only)''] else []))"

definition test_warning :: "string list" where
  "test_warning =
     [''******************************************************************'',
      ''*** WARNING: you are running Refmon in TEST mode!'',
      ''***          password prompt is DISABLED!!!'',
      ''***          this may lead to security issues,'',
      ''***          please use for test purposes onlu'',
      ''***          and remember to re-compile without the TEST flag!'',
      ''******************************************************************'']"

text \<open>Text printed before a command runs, and a command that asks for the password.\<close>

definition after_text :: "string list \<Rightarrow> command_result option \<Rightarrow> command_result option" where
  "after_text msgs r = map_option (\<lambda>((ret, out), s). ((ret, msgs @ out), s)) r"

definition with_password ::
    "uenv \<Rightarrow> ksys \<Rightarrow> (string \<Rightarrow> command_result option) \<Rightarrow> command_result option" where
  "with_password u s cmd =
     (case ask_for_password u of
        None \<Rightarrow> Some ((- EINVAL, [''Error while prompting password'', ''Error while prompting password'']), s)
      | Some pw \<Rightarrow> cmd pw)"

definition extra_arguments :: "nat \<Rightarrow> string list" where
  "extra_arguments argc = (if 2 < argc then [''Ignoring extra arguments''] else [])"

text \<open>
  The switch of \<open>main\<close>, which returns from \<open>main\<close> or breaks and lets the loop go on, with the state it
  leaves the kernel in. \<open>file\<close> is what the file with the numbers of the calls holds, and \<open>errno\<close> in
  \<open>u\<close> its value when the command's system call is made.
\<close>

datatype control =
    Return "command_result option"
  | Break ksys

definition run_option ::
    "kenv \<Rightarrow> (u64 \<Rightarrow> ksys \<Rightarrow> (int \<times> ksys) option) \<Rightarrow> uenv \<Rightarrow> cptr \<Rightarrow> string list \<Rightarrow> char \<Rightarrow> string \<Rightarrow> string \<Rightarrow>
       ksys \<Rightarrow> control" where
  "run_option env other u file argv opt optarg name s =
     (let argc = length argv; errno = u_errno u in
      if opt = CHR ''s''
      then if argc \<noteq> 3 then Return (wrong_args s) else Return (cmd_set_state env other file errno optarg s)
      else if opt = CHR ''a''
      then if argc \<noteq> 3 then Return (wrong_args s)
           else Return (with_password u s (\<lambda>pw. cmd_reconf_add env other file errno optarg pw s))
      else if opt = CHR ''r''
      then if argc \<noteq> 3 then Return (wrong_args s)
           else Return (with_password u s (\<lambda>pw. cmd_reconf_rm env other file errno optarg pw s))
      else if opt = CHR ''i''
      then Return (after_text (extra_arguments argc) (of_print (cmd_opinfo u) s))
      else if opt = CHR ''h''
      then Return (after_text (extra_arguments argc) (Some (cmd_help (test_build u), s)))
      else if opt = NUL
      then if name = ''off'' then Return (cmd_set_state env other file errno ''OFF'' s)
           else if name = ''on'' then Return (cmd_set_state env other file errno ''ON'' s)
           else if name = ''recoff'' then Return (cmd_set_state env other file errno ''REC-OFF'' s)
           else if name = ''recon'' then Return (cmd_set_state env other file errno ''REC-ON'' s)
           else if name = ''print-state'' then Return (of_print (cmd_print_state u) s)
           else if name = ''print-registry'' then Return (of_print (cmd_print_registry u) s)
           else Break s
      else if opt = CHR ''x'' \<and> test_build u
      then Return (with_password u s (\<lambda>pw. cmd_flush env other file errno pw s))
      else Return (usage argv s))"

text \<open>The loop; a missing \<open>optarg\<close> is a null pointer, which no case reads.\<close>

function option_loop ::
    "kenv \<Rightarrow> (u64 \<Rightarrow> ksys \<Rightarrow> (int \<times> ksys) option) \<Rightarrow> uenv \<Rightarrow> cptr \<Rightarrow> string list \<Rightarrow> getopt_state \<Rightarrow> ksys \<Rightarrow>
       command_result option" where
  "option_loop env other u file argv st s =
     (case getopt_long SHORT_OPTIONS (long_options (test_build u)) st of
        (Opt_end, st') \<Rightarrow> usage argv s
      | (Opt_unknown, st') \<Rightarrow> usage argv s
      | (Opt opt optarg name, st') \<Rightarrow>
          (case run_option env other u file argv opt (case optarg of None \<Rightarrow> '''' | Some a \<Rightarrow> a) name s of
             Return r \<Rightarrow> r
           | Break s' \<Rightarrow> option_loop env other u file argv st' s'))"
  by pat_completeness auto
termination
  by (relation "measure (\<lambda>(env, other, u, file, argv, st, s). to_parse st)") (auto dest!: getopt_parse [OF sym])

declare option_loop.simps [simp del]

definition user_main ::
    "kenv \<Rightarrow> (u64 \<Rightarrow> ksys \<Rightarrow> (int \<times> ksys) option) \<Rightarrow> uenv \<Rightarrow> cptr \<Rightarrow> string list \<Rightarrow> ksys \<Rightarrow>
       command_result option" where
  "user_main env other u file argv s =
     after_text (if test_build u then test_warning else [])
       (if length argv < 2 then usage argv s
        else option_loop env other u file argv (getopt_start argv) s)"

subsection \<open>What command lines mean\<close>

lemmas getopt_eval = getopt_long_def getopt_start_def is_option_def long_opt_def find_long_def
  long_options_def short_opt_def SHORT_OPTIONS_def

text \<open>The first option of a command line.\<close>

definition first_option :: "bool \<Rightarrow> string list \<Rightarrow> getopt_answer" where
  "first_option t argv = fst (getopt_long SHORT_OPTIONS (long_options t) (getopt_start argv))"

text \<open>
  The options of \<open>main\<close> whose value is 0 are the six that its switch compares with, so the \<open>break\<close> is
  never reached, and the loop ends with its first answer.
\<close>

lemma find_long_in: "find_long lo n = Some x \<Longrightarrow> x \<in> set lo"
  by (auto simp: find_long_def filter_eq_Cons_iff split: list.splits if_splits)

lemma short_opt_val: "short_opt os c w rest = (Opt v a n, st) \<Longrightarrow> v = c \<and> find_short os c \<noteq> None"
  by (auto simp: short_opt_def Let_def split: if_splits option.splits list.splits)

lemma long_opt_val:
  "long_opt lo w rest = (Opt v a n, st) \<Longrightarrow>
     \<exists>x\<in>set lo. v = opt_val x \<and> n = opt_name x \<and> (a \<noteq> None \<longleftrightarrow> has_arg x)"
  by (auto simp: long_opt_def Let_def split: if_splits option.splits list.splits dest: find_long_in)

lemma getopt_zero:
  assumes "getopt_long SHORT_OPTIONS (long_options t) st = (Opt NUL a n, st')"
  shows "n \<in> {''off'', ''on'', ''recoff'', ''recon'', ''print-state'', ''print-registry''}"
proof -
  consider c w rest where "short_opt SHORT_OPTIONS c w rest = (Opt NUL a n, st')"
    | w rest where "long_opt (long_options t) w rest = (Opt NUL a n, st')"
    using assms by (auto simp: getopt_long_def split: list.splits if_splits)
  then show ?thesis
  proof cases
    case 1
    then have "find_short SHORT_OPTIONS NUL \<noteq> None" using short_opt_val by metis
    then show ?thesis by (simp add: SHORT_OPTIONS_def)
  next
    case 2
    from long_opt_val [OF this] show ?thesis by (auto simp: long_options_def split: if_splits)
  qed
qed

lemma run_option_returns:
  assumes "getopt_long SHORT_OPTIONS (long_options t) st = (Opt v a n, st')"
  shows "\<exists>r. run_option env other u file argv v arg n s = Return r"
  using getopt_zero [of t st a n st'] assms by (cases "v = NUL") (auto simp: run_option_def Let_def)

lemma option_loop_first:
  "option_loop env other u file argv (getopt_start argv) s =
     (case first_option (test_build u) argv of
        Opt v a n \<Rightarrow>
          (case run_option env other u file argv v (case a of None \<Rightarrow> '''' | Some b \<Rightarrow> b) n s of
             Return r \<Rightarrow> r | Break s' \<Rightarrow> None)
      | _ \<Rightarrow> usage argv s)"
proof -
  have "run_option env other u file argv v arg n s \<noteq> Break s'"
    if "getopt_long SHORT_OPTIONS (long_options (test_build u)) (getopt_start argv) = (Opt v a n, st')"
    for v a n st' arg s'
    using run_option_returns [OF that] by (metis control.distinct(1))
  then show ?thesis
    by (auto simp: option_loop.simps [where st = "getopt_start argv"] first_option_def
        split: prod.split getopt_answer.split control.split)
qed

text \<open>Abbreviations: \<open>--rec\<close> is ambiguous, \<open>--print-r\<close> is not, and \<open>--print\<close> is the first it fits.\<close>

lemma abbreviations:
  "first_option t [''refmon'', ''--rec''] = Opt_unknown"
  "first_option t [''refmon'', ''--print-r''] = Opt NUL None ''print-registry''"
  "first_option t [''refmon'', ''--print''] = Opt NUL None ''print-state''"
  by (simp_all add: first_option_def getopt_eval same_effect_def)

text \<open>The letters of a word are options one by one, and the words after a letter's argument go on.\<close>

lemma clusters:
  "getopt_long SHORT_OPTIONS (long_options t) (getopt_start [''refmon'', ''file'', ''-his'', ''ON'', ''--off'']) =
     (Opt (CHR ''h'') None '''', \<lparr>letters = ''is'', words_left = [''ON'', ''--off'']\<rparr>)"
  "getopt_long SHORT_OPTIONS (long_options t) \<lparr>letters = ''s'', words_left = [''ON'', ''--off'']\<rparr> =
     (Opt (CHR ''s'') (Some ''ON'') '''', \<lparr>letters = '''', words_left = [''--off'']\<rparr>)"
  by (simp_all add: getopt_eval)

end
