(* ===== verification/Commands.thy ===== *)
theory Commands
  imports Monitor Options
begin

text \<open>
  The command line program against the running module: in every state a module reaches, a command finds
  its system call in the table through the numbers the module printed, and is that call; a run of the
  program, whatever its command line, makes the call its first option asks for and no other.
\<close>

lemma cmd_flush_call:
  assumes "calls_installed env s" and "sys_flush env (Some pw) s = Some (raw, s')"
    and "- 4096 < raw" and "raw \<le> 0"
  shows "\<exists>msgs. cmd_flush env other (Some (codes_text (syscall_codes s))) errno pw s =
    Some ((if raw = 0 then - errno else raw, msgs), s')"
proof -
  have "0 \<le> sc_code_flush (syscall_codes s)"
    using assms(1) by (simp add: calls_installed_def Let_def)
  then show ?thesis
    using assms(2) dispatch_installed(4) [OF assms(1), of other "Some pw" None]
      libc_syscall_exit [OF assms(3,4), of errno] get_syscall_index_text(4)
    by (simp add: cmd_flush_def split_beta)
qed

text \<open>The command for a system call whose arguments are strings.\<close>

fun run_command ::
    "kenv \<Rightarrow> (u64 \<Rightarrow> ksys \<Rightarrow> (int \<times> ksys) option) \<Rightarrow> cptr \<Rightarrow> int \<Rightarrow> event \<Rightarrow> ksys \<Rightarrow> command_result option"
where
  "run_command env other file errno (Set_state (Some st)) s = cmd_set_state env other file errno st s"
| "run_command env other file errno (Reconf_add (Some p) (Some w)) s =
     cmd_reconf_add env other file errno p w s"
| "run_command env other file errno (Reconf_rm (Some p) (Some w)) s =
     cmd_reconf_rm env other file errno p w s"
| "run_command env other file errno (Flush (Some w)) s = cmd_flush env other file errno w s"
| "run_command _ _ _ _ _ _ = None"

fun is_command :: "event \<Rightarrow> bool" where
  "is_command (Set_state (Some st)) = True"
| "is_command (Reconf_add (Some p) (Some w)) = True"
| "is_command (Reconf_rm (Some p) (Some w)) = True"
| "is_command (Flush (Some w)) = True"
| "is_command _ = False"

lemma run_command_step:
  assumes "calls_installed env s" and "is_command e" and "step env s e (Returned raw) s'"
    and "- 4096 < raw" and "raw \<le> 0"
  shows "\<exists>msgs. run_command env other (Some (codes_text (syscall_codes s))) errno e s =
    Some ((if raw = 0 then - errno else raw, msgs), s')"
proof (cases e rule: is_command.cases)
  case (1 st)
  then have "sys_set_state env (Some st) s = Some (raw, s')" using assms(3) by auto
  from cmd_set_state_call [OF assms(1) this assms(4,5)] 1 show ?thesis by simp
next
  case (2 p w)
  then have "sys_reconf_add env (Some p) (Some w) s = Some (raw, s')" using assms(3) by auto
  from cmd_reconf_add_call [OF assms(1) this assms(4,5)] 2 show ?thesis by simp
next
  case (3 p w)
  then have "sys_reconf_rm env (Some p) (Some w) s = Some (raw, s')" using assms(3) by auto
  from cmd_reconf_rm_call [OF assms(1) this assms(4,5)] 3 show ?thesis by simp
next
  case (4 w)
  then have "sys_flush env (Some w) s = Some (raw, s')" using assms(3) by auto
  from cmd_flush_call [OF assms(1) this assms(4,5)] 4 show ?thesis by simp
qed (use assms(2) in simp_all)

subsection \<open>Command lines\<close>

text \<open>The documented command lines and the calls they stand for; \<open>prog\<close> is the program's name.\<close>

definition set_state_line :: "string \<Rightarrow> event option" where
  "set_state_line opt =
     map_option (\<lambda>st. Set_state (Some st)) (map_of
       [(''--off'', ''OFF''), (''--on'', ''ON''), (''--recoff'', ''REC-OFF''), (''--recon'', ''REC-ON'')] opt)"

fun command_line :: "uenv \<Rightarrow> string list \<Rightarrow> event option" where
  "command_line u [prog, opt] =
     (if test_build u \<and> (opt = ''-x'' \<or> opt = ''--flush'')
      then map_option (\<lambda>pw. Flush (Some pw)) (ask_for_password u)
      else set_state_line opt)"
| "command_line u [prog, opt, arg] =
     (if opt = ''-s'' \<or> opt = ''--set-state'' then Some (Set_state (Some arg))
      else if opt = ''-a'' \<or> opt = ''--reconf-add''
      then map_option (\<lambda>pw. Reconf_add (Some arg) (Some pw)) (ask_for_password u)
      else if opt = ''-r'' \<or> opt = ''--reconf-rm''
      then map_option (\<lambda>pw. Reconf_rm (Some arg) (Some pw)) (ask_for_password u)
      else None)"
| "command_line u _ = None"

definition warning :: "uenv \<Rightarrow> string list" where
  "warning u = (if test_build u then test_warning else [])"

lemma getopt_lines:
  "first_option t [prog, ''--off''] = Opt NUL None ''off''"
  "first_option t [prog, ''--on''] = Opt NUL None ''on''"
  "first_option t [prog, ''--recoff''] = Opt NUL None ''recoff''"
  "first_option t [prog, ''--recon''] = Opt NUL None ''recon''"
  "first_option t [prog, ''-x''] = Opt (CHR ''x'') None ''''"
  "first_option True [prog, ''--flush''] = Opt (CHR ''x'') None ''flush''"
  by (simp_all add: first_option_def getopt_eval)

lemma getopt_arg_lines:
  "first_option t [prog, ''-s'', arg] = Opt (CHR ''s'') (Some arg) ''''"
  "first_option t [prog, ''-a'', arg] = Opt (CHR ''a'') (Some arg) ''''"
  "first_option t [prog, ''-r'', arg] = Opt (CHR ''r'') (Some arg) ''''"
  "first_option t [prog, ''--set-state'', arg] = Opt (CHR ''s'') (Some arg) ''set-state''"
  "first_option t [prog, ''--reconf-add'', arg] = Opt (CHR ''a'') (Some arg) ''reconf-add''"
  "first_option t [prog, ''--reconf-rm'', arg] = Opt (CHR ''r'') (Some arg) ''reconf-rm''"
  by (simp_all add: first_option_def getopt_eval)

text \<open>What one option asks for, and a command line: only its first option counts.\<close>

fun option_call :: "uenv \<Rightarrow> nat \<Rightarrow> getopt_answer \<Rightarrow> event option" where
  "option_call u argc (Opt v a n) =
     (let arg = (case a of None \<Rightarrow> '''' | Some b \<Rightarrow> b) in
      if v = CHR ''s'' then (if argc = 3 then Some (Set_state (Some arg)) else None)
      else if v = CHR ''a''
      then (if argc = 3 then map_option (\<lambda>pw. Reconf_add (Some arg) (Some pw)) (ask_for_password u) else None)
      else if v = CHR ''r''
      then (if argc = 3 then map_option (\<lambda>pw. Reconf_rm (Some arg) (Some pw)) (ask_for_password u) else None)
      else if v = NUL
      then map_option (\<lambda>st. Set_state (Some st)) (map_of
        [(''off'', ''OFF''), (''on'', ''ON''), (''recoff'', ''REC-OFF''), (''recon'', ''REC-ON'')] n)
      else if v = CHR ''x'' \<and> test_build u
      then map_option (\<lambda>pw. Flush (Some pw)) (ask_for_password u)
      else None)"
| "option_call u argc _ = None"

definition asked_call :: "uenv \<Rightarrow> string list \<Rightarrow> event option" where
  "asked_call u argv =
     (if length argv < 2 then None else option_call u (length argv) (first_option (test_build u) argv))"

lemma run_option_call:
  "option_call u (length argv) (Opt v a n) = Some e \<Longrightarrow> is_command e \<and>
     run_option env other u file argv v (case a of None \<Rightarrow> '''' | Some b \<Rightarrow> b) n s =
       Return (run_command env other file (u_errno u) e s)"
  by (auto simp: run_option_def Let_def with_password_def split: if_splits)

lemma run_option_no_call:
  "option_call u (length argv) (Opt v a n) = None \<Longrightarrow>
     run_option env other u file argv v (case a of None \<Rightarrow> '''' | Some b \<Rightarrow> b) n s = Return r \<Longrightarrow>
     \<exists>x. r = Some (x, s)"
  by (auto simp: run_option_def Let_def with_password_def wrong_args_def usage_def of_print_def
      after_text_def split: if_splits option.splits prod.splits)

lemma user_main_asked:
  assumes "asked_call u argv = Some e"
  shows "is_command e" and
    "user_main env other u file argv s =
       after_text (warning u) (run_command env other file (u_errno u) e s)"
proof -
  obtain v a n where o: "first_option (test_build u) argv = Opt v a n"
    using assms by (auto simp: asked_call_def split: if_splits elim: option_call.elims)
  then have "\<not> length argv < 2" "option_call u (length argv) (Opt v a n) = Some e"
    using assms by (auto simp: asked_call_def simp del: option_call.simps split: if_splits)
  with run_option_call [OF this(2)] o show "is_command e" and
    "user_main env other u file argv s =
       after_text (warning u) (run_command env other file (u_errno u) e s)"
    by (simp_all add: user_main_def warning_def option_loop_first del: option_call.simps)
qed

lemma user_main_not_asked:
  assumes "asked_call u argv = None"
  shows "\<exists>r. user_main env other u file argv s = Some (r, s)"
proof (cases "length argv < 2")
  case False
  have "\<exists>x. option_loop env other u file argv (getopt_start argv) s = Some (x, s)"
  proof (cases "first_option (test_build u) argv")
    case (Opt v a n)
    then obtain st' where
      "getopt_long SHORT_OPTIONS (long_options (test_build u)) (getopt_start argv) = (Opt v a n, st')"
      by (metis first_option_def prod.collapse)
    then obtain r where r: "run_option env other u file argv v (case a of None \<Rightarrow> '''' | Some b \<Rightarrow> b) n s =
        Return r" using run_option_returns by blast
    have "option_call u (length argv) (Opt v a n) = None"
      using assms False Opt by (simp add: asked_call_def del: option_call.simps)
    from run_option_no_call [OF this r] show ?thesis using Opt r by (simp add: option_loop_first)
  qed (simp_all add: option_loop_first usage_def)
  then show ?thesis using False by (auto simp: user_main_def after_text_def)
qed (simp add: user_main_def after_text_def usage_def)

text \<open>The documented lines ask for their calls.\<close>

lemma three_options:
  "(if a then Some x else if b then map_option f y else if c then map_option g y else None) = Some e \<Longrightarrow>
     a \<and> e = x \<or> b \<and> (\<exists>w. y = Some w \<and> e = f w) \<or> c \<and> (\<exists>w. y = Some w \<and> e = g w)"
  by (auto split: if_splits)

lemma command_line_asked:
  assumes "command_line u argv = Some e"
  shows "asked_call u argv = Some e"
proof (cases "(u, argv)" rule: command_line.cases)
  case (1 u' prog opt)
  then have argv: "argv = [prog, opt]" by simp
  show ?thesis
  proof (cases "test_build u \<and> (opt = ''-x'' \<or> opt = ''--flush'')")
    case True
    then obtain n where "first_option (test_build u) argv = Opt (CHR ''x'') None n"
      using getopt_lines(5) [of "test_build u" prog] getopt_lines(6) [of prog] argv by auto
    then show ?thesis using True assms argv by (simp add: asked_call_def)
  next
    case False
    then have "set_state_line opt = Some e" using assms argv by (simp split: if_splits)
    then obtain n st where o: "opt = ''--'' @ n" "e = Set_state (Some st)"
      and n: "(n, st) \<in> {(''off'', ''OFF''), (''on'', ''ON''), (''recoff'', ''REC-OFF''), (''recon'', ''REC-ON'')}"
      by (auto simp: set_state_line_def split: if_splits)
    then have "first_option (test_build u) argv = Opt NUL None n"
      using getopt_lines(1-4) [of "test_build u" prog] argv by auto
    then show ?thesis using n o(2) argv by (auto simp: asked_call_def)
  qed
next
  case (2 u' prog opt arg)
  then have argv: "argv = [prog, opt, arg]" by simp
  note lines = getopt_arg_lines [of "test_build u" prog arg]
  from three_options [OF assms [unfolded argv command_line.simps]] show ?thesis
    by (elim disjE conjE exE) (simp_all add: argv asked_call_def lines)
qed (use assms in simp_all)

lemmas user_main_command = user_main_asked [OF command_line_asked]

text \<open>A command is at most one call of the module.\<close>

lemma command_called:
  assumes "calls_installed env s"
  shows "cmd_set_state env other (Some (codes_text (syscall_codes s))) errno st s = Some (r, s') \<Longrightarrow>
      \<exists>raw. sys_set_state env (Some st) s = Some (raw, s')"
    and "cmd_reconf_add env other (Some (codes_text (syscall_codes s))) errno p pw s = Some (r, s') \<Longrightarrow>
      \<exists>raw. sys_reconf_add env (Some p) (Some pw) s = Some (raw, s')"
    and "cmd_reconf_rm env other (Some (codes_text (syscall_codes s))) errno p pw s = Some (r, s') \<Longrightarrow>
      \<exists>raw. sys_reconf_rm env (Some p) (Some pw) s = Some (raw, s')"
    and "cmd_flush env other (Some (codes_text (syscall_codes s))) errno pw s = Some (r, s') \<Longrightarrow>
      \<exists>raw. sys_flush env (Some pw) s = Some (raw, s')"
proof -
  note pos = assms [unfolded calls_installed_def Let_def]
  note index = get_syscall_index_text [of "syscall_codes s"]
  note calls = dispatch_installed [OF assms]
  show "\<exists>raw. sys_set_state env (Some st) s = Some (raw, s')"
    if "cmd_set_state env other (Some (codes_text (syscall_codes s))) errno st s = Some (r, s')"
    using that pos by (simp add: cmd_set_state_def index(1) calls(1) bind_eq_Some_conv split_beta) blast
  show "\<exists>raw. sys_reconf_add env (Some p) (Some pw) s = Some (raw, s')"
    if "cmd_reconf_add env other (Some (codes_text (syscall_codes s))) errno p pw s = Some (r, s')"
    using that pos index(2)
    by (simp add: cmd_reconf_add_def calls(2) bind_eq_Some_conv split_beta) blast
  show "\<exists>raw. sys_reconf_rm env (Some p) (Some pw) s = Some (raw, s')"
    if "cmd_reconf_rm env other (Some (codes_text (syscall_codes s))) errno p pw s = Some (r, s')"
    using that pos index(3)
    by (simp add: cmd_reconf_rm_def calls(3) bind_eq_Some_conv split_beta) blast
  show "\<exists>raw. sys_flush env (Some pw) s = Some (raw, s')"
    if "cmd_flush env other (Some (codes_text (syscall_codes s))) errno pw s = Some (r, s')"
    using that pos index(4)
    by (simp add: cmd_flush_def calls(4) bind_eq_Some_conv split_beta) blast
qed

lemma run_command_effect:
  assumes "calls_installed env s"
    and "run_command env other (Some (codes_text (syscall_codes s))) errno e s = Some (r, s')"
  shows "\<exists>raw. step env s e (Returned raw) s'"
proof (cases e rule: is_command.cases)
  case (1 st)
  then have "cmd_set_state env other (Some (codes_text (syscall_codes s))) errno st s = Some (r, s')" using assms(2) by simp
  from command_called(1) [OF assms(1) this] 1 show ?thesis using step.set_state by blast
next
  case (2 p w)
  then have "cmd_reconf_add env other (Some (codes_text (syscall_codes s))) errno p w s = Some (r, s')" using assms(2) by simp
  from command_called(2) [OF assms(1) this] 2 show ?thesis using step.reconf_add by blast
next
  case (3 p w)
  then have "cmd_reconf_rm env other (Some (codes_text (syscall_codes s))) errno p w s = Some (r, s')" using assms(2) by simp
  from command_called(3) [OF assms(1) this] 3 show ?thesis using step.reconf_rm by blast
next
  case (4 w)
  then have "cmd_flush env other (Some (codes_text (syscall_codes s))) errno w s = Some (r, s')" using assms(2) by simp
  from command_called(4) [OF assms(1) this] 4 show ?thesis using step.flush by blast
qed (use assms(2) in simp_all)

lemma after_text_state: "after_text msgs r = Some (x, s') \<Longrightarrow> \<exists>y. r = Some (y, s')"
  by (auto simp: after_text_def)

subsection \<open>In a running module\<close>

text \<open>What the program reads is what the module prints, in one read of a buffer of 48 bytes or more.\<close>

lemma calls_text:
  assumes "calls_installed env s" and "copy_to_user_ok env'" and "48 \<le> count"
  shows "read_proc_syscalls env' count 0 s = Some ((int (length (codes_text (syscall_codes s))),
    codes_text (syscall_codes s), int (length (codes_text (syscall_codes s)))), s)"
proof -
  have c: "int_codes (syscall_codes s)" using assms(1) by (simp add: calls_installed_def Let_def)
  show ?thesis
    using read_proc_syscalls_eq [OF c, of env' count 0] length_codes_text [OF c] assms(2,3)
    by (simp add: read_result_def)
qed

text \<open>In every reachable state the numbers printed are those of the calls.\<close>

definition linked_at :: "u64 list \<Rightarrow> (string \<Rightarrow> u8 list) \<Rightarrow> kenv \<Rightarrow> bool" where
  "linked_at addrs h env \<longleftrightarrow> world h env \<and> sc_addrs env = addrs"

interpretation calls: run_invariant "\<lambda>env. linked_at addrs h env \<and> distinct addrs"
  "\<lambda>_ s. monitor_inv h s \<and> (\<forall>env. sc_addrs env = addrs \<longrightarrow> calls_installed env s)" for addrs h
proof unfold_locales
  fix env s0 s
  assume w: "linked_at addrs h env \<and> distinct addrs" "just_loaded s0" "init_module env s0 = Some (0, s)"
  then have h: "world h env" and d: "distinct (sc_addrs env)" by (auto simp: linked_at_def)
  obtain slots ni m where "unused_slots s0 slots" "s = ready_state env slots ni m s0"
    by (rule world_load [OF h w(2,3)]) blast
  then have "calls_installed env s" using calls_installed_ready d by blast
  then have "\<forall>env. sc_addrs env = addrs \<longrightarrow> calls_installed env s"
    using calls_installed_same [of env s s] w(1) by (simp add: linked_at_def)
  then show "monitor_inv h s \<and> (\<forall>env. sc_addrs env = addrs \<longrightarrow> calls_installed env s)"
    using safety.init h w(2,3) by blast
next
  fix env s0 s e r s'
  assume w: "linked_at addrs h env \<and> distinct addrs" and st: "step env s e r s'"
    and i: "monitor_inv h s \<and> (\<forall>env. sc_addrs env = addrs \<longrightarrow> calls_installed env s)"
  have "same_install s s'" using step_frame(1) [OF st] i by (simp add: monitor_inv_def)
  then have "\<forall>env. sc_addrs env = addrs \<longrightarrow> calls_installed env s'"
    using i calls_installed_same by blast
  then show "monitor_inv h s' \<and> (\<forall>env. sc_addrs env = addrs \<longrightarrow> calls_installed env s')"
    using safety.step w i st unfolding linked_at_def by blast
qed

lemma command_is_call:
  assumes "reachable (\<lambda>env. linked_at addrs h env \<and> distinct addrs) s0 s" and "linked_at addrs h env"
    and "is_command e" and "step env s e (Returned raw) s'" and "- 4096 < raw" and "raw \<le> 0"
  shows "\<exists>msgs. run_command env other (Some (codes_text (syscall_codes s))) errno e s =
    Some ((if raw = 0 then - errno else raw, msgs), s')"
proof -
  have "calls_installed env s"
    using calls.always [OF assms(1)] assms(2) by (simp add: linked_at_def)
  from run_command_step [OF this assms(3-6)] show ?thesis .
qed

text \<open>What a process reads that opens the file with the numbers.\<close>

definition codes_read :: "ksys \<Rightarrow> string \<Rightarrow> bool" where
  "codes_read s t \<longleftrightarrow> (\<exists>env count n pos s'. copy_to_user_ok env \<and> 48 \<le> count \<and>
     read_proc_syscalls env count 0 s = Some ((n, t, pos), s'))"

lemma codes_read_text:
  assumes "calls_installed env s" and "codes_read s t"
  shows "t = codes_text (syscall_codes s)"
  using assms(2) calls_text [OF assms(1)] by (auto simp: codes_read_def)

text \<open>The program on any command line.\<close>

lemma program_run:
  assumes "reachable (\<lambda>env. linked_at addrs h env \<and> distinct addrs) s0 s" and "linked_at addrs h env"
    and "codes_read s t"
  shows "case asked_call u argv of
      None \<Rightarrow> \<exists>r. user_main env other u (Some t) argv s = Some (r, s)
    | Some e \<Rightarrow>
        (\<forall>r s'. user_main env other u (Some t) argv s = Some (r, s') \<longrightarrow>
           (\<exists>raw. step env s e (Returned raw) s')) \<and>
        (\<forall>raw s'. step env s e (Returned raw) s' \<and> - 4096 < raw \<and> raw \<le> 0 \<longrightarrow>
           (\<exists>msgs. user_main env other u (Some t) argv s =
              Some ((if raw = 0 then - u_errno u else raw, msgs), s')))"
proof (cases "asked_call u argv")
  case None
  then show ?thesis using user_main_not_asked by simp
next
  case (Some e)
  have inst: "calls_installed env s"
    using calls.always [OF assms(1)] assms(2) by (simp add: linked_at_def)
  note t = codes_read_text [OF inst assms(3)]
  note main = user_main_asked [OF Some]
  have "\<exists>raw. step env s e (Returned raw) s'"
    if "user_main env other u (Some t) argv s = Some (r, s')" for r s'
    using after_text_state [OF that [unfolded main(2)]] run_command_effect [OF inst] t by blast
  moreover have "\<exists>msgs. user_main env other u (Some t) argv s =
      Some ((if raw = 0 then - u_errno u else raw, msgs), s')"
    if "step env s e (Returned raw) s'" "- 4096 < raw" "raw \<le> 0" for raw s'
    using command_is_call [OF assms(1,2) main(1) that] unfolding main(2) t after_text_def by fastforce
  ultimately show ?thesis using Some by simp
qed

end
