(* ===== verification/Race.thy ===== *)
theory Race
  imports Monitor
begin

text \<open>
  The search of a probe against calls on another processor. The system calls change the registry with
  the lock of the instance held, but \<open>search_entry\<close> of \<open>misc/fsutils.c\<close>, which the probes run, walks the
  list without it. Here the walk is taken step by step, with additions and removals in between. A
  removed entry is not freed, so its fields can still be read; its link is in an undefined state, as
  the kernel's documentation of \<open>list_del\<close> says, and following it is a crash.
\<close>

subsection \<open>The list\<close>

text \<open>
  The entries that were ever allocated, by address, and the addresses on the list, in order. The
  registry of \<open>Refmon_Model\<close> is the entries on the list.
\<close>

record shared =
  node_at :: "nat \<Rightarrow> registry_entry option"
  linked :: "nat list"

definition entries :: "shared \<Rightarrow> registry_entry list" where
  "entries sh = map (\<lambda>a. the (node_at sh a)) (linked sh)"

definition wf_shared :: "shared \<Rightarrow> bool" where
  "wf_shared sh \<longleftrightarrow> finite (dom (node_at sh)) \<and> distinct (linked sh) \<and> set (linked sh) \<subseteq> dom (node_at sh)"

text \<open>
  \<open>list_add_tail\<close> of an entry just allocated, \<open>list_del\<close>, and the link to the next entry of the list, if
  the entry is on it. The inner \<^term>\<open>None\<close> is the head, where a walk ends.
\<close>

definition list_add_tail :: "nat \<Rightarrow> registry_entry \<Rightarrow> shared \<Rightarrow> shared" where
  "list_add_tail a e sh = \<lparr>node_at = (node_at sh)(a \<mapsto> e), linked = linked sh @ [a]\<rparr>"

definition list_del :: "nat \<Rightarrow> shared \<Rightarrow> shared" where
  "list_del a sh = sh\<lparr>linked := remove1 a (linked sh)\<rparr>"

fun next_in :: "nat \<Rightarrow> nat list \<Rightarrow> nat option option" where
  "next_in a [] = None"
| "next_in a (b # bs) = (if a = b then Some (case bs of [] \<Rightarrow> None | c # _ \<Rightarrow> Some c) else next_in a bs)"

lemma next_in_None [simp]: "a \<notin> set xs \<Longrightarrow> next_in a xs = None"
  by (induction xs) auto

lemma next_in_member: "next_in a xs = Some (Some b) \<Longrightarrow> b \<in> set xs"
  by (induction xs) (auto split: if_splits list.splits)

lemma next_in_append: "a \<notin> set xs \<Longrightarrow>
    next_in a (xs @ a # ys) = Some (case ys of [] \<Rightarrow> None | b # _ \<Rightarrow> Some b)"
  by (induction xs) auto

text \<open>What the calls do to the list: they add an entry at the end or take one out.\<close>

inductive list_event :: "shared \<Rightarrow> shared \<Rightarrow> bool" where
  added: "node_at sh a = None \<Longrightarrow> list_event sh (list_add_tail a e sh)"
| removed: "a \<in> set (linked sh) \<Longrightarrow> list_event sh (list_del a sh)"

lemma list_event_wf:
  assumes "list_event sh sh'" and "wf_shared sh"
  shows "wf_shared sh'"
  using assms
proof cases
  case (added a e)
  then have "a \<notin> set (linked sh)" using assms(2) by (auto simp: wf_shared_def)
  then show ?thesis using added assms(2) by (auto simp: wf_shared_def list_add_tail_def)
next
  case (removed a)
  then show ?thesis
    using assms(2) set_remove1_subset by (fastforce simp: wf_shared_def list_del_def)
qed

text \<open>Entries keep their addresses and their fields.\<close>

lemma list_event_node: "list_event sh sh' \<Longrightarrow> node_at sh a = Some e \<Longrightarrow> node_at sh' a = Some e"
  by (auto simp: list_add_tail_def list_del_def elim!: list_event.cases)

subsection \<open>The calls are such events\<close>

text \<open>The list represents the registry of a state of the module.\<close>

definition represents :: "shared \<Rightarrow> ksys \<Rightarrow> bool" where
  "represents sh s \<longleftrightarrow> wf_shared sh \<and> entries sh = registry (the_inst s)"

lemma entries_add:
  assumes "wf_shared sh" and "node_at sh a = None"
  shows "entries (list_add_tail a e sh) = entries sh @ [e]"
  using assms by (auto simp: entries_def list_add_tail_def wf_shared_def)

lemma fresh_address: "wf_shared sh \<Longrightarrow> \<exists>a. node_at sh a = None"
  using ex_new_if_finite [of "dom (node_at sh)"] by (auto simp: wf_shared_def)

lemma entries_del:
  assumes "linked sh = xs @ a # ys" and "wf_shared sh"
  shows "entries (list_del a sh) = map (\<lambda>b. the (node_at sh b)) (xs @ ys)"
  using assms by (simp add: entries_def list_del_def wf_shared_def remove1_append)

text \<open>Taking the first entry with certain fields out of the list.\<close>

lemma remove_event:
  assumes "wf_shared sh" and "e \<in> set (entries sh)"
  shows "\<exists>sh'. list_event sh sh' \<and> entries sh' = remove1 e (entries sh)"
proof -
  obtain us vs where split: "entries sh = us @ e # vs" "e \<notin> set us"
    using split_list_first [OF assms(2)] by blast
  then obtain xs a ys where l: "linked sh = xs @ a # ys" "map (\<lambda>b. the (node_at sh b)) xs = us"
    "map (\<lambda>b. the (node_at sh b)) ys = vs"
    by (auto simp: entries_def map_eq_append_conv map_eq_Cons_conv)
  then have "entries (list_del a sh) = us @ vs" using entries_del [OF l(1) assms(1)] by simp
  then show ?thesis
    using split l(1) list_event.removed [of a sh] by (auto simp: remove1_append)
qed

text \<open>Emptying the list, entry by entry.\<close>

lemma flush_events:
  assumes "wf_shared sh"
  shows "\<exists>sh'. list_event\<^sup>*\<^sup>* sh sh' \<and> linked sh' = []"
  using assms
proof (induction "linked sh" arbitrary: sh)
  case Nil
  then show ?case by auto
next
  case (Cons a as)
  then have ev: "list_event sh (list_del a sh)" by (metis list.set_intros(1) list_event.removed)
  have "linked (list_del a sh) = as" using Cons.hyps(2) [symmetric] by (simp add: list_del_def)
  then obtain sh' where "list_event\<^sup>*\<^sup>* (list_del a sh) sh'" "linked sh' = []"
    using Cons.hyps(1) list_event_wf [OF ev Cons.prems] by blast
  then show ?case using ev by (blast intro: converse_rtranclp_into_rtranclp)
qed

lemma list_events_wf: "list_event\<^sup>*\<^sup>* sh sh' \<Longrightarrow> wf_shared sh \<Longrightarrow> wf_shared sh'"
  by (induction rule: rtranclp_induct) (auto intro: list_event_wf)

lemma step_list_events:
  assumes "step env s e r s'" and "wf_entries (registry (the_inst s))" and "represents sh s"
  shows "\<exists>sh'. list_event\<^sup>*\<^sup>* sh sh' \<and> represents sh' s'"
  using assms(1,2)
proof (cases rule: step_reg_cases)
  case same
  then show ?thesis using assms(3) by (auto simp: represents_def)
next
  case (added p rp q)
  obtain a where "node_at sh a = None" using fresh_address assms(3) by (auto simp: represents_def)
  then have "list_event sh (list_add_tail a (new_entry env p rp q) sh)"
    "entries (list_add_tail a (new_entry env p rp q) sh) = registry (the_inst s')"
    using entries_add assms(3) added by (auto simp: represents_def intro: list_event.added)
  then show ?thesis using assms(3) list_event_wf unfolding represents_def by blast
next
  case (removed node)
  show ?thesis
  proof (cases "node \<in> set (entries sh)")
    case True
    then obtain sh' where "list_event sh sh'" "entries sh' = remove1 node (entries sh)"
      using remove_event assms(3) unfolding represents_def by blast
    then show ?thesis
      using assms(3) removed list_event_wf [of sh sh'] unfolding represents_def by auto
  next
    case False
    then show ?thesis using assms(3) removed by (auto simp: represents_def remove1_idem)
  qed
next
  case flushed
  then show ?thesis
    using flush_events [of sh] assms(3) list_events_wf by (fastforce simp: represents_def entries_def)
qed

subsection \<open>The walk\<close>

text \<open>
  Where a search is: before the test for an empty list, before the first entry, about to test the
  entry at an address, about to follow its link, or at an end.
\<close>

datatype walk = Start | Nonempty | Test nat | Follow nat | Found nat | Not_found | Crashed

fun walk_step :: "kenv \<Rightarrow> path_identifier \<Rightarrow> u32 \<Rightarrow> shared \<Rightarrow> walk \<Rightarrow> walk" where
  "walk_step env pid crit sh Start =
     (if linked sh = [] then Not_found
      else case path pid of
        None \<Rightarrow> Not_found
      | Some p \<Rightarrow>
          if match_string p '''' \<and>
             (has_flag crit REFMON_SEARCH_CRIT_REGISTERED_PATH \<or>
              has_flag crit REFMON_SEARCH_CRIT_ABSOLUTE_PATH \<or>
              has_flag crit REFMON_SEARCH_CRIT_SUBDIR_CHECK)
          then Not_found else Nonempty)"
| "walk_step env pid crit sh Nonempty = (case linked sh of [] \<Rightarrow> Not_found | a # _ \<Rightarrow> Test a)"
| "walk_step env pid crit sh (Test a) =
     (case node_at sh a of
        None \<Rightarrow> Crashed
      | Some e \<Rightarrow>
          (case entry_matches env pid crit e of
             None \<Rightarrow> Crashed
           | Some True \<Rightarrow> Found a
           | Some False \<Rightarrow> Follow a))"
| "walk_step env pid crit sh (Follow a) =
     (case next_in a (linked sh) of
        None \<Rightarrow> Crashed
      | Some None \<Rightarrow> Not_found
      | Some (Some b) \<Rightarrow> Test b)"
| "walk_step env pid crit sh w = w"

text \<open>Left alone, the walk is \<open>search_entry\<close>.\<close>

fun walk_result :: "shared \<Rightarrow> registry_entry option option \<Rightarrow> walk \<Rightarrow> bool" where
  "walk_result sh None w = (w = Crashed)"
| "walk_result sh (Some None) w = (w = Not_found)"
| "walk_result sh (Some (Some e)) w = (\<exists>a. w = Found a \<and> a \<in> set (linked sh) \<and> node_at sh a = Some e)"

lemma funpow_plus: "(f ^^ (n + k)) x = (f ^^ n) ((f ^^ k) x)"
  by (simp add: funpow_add)

lemma walk_loop:
  assumes "wf_shared sh" and "linked sh = xs @ a # ys"
  shows "\<exists>n. walk_result sh (search_loop env pid crit (map (\<lambda>b. the (node_at sh b)) (a # ys)))
    ((walk_step env pid crit sh ^^ n) (Test a))"
  using assms(2)
proof (induction ys arbitrary: xs a)
  case Nil
  obtain e where e: "node_at sh a = Some e" using assms(1) Nil by (auto simp: wf_shared_def)
  have "a \<notin> set xs" using assms(1) Nil by (simp add: wf_shared_def)
  then have nx: "next_in a (linked sh) = Some None" using Nil next_in_append [of a xs "[]"] by simp
  show ?case
  proof (cases "entry_matches env pid crit e")
    case None
    then show ?thesis using e by (intro exI [of _ 1]) simp
  next
    case (Some b)
    then show ?thesis using e nx Nil by (intro exI [of _ 2]) (cases b; simp add: numeral_2_eq_2)
  qed
next
  case (Cons c ys)
  obtain e where e: "node_at sh a = Some e" using assms(1) Cons.prems by (auto simp: wf_shared_def)
  have "a \<notin> set xs" using assms(1) Cons.prems by (simp add: wf_shared_def)
  then have nx: "next_in a (linked sh) = Some (Some c)"
    using Cons.prems next_in_append [of a xs "c # ys"] by simp
  obtain n where n: "walk_result sh (search_loop env pid crit (map (\<lambda>b. the (node_at sh b)) (c # ys)))
      ((walk_step env pid crit sh ^^ n) (Test c))"
    using Cons.IH [of "xs @ [a]" c] Cons.prems by auto
  show ?case
  proof (cases "entry_matches env pid crit e")
    case None
    then show ?thesis using e by (intro exI [of _ 1]) simp
  next
    case (Some b)
    show ?thesis
    proof (cases b)
      case True
      then show ?thesis using Some e Cons.prems by (intro exI [of _ 1]) simp
    next
      case False
      have "(walk_step env pid crit sh ^^ 2) (Test a) = Test c"
        using Some False e nx by (simp add: numeral_2_eq_2)
      then have "(walk_step env pid crit sh ^^ (n + 2)) (Test a) = (walk_step env pid crit sh ^^ n) (Test c)"
        by (simp only: funpow_plus)
      then show ?thesis using Some False e n by (intro exI [of _ "n + 2"]) (simp only: search_loop.simps, simp)
    qed
  qed
qed

lemma walk_search:
  assumes "wf_shared sh"
  shows "\<exists>n. walk_result sh (search_entry env (entries sh) pid crit) ((walk_step env pid crit sh ^^ n) Start)"
proof (cases "walk_step env pid crit sh Start = Not_found")
  case True
  then have "search_entry env (entries sh) pid crit = Some None"
    by (auto simp: search_entry_def entries_def split: if_splits option.splits)
  then show ?thesis using True by (intro exI [of _ 1]) simp
next
  case False
  then obtain a ys where l: "linked sh = a # ys" by (cases "linked sh") auto
  have st: "walk_step env pid crit sh Start = Nonempty"
    and search: "search_entry env (entries sh) pid crit =
      search_loop env pid crit (map (\<lambda>b. the (node_at sh b)) (a # ys))"
    using False l by (auto simp: search_entry_def entries_def split: if_splits option.splits)
  obtain n where "walk_result sh (search_loop env pid crit (map (\<lambda>b. the (node_at sh b)) (a # ys)))
      ((walk_step env pid crit sh ^^ n) (Test a))"
    using walk_loop [OF assms, of "[]" a ys env pid crit] l unfolding append_Nil by blast
  moreover have "(walk_step env pid crit sh ^^ 2) Start = Test a"
    using st l by (simp add: numeral_2_eq_2)
  then have "(walk_step env pid crit sh ^^ (n + 2)) Start = (walk_step env pid crit sh ^^ n) (Test a)"
    by (simp only: funpow_plus)
  ultimately show ?thesis unfolding search by metis
qed

subsection \<open>A race\<close>

text \<open>
  A search that starts at the first moment, walks, and is overtaken by changes of the list. The moments
  of the race are the lists it has seen, the last one being the present.
\<close>

inductive race ::
    "kenv \<Rightarrow> path_identifier \<Rightarrow> u32 \<Rightarrow> shared \<Rightarrow> shared list \<Rightarrow> shared \<Rightarrow> walk \<Rightarrow> bool"
  for env pid crit sh0 where
  begins: "wf_shared sh0 \<Longrightarrow> race env pid crit sh0 [sh0] sh0 Start"
| walks: "race env pid crit sh0 hs sh w \<Longrightarrow> race env pid crit sh0 hs sh (walk_step env pid crit sh w)"
| changes: "race env pid crit sh0 hs sh w \<Longrightarrow> list_event sh sh' \<Longrightarrow>
    race env pid crit sh0 (hs @ [sh']) sh' w"

lemma race_wf: "race env pid crit sh0 hs sh w \<Longrightarrow> wf_shared sh \<and> sh \<in> set hs"
  by (induction rule: race.induct) (auto intro: list_event_wf)

text \<open>What was seen is still there: every entry of a moment has its address and its fields.\<close>

lemma race_nodes:
  "race env pid crit sh0 hs sh w \<Longrightarrow> h \<in> set hs \<Longrightarrow>
     wf_shared h \<and> (\<forall>a e. node_at h a = Some e \<longrightarrow> node_at sh a = Some e)"
proof (induction rule: race.induct)
  case (changes hs sh w sh')
  then show ?case using race_wf list_event_wf list_event_node by (metis in_set_conv_decomp set_ConsD set_append Un_iff empty_set empty_iff)
qed auto

definition searchable :: "path_identifier \<Rightarrow> u32 \<Rightarrow> bool" where
  "searchable pid crit \<longleftrightarrow> (\<exists>p. path pid = Some p \<and> \<not> (match_string p '''' \<and>
     (has_flag crit REFMON_SEARCH_CRIT_REGISTERED_PATH \<or>
      has_flag crit REFMON_SEARCH_CRIT_ABSOLUTE_PATH \<or>
      has_flag crit REFMON_SEARCH_CRIT_SUBDIR_CHECK)))"

lemma search_searchable:
  "searchable pid crit \<Longrightarrow> search_entry env reg pid crit = search_loop env pid crit reg"
  by (auto simp: searchable_def search_entry_def)

lemma search_unsearchable: "\<not> searchable pid crit \<Longrightarrow> search_entry env reg pid crit = Some None"
  by (auto simp: searchable_def search_entry_def split: option.split)

lemma walk_Start:
  "walk_step env pid crit sh Start = (if linked sh = [] \<or> \<not> searchable pid crit then Not_found else Nonempty)"
  by (auto simp: searchable_def split: option.split)

declare walk_step.simps(1) [simp del] walk_Start [simp]

text \<open>The entry at an address fails the test, and all entries before an address do.\<close>

definition rejected :: "kenv \<Rightarrow> path_identifier \<Rightarrow> u32 \<Rightarrow> shared \<Rightarrow> nat \<Rightarrow> bool" where
  "rejected env pid crit sh a \<longleftrightarrow> (\<exists>e. node_at sh a = Some e \<and> entry_matches env pid crit e = Some False)"

definition passed :: "kenv \<Rightarrow> path_identifier \<Rightarrow> u32 \<Rightarrow> shared \<Rightarrow> nat \<Rightarrow> bool" where
  "passed env pid crit sh a \<longleftrightarrow>
     (\<forall>xs ys. linked sh = xs @ a # ys \<longrightarrow> (\<forall>b\<in>set xs. rejected env pid crit sh b))"

lemma rejected_event: "list_event sh sh' \<Longrightarrow> rejected env pid crit sh a \<Longrightarrow> rejected env pid crit sh' a"
  unfolding rejected_def using list_event_node by blast

lemma linked_event:
  assumes "list_event sh sh'" and "wf_shared sh" and "node_at sh a \<noteq> None"
    and "linked sh' = xs @ a # ys"
  shows "\<exists>us vs. linked sh = us @ a # vs \<and> set xs \<subseteq> set us"
  using assms(1)
proof cases
  case (added b e)
  then have "b \<noteq> a" using assms(3) by auto
  then have "ys \<noteq> []" using added assms(4) by (auto simp: list_add_tail_def)
  then obtain zs z where "ys = zs @ [z]" using append_butlast_last_id by metis
  then have "linked sh = xs @ a # zs" using added assms(4) by (simp add: list_add_tail_def)
  then show ?thesis by blast
next
  case (removed b)
  then obtain ps qs where p: "linked sh = ps @ b # qs" "b \<notin> set ps" using split_list_first by metis
  then have "xs @ a # ys = ps @ qs" using removed assms(4) by (simp add: list_del_def remove1_append)
  then consider us where "xs = ps @ us" "qs = us @ a # ys" | vs where "ps = xs @ a # vs"
    by (auto simp: append_eq_append_conv2 Cons_eq_append_conv append_eq_Cons_conv)
  then show ?thesis
  proof cases
    case 1
    then have "linked sh = (ps @ b # us) @ a # ys" using p(1) by simp
    then show ?thesis using 1(1) by (intro exI [of _ "ps @ b # us"] exI [of _ ys]) auto
  next
    case 2
    then have "linked sh = xs @ a # (vs @ b # qs)" using p(1) by simp
    then show ?thesis by blast
  qed
qed

lemma passed_event:
  assumes "list_event sh sh'" and "wf_shared sh" and "node_at sh a \<noteq> None" and "passed env pid crit sh a"
  shows "passed env pid crit sh' a"
  unfolding passed_def
proof (intro allI impI ballI)
  fix xs ys b assume "linked sh' = xs @ a # ys" "b \<in> set xs"
  then obtain us vs where "linked sh = us @ a # vs" "b \<in> set us"
    using linked_event [OF assms(1-3)] by blast
  then show "rejected env pid crit sh' b"
    using assms(4) rejected_event [OF assms(1)] unfolding passed_def by blast
qed

text \<open>What is known at each point of the walk.\<close>

definition seen :: "shared list \<Rightarrow> nat \<Rightarrow> bool" where
  "seen hs a \<longleftrightarrow> (\<exists>h\<in>set hs. a \<in> set (linked h))"

fun walk_inv ::
    "kenv \<Rightarrow> path_identifier \<Rightarrow> u32 \<Rightarrow> shared list \<Rightarrow> shared \<Rightarrow> walk \<Rightarrow> bool" where
  "walk_inv env pid crit hs sh Start = True"
| "walk_inv env pid crit hs sh Nonempty = searchable pid crit"
| "walk_inv env pid crit hs sh (Test a) =
     (searchable pid crit \<and> seen hs a \<and> passed env pid crit sh a)"
| "walk_inv env pid crit hs sh (Follow a) =
     (searchable pid crit \<and> seen hs a \<and> passed env pid crit sh a \<and> rejected env pid crit sh a)"
| "walk_inv env pid crit hs sh (Found a) =
     (searchable pid crit \<and> seen hs a \<and>
      (\<exists>e. node_at sh a = Some e \<and> entry_matches env pid crit e = Some True))"
| "walk_inv env pid crit hs sh Not_found =
     (\<exists>h\<in>set hs. search_entry env (entries h) pid crit = Some None)"
| "walk_inv env pid crit hs sh Crashed =
     ((\<exists>h\<in>set hs. \<not> set (linked h) \<subseteq> set (linked sh)) \<or>
      (\<exists>a e. node_at sh a = Some e \<and> entry_matches env pid crit e = None))"

lemma search_rejected:
  assumes "\<forall>a\<in>set as. rejected env pid crit sh a"
  shows "search_loop env pid crit (map (\<lambda>a. the (node_at sh a)) as) = Some None"
  using assms by (induction as) (auto simp: rejected_def)

lemma not_linked_again:
  assumes "list_event sh sh'" and "node_at sh a \<noteq> None" and "a \<notin> set (linked sh)"
  shows "a \<notin> set (linked sh')"
  using assms(1)
proof cases
  case (added b e)
  then show ?thesis using assms(2,3) by (auto simp: list_add_tail_def)
next
  case (removed b)
  then show ?thesis using assms(3) set_remove1_subset by (fastforce simp: list_del_def)
qed

lemma seen_node:
  assumes "race env pid crit sh0 hs sh w" and "seen hs a"
  shows "node_at sh a \<noteq> None"
proof -
  obtain h where h: "h \<in> set hs" "a \<in> set (linked h)" using assms(2) by (auto simp: seen_def)
  then have "a \<in> dom (node_at h)" using race_nodes [OF assms(1) h(1)] by (auto simp: wf_shared_def)
  then show ?thesis using race_nodes [OF assms(1) h(1)] by auto
qed

lemma walk_inv_event:
  assumes "race env pid crit sh0 hs sh w" and "list_event sh sh'" and "walk_inv env pid crit hs sh w"
  shows "walk_inv env pid crit (hs @ [sh']) sh' w"
proof -
  have wf: "wf_shared sh" using race_wf [OF assms(1)] by simp
  note node = seen_node [OF assms(1)]
  show ?thesis
  proof (cases w)
    case (Test a)
    then show ?thesis
      using assms(3) passed_event [OF assms(2) wf node] by (auto simp: seen_def)
  next
    case (Follow a)
    then show ?thesis
      using assms(3) passed_event [OF assms(2) wf node] rejected_event [OF assms(2)]
      by (auto simp: seen_def)
  next
    case (Found a)
    then show ?thesis
      using assms(3) list_event_node [OF assms(2)] by (auto simp: seen_def)
  next
    case Crashed
    have gone: "\<not> set (linked h) \<subseteq> set (linked sh')" if h: "h \<in> set hs" "\<not> set (linked h) \<subseteq> set (linked sh)" for h
    proof -
      obtain a where a: "a \<in> set (linked h)" "a \<notin> set (linked sh)" using h(2) by blast
      then have "node_at sh a \<noteq> None" using node h(1) by (auto simp: seen_def)
      then show ?thesis using not_linked_again [OF assms(2) _ a(2)] a(1) by blast
    qed
    from assms(3) Crashed consider h where "h \<in> set hs" "\<not> set (linked h) \<subseteq> set (linked sh)"
      | a e where "node_at sh a = Some e" "entry_matches env pid crit e = None" by auto
    then have "(\<exists>h\<in>set (hs @ [sh']). \<not> set (linked h) \<subseteq> set (linked sh')) \<or>
        (\<exists>a e. node_at sh' a = Some e \<and> entry_matches env pid crit e = None)"
    proof cases
      case 1
      then show ?thesis using gone [of h] by (intro disjI1 bexI [of _ h]) simp_all
    next
      case 2
      then show ?thesis using list_event_node [OF assms(2) 2(1)] by blast
    qed
    then show ?thesis by (simp only: Crashed walk_inv.simps)
  qed (use assms(3) in auto)
qed

lemma walk_inv_step:
  assumes "race env pid crit sh0 hs sh w" and "walk_inv env pid crit hs sh w"
  shows "walk_inv env pid crit hs sh (walk_step env pid crit sh w)"
proof -
  have wf: "wf_shared sh" and now: "sh \<in> set hs" using race_wf [OF assms(1)] by simp_all
  have empty: "\<exists>h\<in>set hs. search_entry env (entries h) pid crit = Some None" if "linked sh = []"
    using now that by (intro bexI [of _ sh]) (simp_all add: entries_def search_entry_def)
  show ?thesis
  proof (cases w)
    case Start
    then show ?thesis using empty now search_unsearchable by auto
  next
    case Nonempty
    show ?thesis
    proof (cases "linked sh")
      case Nil
      then show ?thesis using Nonempty empty by simp
    next
      case (Cons a as)
      then have "xs = []" if "linked sh = xs @ a # ys" for xs ys
        using that wf by (cases xs) (auto simp: wf_shared_def)
      then have "passed env pid crit sh a" unfolding passed_def by fastforce
      moreover have "seen hs a" unfolding seen_def using Cons now by (intro bexI [of _ sh]) simp_all
      ultimately show ?thesis using Nonempty Cons assms(2) by simp
    qed
  next
    case (Test a)
    then obtain e where e: "node_at sh a = Some e" using assms seen_node by fastforce
    show ?thesis
    proof (cases "entry_matches env pid crit e")
      case None
      then show ?thesis using Test e by auto
    next
      case (Some b)
      then show ?thesis using Test e assms(2) by (cases b) (auto simp: rejected_def)
    qed
  next
    case (Follow a)
    show ?thesis
    proof (cases "a \<in> set (linked sh)")
      case False
      then have "next_in a (linked sh) = None" by simp
      moreover have "\<exists>h\<in>set hs. \<not> set (linked h) \<subseteq> set (linked sh)"
        using Follow assms(2) False by (auto simp: seen_def)
      ultimately show ?thesis using Follow by simp
    next
      case True
      then obtain xs ys where l: "linked sh = xs @ a # ys" "a \<notin> set xs"
        using split_list_first by metis
      have rej: "\<forall>b\<in>set (xs @ [a]). rejected env pid crit sh b"
        using assms(2) Follow l(1) by (auto simp: passed_def)
      show ?thesis
      proof (cases ys)
        case Nil
        then have "search_loop env pid crit (entries sh) = Some None"
          using search_rejected [OF rej] l(1) by (simp add: entries_def)
        then show ?thesis
          using Follow assms(2) Nil next_in_append [OF l(2), of ys] l(1) now search_searchable by auto
      next
        case (Cons b zs)
        have "us = xs @ [a]" if "linked sh = us @ b # vs" for us vs
        proof -
          have "us @ b # vs = (xs @ [a]) @ b # zs" using that l(1) Cons by simp
          moreover have "distinct (us @ b # vs)" using wf that by (simp add: wf_shared_def)
          then have "b \<notin> set us" "b \<notin> set vs" by simp_all
          ultimately show ?thesis using append_Cons_eq_iff [of b us vs "xs @ [a]" zs] by blast
        qed
        then have "passed env pid crit sh b" using rej unfolding passed_def by metis
        moreover have "seen hs b" unfolding seen_def using l(1) Cons now by (intro bexI [of _ sh]) simp_all
        ultimately show ?thesis
          using Follow assms(2) Cons next_in_append [OF l(2), of ys] l(1) by simp
      qed
    qed
  qed (use assms(2) in auto)
qed

lemma race_inv: "race env pid crit sh0 hs sh w \<Longrightarrow> walk_inv env pid crit hs sh w"
  by (induction rule: race.induct) (auto intro: walk_inv_step walk_inv_event simp del: walk_step.simps)

text \<open>
  The verdict of a search that raced, when no test can crash: it is the verdict on the list of one of
  the moments. Only a removal makes it crash.
\<close>

definition tests_ok :: "kenv \<Rightarrow> path_identifier \<Rightarrow> u32 \<Rightarrow> shared \<Rightarrow> bool" where
  "tests_ok env pid crit sh \<longleftrightarrow> (\<forall>a e. node_at sh a = Some e \<longrightarrow> entry_matches env pid crit e \<noteq> None)"

lemma search_finds:
  assumes "e \<in> set reg" and "entry_matches env pid crit e = Some True"
    and "\<forall>e\<in>set reg. entry_matches env pid crit e \<noteq> None"
  shows "\<exists>e'. search_loop env pid crit reg = Some (Some e')"
  using assms
proof (induction reg)
  case (Cons x reg)
  then obtain b where "entry_matches env pid crit x = Some b" by auto
  then show ?case using Cons by (cases b) auto
qed simp

lemma race_found:
  assumes "race env pid crit sh0 hs sh (Found a)" and "tests_ok env pid crit sh"
  shows "\<exists>h\<in>set hs. \<exists>e. search_entry env (entries h) pid crit = Some (Some e)"
proof -
  obtain h e where h: "searchable pid crit" "h \<in> set hs" "a \<in> set (linked h)" "node_at sh a = Some e"
    "entry_matches env pid crit e = Some True"
    using race_inv [OF assms(1)] by (auto simp: seen_def)
  have sub: "the (node_at h b) = the (node_at sh b) \<and> node_at sh b \<noteq> None" if "b \<in> set (linked h)" for b
  proof -
    have "b \<in> dom (node_at h)" using race_nodes [OF assms(1) h(2)] that by (auto simp: wf_shared_def)
    then show ?thesis using race_nodes [OF assms(1) h(2)] by auto
  qed
  then have "e \<in> set (entries h)" using h(3,4) by (auto simp: entries_def image_iff intro!: bexI [of _ a])
  moreover have "\<forall>e\<in>set (entries h). entry_matches env pid crit e \<noteq> None"
    using sub assms(2) by (fastforce simp: entries_def tests_ok_def)
  ultimately show ?thesis using search_finds h(1,2,5) search_searchable by metis
qed

lemma race_not_found:
  "race env pid crit sh0 hs sh Not_found \<Longrightarrow>
     \<exists>h\<in>set hs. search_entry env (entries h) pid crit = Some None"
  using race_inv by fastforce

lemma race_crashed:
  "race env pid crit sh0 hs sh Crashed \<Longrightarrow> tests_ok env pid crit sh \<Longrightarrow>
     \<exists>h\<in>set hs. \<not> set (linked h) \<subseteq> set (linked sh)"
  using race_inv by (fastforce simp: tests_ok_def)

text \<open>Entries that are well-formed can be tested.\<close>

lemma wf_tests_ok:
  "\<forall>a e. node_at sh a = Some e \<longrightarrow> wf_entry e \<Longrightarrow> tests_ok env \<lparr>path = Some p, ino_no = i\<rparr> 28 sh"
  using entry_matches_eligible by (fastforce simp: tests_ok_def)

text \<open>From any moment on the search comes to an end, if it is not overtaken for ever.\<close>

definition ended :: "walk \<Rightarrow> bool" where
  "ended w \<longleftrightarrow> w \<in> {Not_found, Crashed} \<union> range Found"

lemma walk_result_ended: "walk_result sh r w \<Longrightarrow> ended w"
  by (cases "(sh, r, w)" rule: walk_result.cases) (auto simp: ended_def)

lemma walk_later:
  assumes "ended ((walk_step env pid crit sh ^^ n) (walk_step env pid crit sh w))"
  shows "\<exists>n. ended ((walk_step env pid crit sh ^^ n) w)"
  using assms by (intro exI [of _ "Suc n"]) (simp add: funpow_swap1 del: walk_step.simps)

lemma walk_ends_linked:
  assumes "wf_shared sh" and "a \<in> set (linked sh)"
  shows "\<exists>n. ended ((walk_step env pid crit sh ^^ n) (Test a))"
proof -
  obtain xs ys where "linked sh = xs @ a # ys" using assms(2) split_list by metis
  from walk_loop [OF assms(1) this] walk_result_ended show ?thesis by blast
qed

lemma walk_ends_follow:
  assumes "wf_shared sh"
  shows "\<exists>n. ended ((walk_step env pid crit sh ^^ n) (Follow a))"
proof (cases "next_in a (linked sh)")
  case None
  then show ?thesis by (intro exI [of _ 1]) (simp add: ended_def)
next
  case (Some r)
  show ?thesis
  proof (cases r)
    case None
    then show ?thesis using Some by (intro exI [of _ 1]) (simp add: ended_def)
  next
    case (Some b)
    have "b \<in> set (linked sh)"
      using \<open>next_in a (linked sh) = Some r\<close> Some next_in_member by blast
    from walk_ends_linked [OF assms this] obtain n where
      "ended ((walk_step env pid crit sh ^^ n) (Test b))" by blast
    then show ?thesis
      using walk_later [of n env pid crit sh "Follow a"] \<open>next_in a (linked sh) = Some r\<close> Some by simp
  qed
qed

lemma walk_ends:
  assumes "wf_shared sh"
  shows "\<exists>n. ended ((walk_step env pid crit sh ^^ n) w)"
proof (cases w)
  case Start
  show ?thesis using walk_search [OF assms] walk_result_ended Start by blast
next
  case Nonempty
  show ?thesis
  proof (cases "linked sh")
    case Nil
    then show ?thesis using Nonempty by (intro exI [of _ 1]) (simp add: ended_def)
  next
    case (Cons a as)
    then obtain n where "ended ((walk_step env pid crit sh ^^ n) (Test a))"
      using walk_ends_linked [OF assms] by (metis list.set_intros(1))
    then show ?thesis using walk_later [of n env pid crit sh Nonempty] Nonempty Cons by simp
  qed
next
  case (Test a)
  show ?thesis
  proof (cases "walk_step env pid crit sh (Test a) = Follow a")
    case True
    then show ?thesis using walk_ends_follow [OF assms] walk_later Test by metis
  next
    case False
    then have "ended (walk_step env pid crit sh (Test a))"
      by (auto simp: ended_def split: option.splits bool.splits)
    then show ?thesis using Test by (intro exI [of _ 1]) simp
  qed
next
  case (Follow a)
  then show ?thesis using walk_ends_follow [OF assms] by simp
qed (auto simp: ended_def intro!: exI [of _ 0])

text \<open>A removal under the feet of the search.\<close>

lemma race_walks: "race env pid crit sh0 hs sh w \<Longrightarrow> race env pid crit sh0 hs sh ((walk_step env pid crit sh ^^ n) w)"
  by (induction n) (auto intro: race.walks simp del: walk_step.simps)

lemma removal_crashes:
  assumes "wf_shared sh" and "linked sh = a # as" and "searchable pid crit" and "rejected env pid crit sh a"
  shows "race env pid crit sh [sh, list_del a sh] (list_del a sh) Crashed"
proof -
  have "race env pid crit sh [sh] sh ((walk_step env pid crit sh ^^ 3) Start)"
    by (rule race_walks [OF race.begins [OF assms(1)]])
  moreover have "(walk_step env pid crit sh ^^ 3) Start = Follow a"
    using assms(2-4) by (auto simp: numeral_3_eq_3 rejected_def)
  moreover have "list_event sh (list_del a sh)" using assms(2) by (simp add: list_event.removed)
  ultimately have "race env pid crit sh ([sh] @ [list_del a sh]) (list_del a sh) (Follow a)"
    by (intro race.changes) simp_all
  from race.walks [OF this] show ?thesis
    using assms(1,2) by (auto simp: list_del_def wf_shared_def)
qed

end
