(* ===== verification/Fstyped.thy ===== *)
theory Fstyped
  imports Mkfs
begin

text \<open>
  The file system as a whole: its operations in any order, in any kernel, on any device. Every block
  keeps its size, every inode in memory keeps the type its number has on the device and a size of
  its C type, and the mutex is free between operations. In such a state a read stays in the memory
  of its block, and a write leaves it only with a record longer than a block. A lookup that fails
  while it sets the inode up can leave it locked: then no later lookup returns.
\<close>

text \<open>What is done to a mounted device, and the states it reaches.\<close>

inductive fs_step :: "onefs \<Rightarrow> onefs \<Rightarrow> bool" where
  fill: "singlefilefs_fill_super env sb s = Some (ret, sb', s') \<Longrightarrow> fs_step s s'"
| look: "onefilefs_lookup env name child s = Some (ret, child', s') \<Longrightarrow> fs_step s s'"
| reads: "onefilefs_read env filp len off s = Some (ret, out, off', s') \<Longrightarrow> fs_step s s'"
| writes: "onefilefs_write_async env filp kv s = Some (ret, f', s') \<Longrightarrow> fs_step s s'"

inductive fs_reached :: "onefs \<Rightarrow> bool" where
  device: "wf_device dev \<Longrightarrow> fs_reached (fresh_mount dev)"
| next_step: "fs_reached s \<Longrightarrow> fs_step s s' \<Longrightarrow> fs_reached s'"
| kill: "fs_reached s \<Longrightarrow> fs_reached (singlefilefs_kill_superblock s)"

definition typed_inode :: "int \<Rightarrow> inode \<Rightarrow> bool" where
  "typed_inode n ino \<longleftrightarrow>
     (n = SINGLEFILEFS_FILE_INODE_NUMBER \<and> i_mode ino = S_IFREG + REFMONFS_PERMISSIONS \<or>
      n = SINGLEFILEFS_ROOT_INODE_NUMBER \<and> i_mode ino = S_IFDIR + REFMONFS_PERMISSIONS) \<and>
     - (2 ^ 63) \<le> i_size ino \<and> i_size ino < 2 ^ 63"

definition fs_typed :: "onefs \<Rightarrow> bool" where
  "fs_typed s \<longleftrightarrow> wf_device (device s) \<and> \<not> refmonfs_mutex s \<and>
     (\<forall>n ino. icache s n = Some ino \<longrightarrow> typed_inode n ino)"

lemma fs_typedD:
  "fs_typed s \<Longrightarrow> icache s n = Some ino \<Longrightarrow> typed_inode n ino"
  "fs_typed s \<Longrightarrow> \<not> refmonfs_mutex s" "fs_typed s \<Longrightarrow> wf_device (device s)"
  by (simp_all add: fs_typed_def)

lemma store_length: "store_bytes b i x = Some b' \<Longrightarrow> length b' = length b"
  by (auto simp: store_bytes_def split: if_splits)

lemma lock_unlock: "mutex_lock s = Some s1 \<Longrightarrow> mutex_unlock s1 = s"
  by (cases s) (auto simp: mutex_lock_def mutex_unlock_def split: if_splits)

lemma lock_device: "mutex_lock s = Some s1 \<Longrightarrow> device s1 = device s"
  by (auto simp: mutex_lock_def split: if_splits)

subsection \<open>Each operation\<close>

lemma typed_upd:
  assumes "fs_typed s" and "typed_inode n ino"
  shows "fs_typed (s\<lparr>icache := (icache s)(n \<mapsto> ino)\<rparr>)"
  using assms by (simp add: fs_typed_def)

lemma typed_iput:
  assumes "fs_typed s" and "typed_inode n ino"
  shows "fs_typed (iput_new env n ino s)"
  using assms by (auto simp: fs_typed_def iput_new_def typed_inode_def)

lemma typed_lookup:
  assumes "fs_typed s" and "onefilefs_lookup env name child s = Some (ret, child', s')"
  shows "fs_typed s'"
proof (cases "s' = s")
  case False
  let ?ino = "\<lparr>i_size = 0, i_mode = S_IFREG + REFMONFS_PERMISSIONS, i_new = True\<rparr>"
  have typed: "typed_inode 1 (?ino\<lparr>i_size := to_s64 x, i_new := b\<rparr>)" "typed_inode 1 ?ino" for x b
    using to_s64_range [of x] by (simp_all add: typed_inode_def SINGLEFILEFS_FILE_INODE_NUMBER_def)
  obtain got where "iget_locked env s 1 = Some got" "name = REFMON_FILE_LOG"
    using assms(2) False by (auto simp: onefilefs_lookup_def bind_eq_Some_conv split: if_splits)
  then have "s' = iput_new env 1 ?ino s \<or>
      (\<exists>b. s' = s\<lparr>icache := (icache s)(1 \<mapsto> ?ino\<lparr>i_size := to_s64 (inode_file_size b), i_new := False\<rparr>)\<rparr>)"
    using assms(2) False
    by (cases got) (auto simp: onefilefs_lookup_def Let_def split: option.splits)
  then show ?thesis
    using typed_iput [OF assms(1) typed(2), of env] typed_upd [OF assms(1) typed(1)] by auto
qed (use assms(1) in simp)

lemma typed_fill:
  assumes "fs_typed s" and "singlefilefs_fill_super env sb s = Some (ret, sb', s')"
  shows "fs_typed s'"
proof (cases "s' = s")
  case False
  obtain got where got: "iget_locked env s 10 = Some got" "got \<noteq> No_inode"
    using assms(2) False
    by (auto simp: singlefilefs_fill_super_def SINGLEFILEFS_ROOT_INODE_NUMBER_def Let_def
        bind_eq_Some_conv split: if_splits)
  define ino where "ino = \<lparr>i_size = (case got of Cached i \<Rightarrow> i_size i | _ \<Rightarrow> 0),
    i_mode = S_IFDIR + REFMONFS_PERMISSIONS, i_new = False\<rparr>"
  have "typed_inode 10 i" if "got = Cached i" for i
    using fs_typedD(1) [OF assms(1)] got(1) that
    by (auto simp: iget_locked_def split: option.splits if_splits)
  then have typed: "typed_inode 10 ino"
    by (auto simp: ino_def typed_inode_def SINGLEFILEFS_ROOT_INODE_NUMBER_def
        SINGLEFILEFS_FILE_INODE_NUMBER_def split: iget.splits)
  have "s' = iput_new env 10 ino s \<or> s' = s\<lparr>icache := (icache s)(10 \<mapsto> ino)\<rparr>"
    using assms(2) got False
    by (auto simp: singlefilefs_fill_super_def SINGLEFILEFS_ROOT_INODE_NUMBER_def ino_def Let_def
        bind_eq_Some_conv split: if_splits)
  then show ?thesis
    using typed_iput [OF assms(1) typed, of env] typed_upd [OF assms(1) typed] by auto
qed (use assms(1) in simp)

lemma read_keeps:
  assumes "onefilefs_read env filp len off s = Some (ret, out, off', s')"
  shows "s' = s"
proof -
  obtain f ino s1 where "filp = Some f" "icache s (f_inode f) = Some ino" and l: "mutex_lock s = Some s1"
    using assms by (auto simp: onefilefs_read_def bind_eq_Some_conv)
  then have "s' = mutex_unlock s1"
    using assms
    by (auto simp: onefilefs_read_def Let_def bind_eq_Some_conv split: if_splits option.splits)
  then show ?thesis using lock_unlock [OF l] by simp
qed

lemma write_effect:
  assumes "onefilefs_write_async env filp kv s = Some (ret, f', s')"
  shows "s' = s \<or> (\<exists>k b d n ino x.
    sb_bread env s k = Some b \<and> length d = length b \<and> icache s n = Some ino \<and>
    s' = s\<lparr>device := (device s)(k := d), icache := (icache s)(n \<mapsto> ino\<lparr>i_size := x\<rparr>)\<rparr> \<and>
    (x = i_size ino \<or> (\<exists>y. x = to_s64 y)))"
proof -
  obtain f ino s1 where f: "filp = Some f" and ino: "icache s (f_inode f) = Some ino"
    and l: "mutex_lock s = Some s1"
    using assms by (auto simp: onefilefs_write_async_def bind_eq_Some_conv)
  have s1: "device s1 = device s" "icache s1 = icache s"
    using l by (auto simp: mutex_lock_def split: if_splits)
  obtain nx block0 off boff blk where p: "write_place (i_size ino) (iov_len kv) = (nx, block0, off, boff, blk)"
    by (cases "write_place (i_size ino) (iov_len kv)") auto
  show ?thesis
  proof (cases "nx \<and> sb_bread env s1 block0 = None \<or> sb_bread env s1 blk = None")
    case True
    then have "s' = mutex_unlock s1"
      using assms f ino l p
      by (auto simp: onefilefs_write_async_def Let_def split: if_splits option.splits)
    then show ?thesis using lock_unlock [OF l] by simp
  next
    case False
    then obtain b where b: "sb_bread env s1 blk = Some b" by blast
    then obtain src d where d: "load_bytes (iov_base kv) 0 (iov_len kv) = Some src"
      "store_bytes b boff src = Some d"
      using assms f ino l p False
      by (auto simp: onefilefs_write_async_def Let_def bind_eq_Some_conv split: if_splits)
    let ?grown = "to_u64 (off + iov_len kv)"
    have s': "s' = mutex_unlock (s1\<lparr>device := (device s1)(blk := d),
        icache := (if to_u64 (i_size ino) < ?grown
                   then (icache s1)(f_inode f \<mapsto> ino\<lparr>i_size := to_s64 ?grown\<rparr>) else icache s1)\<rparr>)"
      using assms f ino l p False b d
      by (cases nx) (auto simp: onefilefs_write_async_def Let_def)
    define x where "x = (if to_u64 (i_size ino) < ?grown then to_s64 ?grown else i_size ino)"
    have "(if to_u64 (i_size ino) < ?grown then (icache s)(f_inode f \<mapsto> ino\<lparr>i_size := to_s64 ?grown\<rparr>)
        else icache s) = (icache s)(f_inode f \<mapsto> ino\<lparr>i_size := x\<rparr>)"
      using ino by (simp add: x_def fun_upd_idem)
    then have "s' = s\<lparr>device := (device s)(blk := d), icache := (icache s)(f_inode f \<mapsto> ino\<lparr>i_size := x\<rparr>)\<rparr>"
      using s' l by (cases s) (auto simp: mutex_lock_def mutex_unlock_def split: if_splits)
    moreover have "sb_bread env s blk = Some b" using b s1 by (auto simp: sb_bread_def split: if_splits)
    moreover have "x = i_size ino \<or> (\<exists>y. x = to_s64 y)" by (auto simp: x_def)
    ultimately show ?thesis using store_length [OF d(2)] ino by blast
  qed
qed

lemma typed_write:
  assumes "fs_typed s" and "onefilefs_write_async env filp kv s = Some (ret, f', s')"
  shows "fs_typed s'"
proof (cases "s' = s")
  case False
  then obtain k b d n ino x where b: "sb_bread env s k = Some b" "length d = length b" and ino: "icache s n = Some ino"
    and s': "s' = s\<lparr>device := (device s)(k := d), icache := (icache s)(n \<mapsto> ino\<lparr>i_size := x\<rparr>)\<rparr>"
    and x: "x = i_size ino \<or> (\<exists>y. x = to_s64 y)"
    using write_effect [OF assms(2)] by blast
  have "typed_inode n (ino\<lparr>i_size := x\<rparr>)"
    using fs_typedD(1) [OF assms(1) ino] x to_s64_range by (auto simp: typed_inode_def)
  moreover have "wf_device ((device s)(k := d))"
    using fs_typedD(3) [OF assms(1)] b by (auto simp: wf_device_def sb_bread_def split: if_splits)
  ultimately show ?thesis using assms(1) by (simp add: fs_typed_def s')
qed (use assms(1) in simp)

lemma fs_step_typed: "fs_typed s \<Longrightarrow> fs_step s s' \<Longrightarrow> fs_typed s'"
proof (erule fs_step.cases, goal_cases)
  case 1
  then show ?case using typed_fill by simp
next
  case 2
  then show ?case using typed_lookup by simp
next
  case 3
  then show ?case using read_keeps by blast
next
  case 4
  then show ?case using typed_write by simp
qed

lemma fs_reached_typed: "fs_reached s \<Longrightarrow> fs_typed s"
proof (induction rule: fs_reached.induct)
  case (device dev)
  then show ?case by (simp add: fs_typed_def fresh_mount_def)
next
  case (kill s)
  then show ?case by (simp add: fs_typed_def singlefilefs_kill_superblock_def)
qed (rule fs_step_typed)

lemma open_log_reached:
  assumes "wf_device dev" and "open_log env dev = Some s"
  shows "fs_reached s"
proof -
  obtain ret sb s1 ret' child where
    1: "singlefilefs_fill_super env \<lparr>s_magic = 0, s_root = None\<rparr> (fresh_mount dev) = Some (ret, sb, s1)"
    and 2: "onefilefs_lookup env REFMON_FILE_LOG None s1 = Some (ret', child, s)"
    using assms(2) by (auto simp: open_log_def bind_eq_Some_conv split: if_splits)
  note steps = fs_reached.next_step
  show ?thesis
    by (rule steps [OF steps [OF fs_reached.device [OF assms(1)] fs_step.fill [OF 1]] fs_step.look [OF 2]])
qed

subsection \<open>Memory safety\<close>

text \<open>The two cuts keep a read inside the file, inside its block and within what was asked for.\<close>

lemma read_cut:
  assumes "0 \<le> off" and "0 \<le> len" and "len < 2 ^ 63" and "off < to_u64 n" and "off < 2 ^ 63"
  defines "k \<equiv> within_block (off mod 4096) (within_file (to_u64 n) off len)"
  shows "0 \<le> k" and "k \<le> len" and "off + k \<le> to_u64 n" and "off mod 4096 + k \<le> 4096"
proof -
  have n: "to_u64 n < 2 ^ 64" by (simp add: to_u64_def)
  have m: "0 \<le> off mod 4096" "off mod 4096 < 4096" by simp_all
  define j where "j = within_file (to_u64 n) off len"
  have j: "0 \<le> j \<and> j \<le> len \<and> off + j \<le> to_u64 n"
    using assms(1-5) n by (simp add: j_def within_file_def)
  have "0 \<le> k \<and> k \<le> j \<and> off mod 4096 + k \<le> 4096"
  proof -
    have p: "(2 :: int) ^ 63 + 4096 < 2 ^ 64" by simp
    have "off mod 4096 + j < 2 ^ 64" "0 \<le> off mod 4096 + j" using j m assms(3) p by linarith+
    then have "to_u64 (off mod 4096 + j) = off mod 4096 + j"
      "to_u64 (4096 - off mod 4096) = 4096 - off mod 4096" using m by simp_all
    then show ?thesis
      using j m by (auto simp: k_def j_def [symmetric] within_block_def fs_constants)
  qed
  with j show "0 \<le> k" "k \<le> len" "off + k \<le> to_u64 n" "off mod 4096 + k \<le> 4096" by linarith+
qed

lemma read_safe:
  assumes "fs_typed s" and "icache s (f_inode f) = Some ino"
    and "0 \<le> off" and "off < 2 ^ 63" and "0 \<le> len" and "len < 2 ^ 63"
  shows "\<exists>ret out off'. onefilefs_read env (Some f) len off s = Some (ret, out, off', s) \<and>
    int (length out) \<le> len \<and> off mod 4096 + int (length out) \<le> 4096 \<and>
    (out \<noteq> [] \<longrightarrow> off + int (length out) \<le> to_u64 (i_size ino))"
proof -
  obtain s1 where l: "mutex_lock s = Some s1" using fs_typedD(2) [OF assms(1)] by (simp add: mutex_lock_def)
  note s1 = lock_unlock [OF l] lock_device [OF l]
  note start = onefilefs_read_def assms(2,3) l s1(1) fs_constants
  show ?thesis
  proof (cases "off < to_u64 (i_size ino)")
    case False
    then show ?thesis using assms(3-5) by (simp add: start)
  next
    case True
    define k where "k = within_block (off mod 4096) (within_file (to_u64 (i_size ino)) off len)"
    note k = read_cut [OF assms(3,5,6) True assms(4), folded k_def]
    define b where "b = to_s32 (off div 4096 + 2)"
    have u: "to_u64 off = off" using assms(3,4) by simp
    show ?thesis
    proof (cases "sb_bread env s1 b")
      case None
      then show ?thesis using True assms(3,5) by (simp add: start u b_def)
    next
      case (Some d)
      then have "length d = 4096"
        using fs_typedD(3) [OF assms(1)] s1(2) by (auto simp: sb_bread_def wf_device_def split: if_splits)
      then have "load_bytes d (off mod 4096) k = Some (take (nat k) (drop (nat (off mod 4096)) d))"
        using k by (simp add: load_bytes_def)
      then have "onefilefs_read env (Some f) len off s = Some (k - int (uncopied env k),
          take (nat (k - int (uncopied env k))) (take (nat k) (drop (nat (off mod 4096)) d)),
          off + (k - int (uncopied env k)), s)" (is "_ = Some (_, ?out, _)")
        using Some True assms(3) by (simp add: start u Let_def k_def [symmetric] b_def [symmetric])
      moreover have "int (length ?out) \<le> k" using k(1) by simp
      ultimately show ?thesis using k by auto
    qed
  qed
qed

text \<open>A write leaves the memory of its block exactly when the record is longer than a block.\<close>

lemma write_crash_iff:
  assumes "fs_typed s" and "icache s (f_inode f) = Some ino" and "0 \<le> i_size ino"
  defines "b \<equiv> to_s32 (i_size ino div 4096 + 2)"
  shows "onefilefs_write_async env (Some f) \<lparr>iov_base = x, iov_len = int (length x)\<rparr> s = None \<longleftrightarrow>
    4096 < length x \<and> bread_ok env b \<and> bread_ok env (to_s32 (b + 1))"
proof -
  obtain s1 where l: "mutex_lock s = Some s1" using fs_typedD(2) [OF assms(1)] by (simp add: mutex_lock_def)
  have rd: "sb_bread env s1 k = (if bread_ok env k then Some (device s k) else None)"
    and len: "length (device s k) = 4096" for k
    using lock_device [OF l] fs_typedD(3) [OF assms(1)] by (simp_all add: sb_bread_def wf_device_def)
  have src: "load_bytes x 0 (int (length x)) = Some x" by (simp add: load_bytes_def)
  have m: "0 \<le> i_size ino mod 4096" "i_size ino mod 4096 < 4096" by simp_all
  show ?thesis
  proof (cases "4096 - i_size ino mod 4096 \<le> int (length x)")
    case True
    then show ?thesis
      using m assms(2,3) l rd src len
      by (auto simp: onefilefs_write_async_def write_place_def fs_constants Let_def b_def store_bytes_def)
  next
    case False
    then have "length x < 4096" using m by linarith
    then show ?thesis
      using False m assms(2,3) l rd src len
      by (auto simp: onefilefs_write_async_def write_place_def fs_constants Let_def b_def store_bytes_def)
  qed
qed

subsection \<open>A lookup that fails half way\<close>

definition log_locked :: "onefs \<Rightarrow> bool" where
  "log_locked s \<longleftrightarrow> (\<exists>ino. icache s 1 = Some ino \<and> i_new ino)"

lemma log_locked_lookup: "log_locked s \<Longrightarrow> onefilefs_lookup env REFMON_FILE_LOG child s = None"
  by (auto simp: log_locked_def onefilefs_lookup_def iget_locked_def)

lemma fill_other_inode:
  assumes "singlefilefs_fill_super env sb s = Some (ret, sb', s')"
  shows "icache s' 1 = icache s 1"
  using assms
  by (auto simp: singlefilefs_fill_super_def Let_def bind_eq_Some_conv iput_new_def
      SINGLEFILEFS_ROOT_INODE_NUMBER_def split: if_splits)

lemma log_locked_step: "log_locked s \<Longrightarrow> fs_step s s' \<Longrightarrow> log_locked s'"
proof (erule fs_step.cases)
  fix env sb t ret sb' t'
  assume "log_locked s" "s = t" "s' = t'" "singlefilefs_fill_super env sb t = Some (ret, sb', t')"
  then show "log_locked s'" using fill_other_inode by (simp add: log_locked_def)
next
  fix env name child t ret child' t'
  assume *: "log_locked s" "s = t" "s' = t'" "onefilefs_lookup env name child t = Some (ret, child', t')"
  then have "name \<noteq> REFMON_FILE_LOG" using log_locked_lookup by fastforce
  then show "log_locked s'" using * by (simp add: onefilefs_lookup_def)
next
  fix env filp len off t ret out off' t'
  assume "log_locked s" "s = t" "s' = t'" "onefilefs_read env filp len off t = Some (ret, out, off', t')"
  then show "log_locked s'" using read_keeps by blast
next
  fix env filp kv t ret f' t'
  assume *: "log_locked s" "s = t" "s' = t'" "onefilefs_write_async env filp kv t = Some (ret, f', t')"
  from write_effect [OF *(4)] show "log_locked s'"
  proof
    assume "\<exists>k b d n ino x. sb_bread env t k = Some b \<and> length d = length b \<and> icache t n = Some ino \<and>
      t' = t\<lparr>device := (device t)(k := d), icache := (icache t)(n \<mapsto> ino\<lparr>i_size := x\<rparr>)\<rparr> \<and>
      (x = i_size ino \<or> (\<exists>y. x = to_s64 y))"
    then show "log_locked s'" using * by (auto simp: log_locked_def)
  qed (use * in simp)
qed

lemma log_locked_for_ever: "fs_step\<^sup>*\<^sup>* s s' \<Longrightarrow> log_locked s \<Longrightarrow> log_locked s'"
  by (induction rule: rtranclp_induct) (auto intro: log_locked_step)

end
