(* ===== verification/Inflight.thy ===== *)
theory Inflight
  imports Monitor
begin

text \<open>
  Calls in flight. A probed function takes time: between the entry handler that caught a call and the
  return handler that blocks it, other processes call the module, change its state and registry, and
  are caught themselves. Here entering and leaving are events of their own and the instances in use
  are part of the state, so that the runs of \<open>Monitor\<close>, in which a call is one event, are the ones
  in which every caught call leaves at once.
\<close>

subsection \<open>Interleaved runs\<close>

text \<open>
  An instance in use. The last two fields are not in the kernel's structure: they remember the state
  and the kernel in which the call was caught.
\<close>

record kretprobe_instance =
  inst_probe :: probe
  inst_regs :: pt_regs
  caught_in :: ksys
  caught_by :: kenv

definition busy :: "probe \<Rightarrow> kretprobe_instance list \<Rightarrow> nat" where
  "busy p fl = length (filter (\<lambda>i. inst_probe i = p) fl)"

datatype flight_event =
    Enter probe pt_regs
  | Leave kretprobe_instance pt_regs u64   \<comment> \<open>the registers at the return and the function's value\<close>
  | Event event

datatype flight_outcome = Caught bool | Outcome outcome

fun is_probed_call :: "event \<Rightarrow> bool" where
  "is_probed_call (Probed_call p n regs rv) = True"
| "is_probed_call _ = False"

inductive flight_step ::
    "kenv \<Rightarrow> ksys \<times> kretprobe_instance list \<Rightarrow> flight_event \<Rightarrow> flight_outcome \<Rightarrow>
       ksys \<times> kretprobe_instance list \<Rightarrow> bool" where
  enter: "enter_call env p (busy p fl) regs s = Some (c, s') \<Longrightarrow>
    fl' = (if c then fl @ [\<lparr>inst_probe = p, inst_regs = regs, caught_in = s, caught_by = env\<rparr>]
           else fl) \<Longrightarrow>
    flight_step env (s, fl) (Enter p regs) (Caught c) (s', fl')"
| leave: "fl = xs @ i # ys \<Longrightarrow> leave_call env regs rv s = Some (v, s') \<Longrightarrow>
    flight_step env (s, fl) (Leave i regs rv) (Outcome (Value v)) (s', xs @ ys)"
| event: "step env s e r s' \<Longrightarrow> \<not> is_probed_call e \<Longrightarrow>
    flight_step env (s, fl) (Event e) (Outcome r) (s', fl)"

inductive_cases enterE: "flight_step env (s, fl) (Enter p regs) r (s', fl')"
inductive_cases leaveE: "flight_step env (s, fl) (Leave i regs rv) r (s', fl')"
inductive_cases eventE: "flight_step env (s, fl) (Event e) r (s', fl')"

inductive interleaved :: "(kenv \<Rightarrow> bool) \<Rightarrow> ksys \<Rightarrow> ksys \<Rightarrow> kretprobe_instance list \<Rightarrow> bool"
  for W s0 where
  loaded: "W env \<Longrightarrow> just_loaded s0 \<Longrightarrow> init_module env s0 = Some (0, s) \<Longrightarrow>
    interleaved W s0 s []"
| next_event: "interleaved W s0 s fl \<Longrightarrow> W env \<Longrightarrow> flight_step env (s, fl) e r (s', fl') \<Longrightarrow>
    interleaved W s0 s' fl'"

lemma busy_instance: "0 < busy p fl \<Longrightarrow> \<exists>i\<in>set fl. inst_probe i = p"
  by (auto simp: busy_def filter_empty_conv)

text \<open>A call of \<open>Monitor\<close> is one that, if it is caught, leaves at once.\<close>

lemma busy_append [simp]: "busy p (xs @ ys) = busy p xs + busy p ys"
  "busy p [] = 0" "busy p (i # xs) = (if inst_probe i = p then Suc (busy p xs) else busy p xs)"
  by (simp_all add: busy_def)

lemma probed_call_enter_leave:
  assumes "probed_call env p (busy p fl) regs rv s = Some (v, s')"
  shows "\<exists>c s1 fl1. flight_step env (s, fl) (Enter p regs) (Caught c) (s1, fl1) \<and>
    (if c then \<exists>i. flight_step env (s1, fl1) (Leave i regs rv) (Outcome (Value v)) (s', fl)
     else v = rv \<and> s' = s1 \<and> fl1 = fl)"
proof -
  obtain c s1 where 1: "enter_call env p (busy p fl) regs s = Some (c, s1)"
    and 2: "(if c then leave_call env regs rv s1 else Some (rv, s1)) = Some (v, s')"
    using assms by (auto simp: probed_call_def bind_eq_Some_conv)
  let ?i = "\<lparr>inst_probe = p, inst_regs = regs, caught_in = s, caught_by = env\<rparr>"
  note en = flight_step.enter [OF 1 refl]
  show ?thesis
  proof (cases c)
    case True
    then have "flight_step env (s1, fl @ [?i]) (Leave ?i regs rv) (Outcome (Value v)) (s', fl @ [])"
      using 2 by (intro flight_step.leave) simp_all
    then show ?thesis using en True by auto
  next
    case False
    then show ?thesis using en 2 by auto
  qed
qed

text \<open>
  With an instance free, the number in use does not matter, and with none the call changes nothing: so
  every state that \<open>Monitor\<close> reaches is one of an interleaved run, with no call in flight.
\<close>

lemma probed_call_in_use:
  "probed_call env p n regs rv s = (if n < 15 then probed_call env p 0 regs rv s else Some (rv, s))"
  by (cases p) (simp_all add: probed_call_def enter_call_def)

lemma step_interleaved:
  assumes "interleaved W s0 s []" and "W env" and "step env s e r s'"
  shows "interleaved W s0 s' []"
proof (cases "is_probed_call e")
  case False
  from flight_step.event [OF assms(3) False] show ?thesis
    by (rule interleaved.next_event [OF assms(1,2)])
next
  case True
  then obtain p n regs rv where e: "e = Probed_call p n regs rv" by (cases e) auto
  then obtain v where v: "probed_call env p n regs rv s = Some (v, s')" using assms(3) by auto
  show ?thesis
  proof (cases "n < 15")
    case False
    then show ?thesis using v assms(1) probed_call_in_use [of env p n] by simp
  next
    case True
    then have "probed_call env p (busy p []) regs rv s = Some (v, s')"
      using v probed_call_in_use [of env p n] by simp
    from probed_call_enter_leave [OF this] obtain c s1 fl1 where
      1: "flight_step env (s, []) (Enter p regs) (Caught c) (s1, fl1)"
      and 2: "if c then \<exists>i. flight_step env (s1, fl1) (Leave i regs rv) (Outcome (Value v)) (s', [])
         else v = rv \<and> s' = s1 \<and> fl1 = []" by blast
    have "interleaved W s0 s1 fl1" by (rule interleaved.next_event [OF assms(1,2) 1])
    then show ?thesis
      using 2 interleaved.next_event [of W s0 s1 fl1 env] assms(2) by (cases c) auto
  qed
qed

lemma reachable_interleaved: "reachable W s0 s \<Longrightarrow> interleaved W s0 s []"
  by (induction rule: reachable.induct) (auto intro: interleaved.loaded step_interleaved)

subsection \<open>Invariants of interleaved runs\<close>

text \<open>
  An invariant of the module that does not look at the bookkeeping and the works is one of the
  interleaved runs.
\<close>

locale flight_invariant = run_invariant +
  assumes wf: "I s0 s \<Longrightarrow> wf_entries (registry (the_inst s))"
    and bookkeeping: "I s0 s \<Longrightarrow> preempt m = preempt (mem s) \<Longrightarrow> I s0 (s\<lparr>mem := m, works := ws\<rparr>)"
begin

lemma flight_step_keeps:
  assumes "W env" and "I s0 s" and "flight_step env (s, fl) e r (s', fl')"
  shows "I s0 s'"
  using assms(3)
proof (cases rule: flight_step.cases)
  case (enter p regs c)
  obtain m where m: "s' = s\<lparr>mem := m\<rparr>" "preempt m = preempt (mem s)"
    using enter_call_frame(1) [OF wf [OF assms(2)] enter(3)] by auto
  then show ?thesis using bookkeeping [OF assms(2) m(2), of "works s"] by simp
next
  case (leave xs i ys regs rv v)
  then show ?thesis using leave_call_frame(2) bookkeeping [OF assms(2)] by blast
next
  case event
  then show ?thesis using step [OF assms(1,2)] by blast
qed

lemma always_interleaved: "interleaved W s0 s fl \<Longrightarrow> I s0 s"
  by (induction rule: interleaved.induct) (auto intro: init flight_step_keeps)

end

interpretation safety_flight: flight_invariant "world h" "\<lambda>_. monitor_inv h" for h
  by unfold_locales (auto simp: monitor_inv_def)

interpretation probes_flight: flight_invariant "\<lambda>env. world h env \<and> arming_ok env"
  "\<lambda>_ s. monitor_inv h s \<and> (\<forall>p. probe_enabled s p \<longleftrightarrow> is_on (the_inst s))" for h
  by unfold_locales (auto simp: monitor_inv_def)

interpretation unique_flight: flight_invariant "\<lambda>env. world h env \<and> calm env"
  "\<lambda>_ s. monitor_inv h s \<and> reg_inv (registry (the_inst s))" for h
  by unfold_locales (auto simp: monitor_inv_def)

subsection \<open>The instances\<close>

text \<open>Every instance in use was caught in a state of the run.\<close>

lemma flying_caught:
  assumes "interleaved W s0 s fl" and "i \<in> set fl"
  shows "\<exists>fl' n s'. interleaved W s0 (caught_in i) fl' \<and> W (caught_by i) \<and>
    enter_call (caught_by i) (inst_probe i) n (inst_regs i) (caught_in i) = Some (True, s')"
  using assms
proof (induction rule: interleaved.induct)
  case (next_event s fl env e r s' fl')
  from next_event.hyps(3) show ?case
  proof (cases rule: flight_step.cases)
    case (enter p regs c)
    then consider "i \<in> set fl" | "c" "i = \<lparr>inst_probe = p, inst_regs = regs, caught_in = s, caught_by = env\<rparr>"
      using next_event.prems by (auto split: if_splits)
    then show ?thesis
    proof cases
      case 2
      with enter(3) next_event.hyps(1,2) show ?thesis by auto
    qed (use next_event.IH in blast)
  qed (use next_event in auto)
qed simp

text \<open>A call that is caught finds an instance, so no probe has more than its \<open>maxactive\<close> in use.\<close>

lemma enter_call_free: "enter_call env p n regs s = Some (True, s') \<Longrightarrow> n < 15"
  by (cases p) (auto simp: enter_call_def split: if_splits)

lemma enter_call_full: "enter_call env p 15 regs s = Some (False, s)"
  by (cases p) (auto simp: enter_call_def)

lemma caught_leave_value:
  "flight_step env (s, fl) (Leave i regs rv) r (s', fl') \<Longrightarrow> r = Outcome (Value minus_EACCES)"
  by (erule leaveE) (auto dest: leave_call_frame(1))

lemma busy_bound:
  assumes "interleaved W s0 s fl"
  shows "busy p fl \<le> 15"
  using assms
proof (induction rule: interleaved.induct)
  case (next_event s fl env e r s' fl')
  from next_event.hyps(3) show ?case
  proof (cases rule: flight_step.cases)
    case (enter q regs c)
    then show ?thesis
      using next_event.IH enter_call_free [of env q "busy q fl" regs s s'] by auto
  qed (use next_event.IH in \<open>auto split: if_splits\<close>)
qed simp

text \<open>
  Calls that the registry denies fill the instances of a probe: from a state with no call in flight, any
  number of them up to \<open>maxactive\<close> can be caught and not yet left.
\<close>

lemma denied_calls_fill:
  assumes "interleaved W s0 s []" and "W env" and "wf_entries (registry (the_inst s))" and "no_oom env"
    and "probe_enabled s p"
    and "dentry_path_raw env (hook_dentry (entry_handler (kretprobe_of p)) env regs) = Some q"
    and "hook_denied (entry_handler (kretprobe_of p)) env (registry (the_inst s)) regs"
    and "n \<le> 15"
  shows "\<exists>m fl. interleaved W s0 (s\<lparr>mem := m\<rparr>) fl \<and> busy p fl = n \<and> length fl = n \<and>
    (\<forall>i\<in>set fl. inst_probe i = p \<and> inst_regs i = regs)"
  using assms(8)
proof (induction n)
  case 0
  have "interleaved W s0 (s\<lparr>mem := mem s\<rparr>) []" using assms(1) by simp
  then show ?case by (metis busy_append(2) empty_iff list.set(1) list.size(3))
next
  case (Suc n)
  then obtain m fl where fl: "interleaved W s0 (s\<lparr>mem := m\<rparr>) fl" "busy p fl = n" "length fl = n"
    "\<forall>i\<in>set fl. inst_probe i = p \<and> inst_regs i = regs" by auto
  obtain m' where "enter_call env p n regs (s\<lparr>mem := m\<rparr>) = Some (True, s\<lparr>mem := m'\<rparr>)"
    using enter_call_exact [OF _ assms(4,6), of "s\<lparr>mem := m\<rparr>" n] assms(3,5,7) Suc.prems by auto
  from flight_step.enter [of env p fl, unfolded fl(2), OF this refl]
  have "interleaved W s0 (s\<lparr>mem := m'\<rparr>)
      (fl @ [\<lparr>inst_probe = p, inst_regs = regs, caught_in = s\<lparr>mem := m\<rparr>, caught_by = env\<rparr>])"
    by (intro interleaved.next_event [OF fl(1) assms(2)]) simp
  then show ?case using fl(2-4) by (intro exI conjI) (assumption, auto)
qed

text \<open>An instance stays in use until its call leaves, which it can do at any time.\<close>

lemma stays_in_flight:
  assumes "flight_step env (s, fl) e r (s', fl')" and "i \<in> set fl" and "\<And>regs rv. e \<noteq> Leave i regs rv"
  shows "i \<in> set fl'"
  using assms(1) by (cases rule: flight_step.cases) (use assms(2,3) in auto)

lemma leaves_blocked:
  assumes "\<not> spinlock_probing (the_inst s)" and "i \<in> set fl" and "no_oom env"
    and "exe_dentry env = Some d" and "dentry_path_raw env d = Some exe"
  shows "\<exists>m. flight_step env (s, fl) (Leave i regs rv) (Outcome (Value minus_EACCES))
    (s\<lparr>mem := m, works := works s @ [blocked_work env exe]\<rparr>, remove1 i fl)"
proof -
  obtain xs ys where fl: "fl = xs @ i # ys" "i \<notin> set xs" using split_list_first [OF assms(2)] by blast
  then have "remove1 i fl = xs @ ys" by (simp add: remove1_append)
  then show ?thesis
    using leave_call_ok [OF assms(1,3-5), of regs rv] fl(1) by (auto intro: flight_step.leave)
qed

text \<open>
  The price of catching a call: the entry handler resolved a path with an allocation that may sleep,
  where sleeping is not allowed.
\<close>

lemma resolve_path_alloc_sleeps:
  assumes "resolve_path_alloc env p flags m = (Some q, m')" and "0 < preempt m"
  shows "slept m'"
proof -
  obtain input where p: "p = Some input" "strlen input \<noteq> 0"
    using assms(1) by (auto simp: resolve_path_alloc_def split: option.splits if_splits)
  obtain ok1 m1 where 1: "kmalloc env GFP_KERNEL m = (ok1, m1)" by force
  obtain ok2 m2 where 2: "kmalloc env GFP_KERNEL m1 = (ok2, m2)" by force
  have "slept m1" "slept m2"
    using kmalloc_slept [OF 1] kmalloc_slept [OF 2] assms(2) by auto
  moreover have "m' = m1 \<or> m' = m2"
    using assms(1) p 1 2
    by (auto simp: resolve_path_alloc_def Let_def split: if_splits option.splits)
  ultimately show ?thesis by blast
qed

lemma caught_sleeps:
  assumes "wf_entries (registry (the_inst s))" and "enter_call env p n regs s = Some (True, s')"
  shows "slept (mem s')"
proof -
  let ?h = "entry_handler (kretprobe_of p)"
  obtain m where 1: "run_hook ?h env regs (registry (the_inst s)) (preempt_disable (mem s)) = Some (0, m)"
    and s': "mem s' = preempt_enable m"
    using assms(2) by (auto simp: enter_call_def run_entry_def bind_eq_Some_conv split: if_splits)
  obtain q m1 where 2: "extract_path_from_dentry env (hook_dentry ?h env regs)
      (preempt_disable (mem s)) = Some (q, m1)"
    using 1 unfolding run_hook_steps [OF assms(1)] by (auto simp: bind_eq_Some_conv)
  obtain a m2 where 3: "resolve_path_alloc env q (hook_flags ?h) m1 = (a, m2)" by force
  have "m2 = m" and "hook_verdict ?h env (registry (the_inst s)) regs a"
    using 1 2 3 unfolding run_hook_steps [OF assms(1)] by (auto split: if_splits)
  then obtain b where "a = Some b" "m2 = m" by (cases a) auto
  moreover have "0 < preempt m1" using extract_path_mem(1) [OF 2] by simp
  ultimately have "slept m" using resolve_path_alloc_sleeps 3 by blast
  then show ?thesis by (simp add: s' preempt_enable_def)
qed

end
