(* ===== verification/Parallel.thy ===== *)
theory Parallel
  imports Inflight
begin

text \<open>
  The system calls on several processors. A call spins on the lock of the instance, does its work in
  the section, and leaves it; here each of these is a step of its own, and \<open>set_state\<close> takes one more
  for every probe that it switches. Between any two of them the other processors run: they wait
  for the lock, and the probes, which take no notice of it, catch calls and let them go.
\<close>

subsection \<open>A call as steps\<close>

text \<open>
  Where a call is: before the lock, in the section with nothing done yet, with the state checked and
  not yet written, with probes left to switch, with its result, and out of the section.
\<close>

datatype pc =
    Spinning | Entered | Writing string | Switching bool "probe list" | Leaving int | Over int

fun is_call :: "event \<Rightarrow> bool" where
  "is_call (Set_state u) = True"
| "is_call (Reconf_add u w) = True"
| "is_call (Reconf_rm u w) = True"
| "is_call (Flush w) = True"
| "is_call _ = False"

text \<open>The order in which \<open>probing_on\<close> and \<open>probing_off\<close> go through the probes.\<close>

definition probes_in_order :: "probe list" where
  "probes_in_order = [krp_vfs_open, krp_filp_open, krp_vfs_unlink, krp_vfs_mkdir, krp_vfs_rmdir]"

definition switch_probe :: "kenv \<Rightarrow> bool \<Rightarrow> probe \<Rightarrow> ksys \<Rightarrow> ksys" where
  "switch_probe env on p s = (if on then enable_kretprobe env p s else disable_kretprobe env p s)"

text \<open>
  The section of a reconfiguring call: the checks and the body. What a search that runs beside it may
  see of the body's writes to the list is the matter of theory \<open>Race\<close>.
\<close>

definition reconf_section ::
    "kenv \<Rightarrow> cptr \<Rightarrow> (ksys \<Rightarrow> (int \<times> ksys) option) \<Rightarrow> ksys \<Rightarrow> (pc \<times> ksys) option" where
  "reconf_section env password_in body s = do {
     (ret, m) \<leftarrow> safety_checks env RECONF_CHECKS password_in (the_inst s) (mem s);
     let s1 = s\<lparr>mem := m\<rparr>;
     (ret, s2) \<leftarrow> (if ret \<noteq> 0 then Some (ret, s1) else body s1);
     Some (Leaving ret, s2)
   }"

text \<open>One step. Before the lock no result is waiting; elsewhere it is a crash, or the call is over.\<close>

fun call_step :: "kenv \<Rightarrow> event \<Rightarrow> pc \<Rightarrow> ksys \<Rightarrow> (pc \<times> ksys) option" where
  "call_step env e Spinning s = do {
     s1 \<leftarrow> spin_instance_lock s;
     Some (Entered, s1)
   }"
| "call_step env (Set_state new_state) Entered s = do {
     (ret, m) \<leftarrow> safety_checks env REFMON_SAFETY_CHECK_ROOT None (the_inst s) (mem s);
     let s1 = s\<lparr>mem := m\<rparr>;
     if ret \<noteq> 0 then Some (Leaving ret, s1)
     else do {
       str \<leftarrow> new_state;
       Some (if \<not> is_state_valid str then Leaving (- EINVAL) else Writing str, s1)
     }
   }"
| "call_step env (Set_state new_state) (Writing str) s =
     (let s1 = s\<lparr>the_inst := (the_inst s)\<lparr>state := string_to_state str\<rparr>\<rparr> in
      Some (Switching (is_on (the_inst s1)) probes_in_order, s1))"
| "call_step env (Set_state new_state) (Switching on (p # ps)) s =
     Some (Switching on ps, switch_probe env on p s)"
| "call_step env (Set_state new_state) (Switching on []) s = Some (Leaving 0, s)"
| "call_step env (Reconf_add path_in password_in) Entered s =
     reconf_section env password_in (reconf_add_body path_in env) s"
| "call_step env (Reconf_rm path_in password_in) Entered s =
     reconf_section env password_in (reconf_rm_body path_in env) s"
| "call_step env (Flush password_in) Entered s = reconf_section env password_in (flush_body env) s"
| "call_step env e (Leaving r) s = Some (Over r, spin_instance_unlock s)"
| "call_step env e pc s = None"

inductive call_steps :: "kenv \<Rightarrow> event \<Rightarrow> pc \<times> ksys \<Rightarrow> pc \<times> ksys \<Rightarrow> bool" for env e where
  stop: "call_steps env e x x"
| more: "call_step env e pc s = Some (pc1, s1) \<Longrightarrow> call_steps env e (pc1, s1) y \<Longrightarrow>
    call_steps env e (pc, s) y"

text \<open>Left alone it is the call.\<close>

fun whole_call :: "kenv \<Rightarrow> event \<Rightarrow> ksys \<Rightarrow> (int \<times> ksys) option" where
  "whole_call env (Set_state u) s = sys_set_state env u s"
| "whole_call env (Reconf_add u w) s = sys_reconf_add env u w s"
| "whole_call env (Reconf_rm u w) s = sys_reconf_rm env u w s"
| "whole_call env (Flush w) s = sys_flush env w s"
| "whole_call env e s = None"

lemma whole_call_step: "is_call e \<Longrightarrow> step env s e (Returned r) s' \<longleftrightarrow> whole_call env e s = Some (r, s')"
  by (cases e) (auto intro: step.intros)

lemma steps_switching:
  "call_steps env (Set_state u) (Switching on ps, s)
     (Leaving 0, fold (switch_probe env on) ps s)"
  by (induction ps arbitrary: s) (auto intro: call_steps.intros)

lemma fold_switch:
  "fold (switch_probe env on) probes_in_order s = snd (probing_update env on s)"
  by (simp add: probes_in_order_def switch_probe_def probing_update_def probing_on_def probing_off_def
      Let_def)

lemma step_once: "call_step env e pc s = Some (pc1, s1) \<Longrightarrow> call_steps env e (pc, s) (pc1, s1)"
  using call_steps.more call_steps.stop by blast

lemma steps_trans: "call_steps env e x y \<Longrightarrow> call_steps env e y z \<Longrightarrow> call_steps env e x z"
  by (induction rule: call_steps.induct) (auto intro: call_steps.more)

lemma steps_reconf:
  assumes "locked_reconf env w body s = Some (r, s')"
    and "\<And>t. call_step env e Entered t = reconf_section env w body t"
  shows "call_steps env e (Spinning, s) (Over r, s')"
proof -
  obtain s1 s3 where 1: "spin_instance_lock s = Some s1"
    and 2: "reconf_section env w body s1 = Some (Leaving r, s3)" and 3: "s' = spin_instance_unlock s3"
    using assms(1) by (auto simp: locked_reconf_def reconf_section_def bind_eq_Some_conv Let_def)
  have "call_step env e (Leaving r) s3 = Some (Over r, s')" using 3 by (cases e) simp_all
  moreover have "call_step env e Spinning s = Some (Entered, s1)"
    "call_step env e Entered s1 = Some (Leaving r, s3)" using 1 2 assms(2) by simp_all
  ultimately show ?thesis by (meson step_once steps_trans)
qed

lemma steps_set_state:
  assumes "do_set_state env u s = Some (r, s')"
  shows "call_steps env (Set_state u) (Spinning, s) (Over r, s')"
proof -
  obtain s1 where 1: "spin_instance_lock s = Some s1"
    using assms by (auto simp: do_set_state_def bind_eq_Some_conv)
  have last: "call_steps env (Set_state u) (Leaving c, t) (Over c, spin_instance_unlock t)" for c t
    by (rule step_once) simp
  have first: "call_steps env (Set_state u) (Spinning, s) (Entered, s1)"
    using 1 by (intro step_once) simp
  show ?thesis
  proof (cases "euid env = 0")
    case False
    then have "r = - EACCES" "s' = spin_instance_unlock s1"
      using assms 1 by (auto simp: do_set_state_def)
    moreover have "call_steps env (Set_state u) (Entered, s1) (Leaving (- EACCES), s1)"
      using False by (intro step_once) simp
    ultimately show ?thesis using steps_trans first last by blast
  next
    case True
    then obtain str where u: "u = Some str" using assms 1 by (cases u) (auto simp: do_set_state_def)
    show ?thesis
    proof (cases "is_state_valid str")
      case False
      then have "r = - EINVAL" "s' = spin_instance_unlock s1"
        using assms 1 True u by (auto simp: do_set_state_def)
      moreover have "call_steps env (Set_state u) (Entered, s1) (Leaving (- EINVAL), s1)"
        using False True u by (intro step_once) simp
      ultimately show ?thesis using steps_trans first last by blast
    next
      case valid: True
      define s2 where "s2 = s1\<lparr>the_inst := (the_inst s1)\<lparr>state := string_to_state str\<rparr>\<rparr>"
      define s3 where "s3 = fold (switch_probe env (is_on (the_inst s2))) probes_in_order s2"
      have "call_steps env (Set_state u) (Entered, s1) (Switching (is_on (the_inst s2)) probes_in_order, s2)"
        by (rule steps_trans [OF step_once [of _ _ _ _ "Writing str" s1] step_once])
          (use valid True u in \<open>simp_all add: s2_def\<close>)
      moreover have "s3 = snd (set_state_inner env str s1)"
        unfolding s3_def fold_switch by (simp add: s2_def set_state_inner_def Let_def split: prod.split)
      then have "r = 0" "s' = spin_instance_unlock s3"
        using assms 1 True u valid by (auto simp: do_set_state_def set_state_inner_eq)
      ultimately show ?thesis
        using steps_trans first last steps_switching [of env u "is_on (the_inst s2)" probes_in_order s2]
        unfolding s3_def by blast
    qed
  qed
qed

lemma call_alone:
  assumes "is_call e" and "whole_call env e s = Some (r, s')"
  shows "call_steps env e (Spinning, s) (Over r, s')"
  using assms
  by (cases e)
    (auto simp: sys_calls do_reconf_add_eq do_reconf_rm_eq do_flush_registry_eq
      intro: steps_set_state steps_reconf)

subsection \<open>Processors\<close>

text \<open>
  The callers, by processor, each with the kernel's side of its call; the calls that are over, in the
  order in which they left their sections, with their results.
\<close>

type_synonym callers = "nat \<Rightarrow> (kenv \<times> event \<times> pc) option"
type_synonym history = "(kenv \<times> event \<times> int) list"

fun inside :: "pc \<Rightarrow> bool" where
  "inside Spinning = False"
| "inside (Over r) = False"
| "inside _ = True"

definition holding :: "callers \<Rightarrow> nat \<Rightarrow> bool" where
  "holding cs c \<longleftrightarrow> (\<exists>env e pc. cs c = Some (env, e, pc) \<and> inside pc)"

definition extend :: "kenv \<Rightarrow> event \<Rightarrow> pc \<Rightarrow> history \<Rightarrow> history" where
  "extend env e pc hist = (case pc of Over r \<Rightarrow> hist @ [(env, e, r)] | _ \<Rightarrow> hist)"

inductive smp_run ::
    "(kenv \<Rightarrow> bool) \<Rightarrow> ksys \<Rightarrow> ksys \<Rightarrow> kretprobe_instance list \<Rightarrow> callers \<Rightarrow> history \<Rightarrow> bool"
  for W s0 where
  loaded: "W env \<Longrightarrow> just_loaded s0 \<Longrightarrow> init_module env s0 = Some (0, s) \<Longrightarrow>
    smp_run W s0 s [] (\<lambda>_. None) []"
| kernel: "smp_run W s0 s fl cs hist \<Longrightarrow> W env \<Longrightarrow> flight_step env (s, fl) e r (s', fl') \<Longrightarrow>
    (\<And>x. e = Event x \<Longrightarrow> \<not> is_call x) \<Longrightarrow> smp_run W s0 s' fl' cs hist"
| calls: "smp_run W s0 s fl cs hist \<Longrightarrow> cs c = None \<Longrightarrow> W env \<Longrightarrow> is_call e \<Longrightarrow>
    smp_run W s0 s fl (cs(c \<mapsto> (env, e, Spinning))) hist"
| runs: "smp_run W s0 s fl cs hist \<Longrightarrow> cs c = Some (env, e, pc) \<Longrightarrow>
    call_step env e pc s = Some (pc', s') \<Longrightarrow>
    smp_run W s0 s' fl (cs(c \<mapsto> (env, e, pc'))) (extend env e pc' hist)"
| returns: "smp_run W s0 s fl cs hist \<Longrightarrow> cs c = Some (env, e, Over r) \<Longrightarrow>
    smp_run W s0 s fl (cs(c := None)) hist"

text \<open>What the kernel does beside the calls leaves the instance and the probes alone.\<close>

lemma kernel_frame:
  assumes "flight_step env (s, fl) e r (s', fl')" and "\<And>x. e = Event x \<Longrightarrow> \<not> is_call x"
    and "wf_entries (registry (the_inst s))"
  obtains m ws f where "s' = s\<lparr>mem := m, works := ws, log_file := f\<rparr>" "preempt m = preempt (mem s)"
proof -
  have 1: "s = s\<lparr>mem := mem s, works := works s, log_file := log_file s\<rparr>" by simp
  show thesis
    using assms(1)
  proof (cases rule: flight_step.cases)
    case (enter p regs c)
    obtain m where "s' = s\<lparr>mem := m\<rparr>" "preempt m = preempt (mem s)"
      using enter_call_frame(1) [OF assms(3) enter(3)] by auto
    then show thesis using that [where m = m and ws = "works s" and f = "log_file s"] by simp
  next
    case (leave xs i ys regs rv v)
    then obtain m ws where "s' = s\<lparr>mem := m, works := works s @ ws\<rparr>" "preempt m = preempt (mem s)"
      using leave_call_frame(2) by blast
    then show thesis using that [where m = m and ws = "works s @ ws" and f = "log_file s"] by simp
  next
    case (event x o')
    from event(4) show thesis
    proof cases
      case (deferred ws w ws')
      obtain m f where "s' = s\<lparr>works := ws @ ws'\<rparr>\<lparr>mem := m, log_file := f\<rparr>" "preempt m = preempt (mem s)"
        using defer_work_frame [OF deferred(4)] by auto
      then show thesis using that [where m = m and ws = "ws @ ws'" and f = f] by simp
    next
      case (read_proc n pos name ret out pos')
      then have "s' = s" using read_proc_frame by blast
      then show thesis using that [where m = "mem s" and ws = "works s" and f = "log_file s"] by simp
    qed (use event assms(2) in auto)
  qed
qed

subsection \<open>One call after the other\<close>

text \<open>What the calls work on.\<close>

type_synonym view = "refmon_state \<times> registry_entry list \<times> (probe \<Rightarrow> bool)"

definition view_of :: "ksys \<Rightarrow> view" where
  "view_of s = (state (the_inst s), registry (the_inst s), probe_enabled s)"

text \<open>What a sequence of whole calls, each with its result, makes of a module just loaded.\<close>

inductive serial :: "(kenv \<Rightarrow> bool) \<Rightarrow> (string \<Rightarrow> u8 list) \<Rightarrow> history \<Rightarrow> view \<Rightarrow> bool" for W h where
  empty: "serial W h [] (OFF, [], \<lambda>_. False)"
| next_call: "serial W h hist (view_of s) \<Longrightarrow> W env \<Longrightarrow> is_call e \<Longrightarrow> monitor_inv h s \<Longrightarrow>
    step env s e (Returned r) s' \<Longrightarrow> serial W h (hist @ [(env, e, r)]) (view_of s')"

text \<open>Between the lock and the unlock: what the call that holds the lock found, and what it did.\<close>

definition switched :: "kenv \<Rightarrow> bool \<Rightarrow> probe \<Rightarrow> bool \<Rightarrow> bool" where
  "switched env on p b = (if (if on then enable_ret env p else disable_ret env p) = 0 then on else b)"

fun halfway :: "(string \<Rightarrow> u8 list) \<Rightarrow> kenv \<Rightarrow> event \<Rightarrow> pc \<Rightarrow> view \<Rightarrow> ksys \<Rightarrow> bool" where
  "halfway h env e Entered v s = (view_of s = v)"
| "halfway h env e (Writing str) v s =
     (view_of s = v \<and> e = Set_state (Some str) \<and> euid env = 0 \<and> is_state_valid str)"
| "halfway h env e (Switching on ps) v s =
     (on = is_on (the_inst s) \<and> registry (the_inst s) = fst (snd v) \<and>
      (\<exists>str. e = Set_state (Some str) \<and> euid env = 0 \<and> is_state_valid str \<and>
        state (the_inst s) = string_to_state str) \<and>
      (\<exists>xs. probes_in_order = xs @ ps) \<and>
      (\<forall>p. probe_enabled s p =
        (if p \<in> set ps then snd (snd v) p else switched env on p (snd (snd v) p))))"
| "halfway h env e (Leaving r) v s =
     (\<exists>t t'. monitor_inv h t \<and> view_of t = v \<and> step env t e (Returned r) t' \<and> view_of t' = view_of s)"
| "halfway h env e pc v s = False"

definition par_inv ::
    "(kenv \<Rightarrow> bool) \<Rightarrow> (string \<Rightarrow> u8 list) \<Rightarrow> ksys \<Rightarrow> callers \<Rightarrow> history \<Rightarrow> bool" where
  "par_inv W h s cs hist \<longleftrightarrow>
     (\<forall>c env e pc. cs c = Some (env, e, pc) \<longrightarrow> W env \<and> is_call e) \<and>
     (if spinlock_inst (the_inst s)
      then preempt (mem s) = 1 \<and> monitor_inv h (spin_instance_unlock s) \<and>
        (\<exists>c env e pc v. cs c = Some (env, e, pc) \<and> (\<forall>d. holding cs d \<longleftrightarrow> d = c) \<and>
          serial W h hist v \<and> halfway h env e pc v s)
      else monitor_inv h s \<and> (\<forall>d. \<not> holding cs d) \<and> serial W h hist (view_of s))"

subsection \<open>The invariant\<close>

lemma view_of_simps [simp]:
  "view_of (s\<lparr>mem := m\<rparr>) = view_of s" "view_of (s\<lparr>works := ws\<rparr>) = view_of s"
  "view_of (s\<lparr>log_file := f\<rparr>) = view_of s" "view_of (spin_instance_unlock s) = view_of s"
  by (simp_all add: view_of_def spin_defs)

lemma view_of_lock: "spin_instance_lock s = Some s1 \<Longrightarrow> view_of s1 = view_of s"
  by (auto simp: view_of_def spin_defs split: if_splits)

lemma lock_unlock_held:
  "spinlock_inst (the_inst s) \<Longrightarrow> preempt (mem s) = 1 \<Longrightarrow>
     spin_instance_lock (spin_instance_unlock s) = Some s"
  by (cases s; cases "the_inst s"; cases "mem s") (simp add: spin_defs)

lemma monitor_inv_frame:
  "monitor_inv h s \<Longrightarrow> preempt m = preempt (mem s) \<Longrightarrow>
     monitor_inv h (s\<lparr>mem := m, works := ws, log_file := f\<rparr>)"
  by (simp add: monitor_inv_def)

lemma halfway_frame:
  "halfway h env e pc v (s\<lparr>mem := m, works := ws, log_file := f\<rparr>) = halfway h env e pc v s"
  by (cases pc) (simp_all add: view_of_def)

lemma serial_enumerator: "serial W h hist v \<Longrightarrow> (\<And>env. W env \<Longrightarrow> world h env) \<Longrightarrow> is_enumerator (fst v)"
proof (induction rule: serial.induct)
  case (next_call hist s env e r s')
  then have "monitor_inv h s'" using safety.step by blast
  then show ?case by (simp add: monitor_inv_def view_of_def)
qed (simp add: is_enumerator_def)

lemma held_fields:
  assumes "spinlock_inst (the_inst s)" and "monitor_inv h (spin_instance_unlock s)"
  shows "is_enumerator (state (the_inst s))" "wf_entries (registry (the_inst s))"
    "\<forall>p. probe_registered s p"
  using assms by (simp_all add: monitor_inv_def spin_defs)

text \<open>The steps inside a section, one by one.\<close>

lemma inside_reconf:
  assumes "spinlock_inst (the_inst s)" and "preempt (mem s) = 1"
    and "monitor_inv h (spin_instance_unlock s)" and "world h env" and "is_call e"
    and "\<And>t. whole_call env e t = locked_reconf env w body t"
    and frame: "\<And>t r t'. body t = Some (r, t') \<Longrightarrow> reg_frame t t'"
    and "reconf_section env w body s = Some (pc', s')"
  shows "spinlock_inst (the_inst s') \<and> preempt (mem s') = 1 \<and> monitor_inv h (spin_instance_unlock s') \<and>
    inside pc' \<and> halfway h env e pc' (view_of s) s'"
proof -
  obtain c m r where m: "safety_checks env RECONF_CHECKS w (the_inst s) (mem s) = Some (c, m)"
    and b: "(if c \<noteq> 0 then Some (c, s\<lparr>mem := m\<rparr>) else body (s\<lparr>mem := m\<rparr>)) = Some (r, s')"
    and pc': "pc' = Leaving r"
    using assms(8) by (auto simp: reconf_section_def bind_eq_Some_conv Let_def)
  have l: "spin_instance_lock (spin_instance_unlock s) = Some s" by (rule lock_unlock_held [OF assms(1,2)])
  have "locked_reconf env w body (spin_instance_unlock s) = Some (r, spin_instance_unlock s')"
    by (simp only: locked_reconf_def l m b Let_def bind.bind_lunit prod.case)
  then have st: "step env (spin_instance_unlock s) e (Returned r) (spin_instance_unlock s')"
    using whole_call_step [OF assms(5)] assms(6) by simp
  have "reg_frame s (s\<lparr>mem := m\<rparr>)" using safety_checks_preempt [OF m] by (rule reg_frame_mem)
  moreover have "reg_frame (s\<lparr>mem := m\<rparr>) s'" using b frame by (auto split: if_splits)
  ultimately have "reg_frame s s'" by (rule reg_frame_trans)
  moreover have "monitor_inv h (spin_instance_unlock s')" using safety.step assms(3,4) st by blast
  moreover have "halfway h env e (Leaving r) (view_of s) s'"
    unfolding halfway.simps using assms(3) st view_of_simps(4) by blast
  ultimately show ?thesis
    using assms(1,2) reg_frame_fields [of s s'] pc' by (simp del: halfway.simps)
qed

lemma reconf_section_cases:
  assumes "reconf_password e \<noteq> None"
  obtains w body where "\<And>t. call_step env e Entered t = reconf_section env w body t"
    "\<And>t. whole_call env e t = locked_reconf env w body t"
    "\<And>t r t'. body t = Some (r, t') \<Longrightarrow> reg_frame t t'"
proof (cases e)
  case (Reconf_add u w)
  then show thesis
    by (intro that [of w "reconf_add_body u env"])
      (auto simp: sys_calls do_reconf_add_eq intro: reconf_add.body_frame)
next
  case (Reconf_rm u w)
  then show thesis
    by (intro that [of w "reconf_rm_body u env"])
      (auto simp: sys_calls do_reconf_rm_eq intro: reconf_rm.body_frame)
next
  case (Flush w)
  then show thesis
    by (intro that [of w "flush_body env"])
      (auto simp: sys_calls do_flush_registry_eq intro: reconf_flush.body_frame)
qed (use assms in simp_all)

lemma switch_probe_eq:
  assumes "\<forall>p. probe_registered s p"
  shows "switch_probe env on p s =
    s\<lparr>probe_enabled := (probe_enabled s)(p := switched env on p (probe_enabled s p))\<rparr>"
  using assms by (simp add: switch_probe_def switched_def enable_kretprobe_eq disable_kretprobe_eq)

lemma inside_step:
  assumes "spinlock_inst (the_inst s)" and "preempt (mem s) = 1"
    and inv: "monitor_inv h (spin_instance_unlock s)" and "world h env" and "is_call e" and "inside pc"
    and "halfway h env e pc v s" and "is_enumerator (fst v)"
    and st: "call_step env e pc s = Some (pc', s')" and "\<And>r. pc \<noteq> Leaving r"
  shows "spinlock_inst (the_inst s') \<and> preempt (mem s') = 1 \<and> monitor_inv h (spin_instance_unlock s') \<and>
    inside pc' \<and> halfway h env e pc' v s'"
proof (cases "reconf_password e = None")
  case False
  then have "pc = Entered" using st assms(6,10) by (cases e; cases pc) auto
  then show ?thesis
    using reconf_section_cases [OF False, of env] inside_reconf [OF assms(1-5)] assms(7) st
    by (metis halfway.simps(1))
next
  case True
  then obtain u where e: "e = Set_state u" using assms(5) by (cases e) auto
  have l: "spin_instance_lock (spin_instance_unlock s) = Some s" by (rule lock_unlock_held [OF assms(1,2)])
  have free: "\<not> spinlock_inst (the_inst (spin_instance_unlock s))" by (simp add: spin_defs)
  note eq = do_set_state_eq [OF free, of env u]
  show ?thesis
  proof (cases pc)
    case Entered
    have ends: "halfway h env e (Leaving r) v s"
      if "whole_call env e (spin_instance_unlock s) = Some (r, spin_instance_unlock s)" for r
      using that inv assms(7) Entered whole_call_step [OF assms(5)]
      by (auto intro!: exI [of _ "spin_instance_unlock s"])
    show ?thesis
    proof (cases "euid env = 0")
      case False
      then show ?thesis using st ends [of "- EACCES"] assms(1-3) e Entered eq by (auto simp: sys_calls)
    next
      case True
      then obtain str where u: "u = Some str" using st e Entered by (cases u) auto
      show ?thesis
      proof (cases "is_state_valid str")
        case False
        then have "pc' = Leaving (- EINVAL)" "s' = s" using st e Entered True u by auto
        moreover have "halfway h env e (Leaving (- EINVAL)) v s"
          by (rule ends) (use e eq True u False in \<open>simp add: sys_calls read_state_def\<close>)
        ultimately show ?thesis using assms(1-3) by (simp del: halfway.simps)
      next
        case valid: True
        then show ?thesis using st assms(1-3,7) e Entered True u by auto
      qed
    qed
  next
    case (Writing str)
    then have s': "s' = s\<lparr>the_inst := (the_inst s)\<lparr>state := string_to_state str\<rparr>\<rparr>"
      and pc': "pc' = Switching (is_on (the_inst s')) probes_in_order"
      using st e by (auto simp: Let_def)
    have "is_enumerator (string_to_state str)"
      using assms(7) Writing read_state_enumerator [of str] by (simp add: read_state_def)
    then have "monitor_inv h (spin_instance_unlock s')"
      using inv by (simp add: s' monitor_inv_def spin_defs)
    moreover have "set probes_in_order = UNIV" unfolding probes_in_order_def
      using all_probe [of "\<lambda>p. p \<in> set probes_in_order"] by (auto simp: probes_in_order_def)
    ultimately show ?thesis
      using assms(1,2,7) Writing by (auto simp: pc' s' view_of_def)
  next
    case (Switching on ps)
    note reg = held_fields(3) [OF assms(1) inv]
    show ?thesis
    proof (cases ps)
      case (Cons p qs)
      then have s': "s' = s\<lparr>probe_enabled := (probe_enabled s)(p := switched env on p (probe_enabled s p))\<rparr>"
        and pc': "pc' = Switching on qs"
        using st e Switching switch_probe_eq [OF reg] by auto
      obtain xs where xs: "probes_in_order = xs @ p # qs" using assms(7) Switching Cons by auto
      then have "p \<notin> set qs" by (auto simp: probes_in_order_def Cons_eq_append_conv)
      moreover have "monitor_inv h (spin_instance_unlock s')"
        using inv by (simp add: s' monitor_inv_def spin_defs)
      moreover have "probes_in_order = (xs @ [p]) @ qs" using xs by simp
      then have "\<exists>xs. probes_in_order = xs @ qs" by blast
      ultimately show ?thesis
        using assms(1,2,7) Switching Cons by (auto simp: s' pc')
    next
      case Nil
      then have s': "s' = s" and pc': "pc' = Leaving 0" using st e Switching by auto
      obtain str where str: "u = Some str" "euid env = 0" "is_state_valid str"
        "state (the_inst s) = string_to_state str" "on = is_on (the_inst s)"
        using assms(7) Switching e by auto
      define t where "t = (spin_instance_unlock s)\<lparr>the_inst := (the_inst (spin_instance_unlock s))
        \<lparr>state := fst v\<rparr>, probe_enabled := snd (snd v)\<rparr>"
      have free: "\<not> spinlock_inst (the_inst t)" by (simp add: t_def spin_defs)
      have reg': "probe_registered t = probe_registered s" "registry (the_inst t) = registry (the_inst s)"
        by (simp_all add: t_def spin_defs)
      have "probes_after env on t = probe_enabled s"
        using assms(7) Switching Nil reg reg'(1)
        by (auto simp: fun_eq_iff probes_after_def switched_def t_def)
      moreover have "is_on ((the_inst t)\<lparr>state := string_to_state str\<rparr>) = on"
        using str(4,5) by (simp add: instance_tests)
      ultimately obtain t' where t': "whole_call env e t = Some (0, t')" "view_of t' = view_of s"
        using do_set_state_eq [OF free, of env u] str e reg'(2)
        by (auto simp: sys_calls read_state_def view_of_def)
      have "monitor_inv h t" using inv assms(8) by (simp add: t_def monitor_inv_def)
      moreover have "view_of t = v"
        using assms(7) Switching Nil by (simp add: t_def view_of_def)
      ultimately show ?thesis
        using t' whole_call_step [OF assms(5)] assms(1,2) inv by (auto simp: s' pc')
    qed
  qed (use assms(6,10) in simp_all)
qed

lemma holding_upd [simp]:
  "holding (cs(c \<mapsto> (env, e, pc))) d = (if d = c then inside pc else holding cs d)"
  "holding (cs(c := None)) d = (d \<noteq> c \<and> holding cs d)"
  by (auto simp: holding_def)

lemma par_inv_free:
  assumes "\<not> spinlock_inst (the_inst s)"
  shows "par_inv W h s cs hist \<longleftrightarrow>
    (\<forall>c env e pc. cs c = Some (env, e, pc) \<longrightarrow> W env \<and> is_call e) \<and>
    monitor_inv h s \<and> (\<forall>d. \<not> holding cs d) \<and> serial W h hist (view_of s)"
  using assms by (simp add: par_inv_def)

lemma par_inv_heldI:
  assumes "spinlock_inst (the_inst s)" and "preempt (mem s) = 1" and "monitor_inv h (spin_instance_unlock s)"
    and "cs c = Some (env, e, pc)" and "\<forall>d. holding cs d \<longleftrightarrow> d = c" and "serial W h hist v"
    and "halfway h env e pc v s" and "\<forall>c env e pc. cs c = Some (env, e, pc) \<longrightarrow> W env \<and> is_call e"
  shows "par_inv W h s cs hist"
proof -
  have "\<exists>c env e pc v. cs c = Some (env, e, pc) \<and> (\<forall>d. holding cs d \<longleftrightarrow> d = c) \<and> serial W h hist v \<and>
      halfway h env e pc v s" using assms(4-7) by blast
  then show ?thesis unfolding par_inv_def if_P [OF assms(1)] using assms(2,3,8) by blast
qed

lemma par_inv_heldE:
  assumes "par_inv W h s cs hist" and "spinlock_inst (the_inst s)"
  obtains c env e pc v where "preempt (mem s) = 1" "monitor_inv h (spin_instance_unlock s)"
    "cs c = Some (env, e, pc)" "\<forall>d. holding cs d \<longleftrightarrow> d = c" "serial W h hist v"
    "halfway h env e pc v s" "\<forall>c env e pc. cs c = Some (env, e, pc) \<longrightarrow> W env \<and> is_call e"
  using assms unfolding par_inv_def by auto

text \<open>A caller inside holds the lock.\<close>

lemma par_inv_insideE:
  assumes "par_inv W h s cs hist" and c: "cs c = Some (env, e, pc)" and "inside pc"
  obtains v where "spinlock_inst (the_inst s)" "preempt (mem s) = 1"
    "monitor_inv h (spin_instance_unlock s)" "\<forall>d. holding cs d \<longleftrightarrow> d = c" "serial W h hist v"
    "halfway h env e pc v s" "W env" "is_call e"
proof -
  have hold: "holding cs c" using c assms(3) by (auto simp: holding_def)
  have locked: "spinlock_inst (the_inst s)"
  proof (rule ccontr)
    assume "\<not> spinlock_inst (the_inst s)"
    from assms(1) [unfolded par_inv_free [OF this]] show False using hold by blast
  qed
  obtain c1 env1 e1 pc1 v where 1: "preempt (mem s) = 1" "monitor_inv h (spin_instance_unlock s)"
    "cs c1 = Some (env1, e1, pc1)" "\<forall>d. holding cs d \<longleftrightarrow> d = c1" "serial W h hist v"
    "halfway h env1 e1 pc1 v s" "\<forall>c env e pc. cs c = Some (env, e, pc) \<longrightarrow> W env \<and> is_call e"
    by (rule par_inv_heldE [OF assms(1) locked])
  have "c1 = c" using 1(4) hold by auto
  then have "env1 = env" "e1 = e" "pc1 = pc" using 1(3) c by simp_all
  moreover have "W env" "is_call e" using 1(7) c by blast+
  ultimately show thesis using that [OF locked 1(1,2) _ 1(5)] 1(4,6) \<open>c1 = c\<close> by simp
qed

lemma par_inv_holder:
  assumes "spinlock_inst (the_inst s)" and "preempt (mem s) = 1" and "monitor_inv h (spin_instance_unlock s)"
    and "serial W h hist v" and "halfway h env e pc v s" and "inside pc" and "W env" and "is_call e"
    and "\<forall>d. holding cs d \<longrightarrow> d = c"
    and "\<forall>c env e pc. cs c = Some (env, e, pc) \<longrightarrow> W env \<and> is_call e"
  shows "par_inv W h s (cs(c \<mapsto> (env, e, pc))) hist"
proof (rule par_inv_heldI [OF assms(1-3) _ _ assms(4,5)])
  show "\<forall>d. holding (cs(c \<mapsto> (env, e, pc))) d \<longleftrightarrow> d = c" using assms(6,9) by auto
  show "\<forall>d x y z. (cs(c \<mapsto> (env, e, pc))) d = Some (x, y, z) \<longrightarrow> W x \<and> is_call y"
    using assms(7,8,10) by auto
qed simp

text \<open>A processor outside the section may start a call, or end it.\<close>

lemma par_inv_outside:
  assumes "par_inv W h s cs hist" and "\<not> holding cs c"
    and x: "\<And>env e pc. x = Some (env, e, pc) \<Longrightarrow> \<not> inside pc \<and> W env \<and> is_call e"
  shows "par_inv W h s (cs(c := x)) hist"
proof -
  have hold: "holding (cs(c := x)) d = holding cs d" for d
    using assms(2) x unfolding holding_def by auto
  have all: "\<forall>d env e pc. (cs(c := x)) d = Some (env, e, pc) \<longrightarrow> W env \<and> is_call e"
    using assms(1) x unfolding par_inv_def by auto
  show ?thesis
  proof (cases "spinlock_inst (the_inst s)")
    case False
    then show ?thesis using assms(1) hold all unfolding par_inv_free [OF False] by blast
  next
    case True
    obtain d env e pc v where
      inv: "preempt (mem s) = 1" "monitor_inv h (spin_instance_unlock s)" "cs d = Some (env, e, pc)"
      "\<forall>b. holding cs b \<longleftrightarrow> b = d" "serial W h hist v" "halfway h env e pc v s"
      "\<forall>c env e pc. cs c = Some (env, e, pc) \<longrightarrow> W env \<and> is_call e"
      by (rule par_inv_heldE [OF assms(1) True])
    then have "(cs(c := x)) d = Some (env, e, pc)" using assms(2) by auto
    moreover have "\<forall>b. holding (cs(c := x)) b \<longleftrightarrow> b = d" using hold inv(4) by blast
    ultimately show ?thesis by (rule par_inv_heldI [OF True inv(1,2) _ _ inv(5,6) all])
  qed
qed

lemma par_inv_kernel:
  assumes "par_inv W h s cs hist" and "flight_step env (s, fl) e r (s', fl')"
    and "\<And>x. e = Event x \<Longrightarrow> \<not> is_call x"
  shows "par_inv W h s' cs hist"
proof (cases "spinlock_inst (the_inst s)")
  case False
  note inv = assms(1) [unfolded par_inv_free [OF False]]
  have "wf_entries (registry (the_inst s))" using inv by (simp add: monitor_inv_def)
  from kernel_frame [OF assms(2,3) this] obtain m ws f where
    s': "s' = s\<lparr>mem := m, works := ws, log_file := f\<rparr>" "preempt m = preempt (mem s)" by blast
  have free: "\<not> spinlock_inst (the_inst s')" using False s'(1) by simp
  have "monitor_inv h s" using inv by blast
  then have "monitor_inv h s'" unfolding s'(1) using s'(2) by (rule monitor_inv_frame)
  moreover have "view_of s' = view_of s" using s'(1) by simp
  ultimately show ?thesis using inv unfolding par_inv_free [OF free] by simp
next
  case True
  obtain c env' e' pc v where
    inv: "preempt (mem s) = 1" "monitor_inv h (spin_instance_unlock s)" "cs c = Some (env', e', pc)"
    "\<forall>d. holding cs d \<longleftrightarrow> d = c" "serial W h hist v" "halfway h env' e' pc v s"
    "\<forall>c env e pc. cs c = Some (env, e, pc) \<longrightarrow> W env \<and> is_call e"
    by (rule par_inv_heldE [OF assms(1) True])
  from kernel_frame [OF assms(2,3) held_fields(2) [OF True inv(2)]] obtain m ws f where
    s': "s' = s\<lparr>mem := m, works := ws, log_file := f\<rparr>" "preempt m = preempt (mem s)" by blast
  have "spin_instance_unlock s' = (spin_instance_unlock s)\<lparr>mem := preempt_enable m, works := ws, log_file := f\<rparr>"
    "preempt (preempt_enable m) = preempt (mem (spin_instance_unlock s))"
    using s' by (simp_all add: spin_defs)
  then have "monitor_inv h (spin_instance_unlock s')" using monitor_inv_frame [OF inv(2)] by simp
  then show ?thesis
    using True inv(1,6) s' by (intro par_inv_heldI [OF _ _ _ inv(3-5) _ inv(7)]) (simp_all add: halfway_frame)
qed

lemma par_inv_runs:
  assumes world: "\<And>env. W env \<Longrightarrow> world h env" and "par_inv W h s cs hist" and "cs c = Some (env, e, pc)"
    and st: "call_step env e pc s = Some (pc', s')"
  shows "par_inv W h s' (cs(c \<mapsto> (env, e, pc'))) (extend env e pc' hist)"
proof -
  have all: "\<forall>c env e pc. cs c = Some (env, e, pc) \<longrightarrow> W env \<and> is_call e"
    using assms(2) unfolding par_inv_def by blast
  then have W: "W env" "is_call e" using assms(3) by blast+
  then have all': "\<forall>d x y z. (cs(c \<mapsto> (env, e, pc'))) d = Some (x, y, z) \<longrightarrow> W x \<and> is_call y"
    using all by auto
  show ?thesis
  proof (cases "inside pc")
    case False
    then have "pc = Spinning" using st W(2) by (cases pc; cases e) auto
    then have l: "spin_instance_lock s = Some s'" and pc': "pc' = Entered"
      using st by (auto simp: bind_eq_Some_conv)
    then have free: "\<not> spinlock_inst (the_inst s)" using lock_fields(4) by blast
    note inv = assms(2) [unfolded par_inv_free [OF free]]
    have s': "spinlock_inst (the_inst s')" "preempt (mem s') = 1" "spin_instance_unlock s' = s"
      using l inv free unlock_lock [OF l] by (auto simp: spin_defs monitor_inv_def)
    have "halfway h env e pc' (view_of s) s'" using view_of_lock [OF l] pc' by simp
    moreover have "\<forall>d. holding cs d \<longrightarrow> d = c" "serial W h hist (view_of s)" "monitor_inv h s"
      using inv by blast+
    ultimately have "par_inv W h s' (cs(c \<mapsto> (env, e, pc'))) hist"
      using s' W all pc' by (intro par_inv_holder) simp_all
    then show ?thesis by (simp add: extend_def pc')
  next
    case True
    obtain v where locked: "spinlock_inst (the_inst s)" and inv: "preempt (mem s) = 1"
      "monitor_inv h (spin_instance_unlock s)" "\<forall>d. holding cs d \<longleftrightarrow> d = c" "serial W h hist v"
      "halfway h env e pc v s" and "W env" "is_call e"
      by (rule par_inv_insideE [OF assms(2,3) True])
    show ?thesis
    proof (cases "\<exists>r. pc = Leaving r")
      case True
      then obtain r where r: "pc = Leaving r" by blast
      then have s': "s' = spin_instance_unlock s" "pc' = Over r" using st W(2) by (cases e; auto)+
      obtain t t' where "monitor_inv h t" "view_of t = v" "step env t e (Returned r) t'" "view_of t' = view_of s"
        using inv(5) r by auto
      then have "serial W h (hist @ [(env, e, r)]) (view_of s')"
        using serial.next_call [of W h hist t env e r t'] inv(4) W s' by simp
      moreover have "\<not> spinlock_inst (the_inst s')" using s' by (simp add: spin_defs)
      ultimately show ?thesis using s' inv all' by (simp add: par_inv_free extend_def)
    next
      case False
      from inside_step [OF locked inv(1,2) world [OF W(1)] W(2) True inv(5) serial_enumerator [OF inv(4) world] st] False
      have "spinlock_inst (the_inst s')" "preempt (mem s') = 1" "monitor_inv h (spin_instance_unlock s')"
        "inside pc'" "halfway h env e pc' v s'" by blast+
      moreover have "extend env e pc' hist = hist" using \<open>inside pc'\<close> by (cases pc') (simp_all add: extend_def)
      moreover have "\<forall>d. holding cs d \<longrightarrow> d = c" using inv(3) by blast
      ultimately show ?thesis
        using par_inv_holder [where c = c and v = v and pc = pc' and cs = cs] inv(4) W all by metis
    qed
  qed
qed

lemma parallel_inv:
  assumes "smp_run W s0 s fl cs hist" and world: "\<And>env. W env \<Longrightarrow> world h env"
  shows "par_inv W h s cs hist"
  using assms(1)
proof (induction rule: smp_run.induct)
  case (loaded env s)
  then obtain slots ni m where s: "s = ready_state env slots ni m s0"
    using world_load [OF world] by metis
  have "monitor_inv h s" using safety.init [OF world] loaded by blast
  moreover have "view_of s = (OFF, [], \<lambda>_. False)" by (simp add: s view_of_def)
  then have "serial W h [] (view_of s)" by (simp add: serial.empty)
  ultimately show ?case by (simp add: par_inv_def holding_def monitor_inv_def)
next
  case (kernel s fl cs hist env e r s' fl')
  then show ?case using par_inv_kernel by blast
next
  case (calls s fl cs hist c env e)
  then have "\<not> holding cs c" by (simp add: holding_def)
  with calls show ?case by (intro par_inv_outside) auto
next
  case (runs s fl cs hist c env e pc pc' s')
  then show ?case using par_inv_runs [OF world] by blast
next
  case (returns s fl cs hist c env e r)
  then have "\<not> holding cs c" by (auto simp: holding_def)
  with returns show ?case by (intro par_inv_outside) auto
qed

subsection \<open>What follows\<close>

text \<open>Calls are one after the other, with the results they return.\<close>

lemma lock_holder:
  assumes "par_inv W h s cs hist"
  shows "spinlock_inst (the_inst s) \<longleftrightarrow> (\<exists>c. holding cs c)" and "holding cs c \<Longrightarrow> holding cs d \<Longrightarrow> c = d"
  using assms unfolding par_inv_def by (auto split: if_splits)

lemma leaving_serial:
  assumes "par_inv W h s cs hist" and c: "cs c = Some (env, e, Leaving r)"
  shows "serial W h (hist @ [(env, e, r)]) (view_of s)"
proof -
  have "inside (Leaving r)" by simp
  then obtain v where "spinlock_inst (the_inst s)" "preempt (mem s) = 1"
    "monitor_inv h (spin_instance_unlock s)" "\<forall>d. holding cs d \<longleftrightarrow> d = c"
    and inv: "serial W h hist v" "halfway h env e (Leaving r) v s" "W env" "is_call e"
    by (rule par_inv_insideE [OF assms(1) c])
  then obtain t t' where "monitor_inv h t" "view_of t = v" "step env t e (Returned r) t'"
    "view_of t' = view_of s" by auto
  then show ?thesis using serial.next_call [of W h hist t env e r t'] inv by simp
qed

lemma over_in_history:
  assumes "smp_run W s0 s fl cs hist" and "cs c = Some (env, e, Over r)"
  shows "(env, e, r) \<in> set hist"
  using assms
proof (induction arbitrary: c env e r rule: smp_run.induct)
  case (runs s fl cs hist c' env' e' pc pc' s')
  then have "set hist \<subseteq> set (extend env' e' pc' hist)" by (cases pc') (auto simp: extend_def)
  then show ?case using runs.IH runs.prems by (cases "c = c'") (auto simp: extend_def)
qed (auto split: if_splits)

text \<open>While a call switches the probes, those it has come to obey the new state, the others the old.\<close>

lemma serial_probes:
  assumes "serial W h hist v" and W: "\<And>env. W env \<Longrightarrow> world h env \<and> arming_ok env"
  shows "view_of s = v \<Longrightarrow> \<forall>p. probe_enabled s p \<longleftrightarrow> is_on (the_inst s)"
  using assms(1)
proof (induction arbitrary: s rule: serial.induct)
  case empty
  then show ?case by (simp add: view_of_def instance_tests)
next
  case (next_call hist t env e r t')
  then have "monitor_inv h t' \<and> (\<forall>p. probe_enabled t' p \<longleftrightarrow> is_on (the_inst t'))"
    using probes.step [of h env t e "Returned r" t'] W by blast
  then show ?case using next_call.prems by (simp add: view_of_def instance_tests)
qed

lemma switching_probes:
  assumes "par_inv W h s cs hist" and c: "cs c = Some (env, e, Switching on ps)"
    and W: "\<And>env. W env \<Longrightarrow> world h env \<and> arming_ok env"
  shows "is_on (the_inst s) = on \<and> (\<exists>old. \<forall>p. probe_enabled s p = (if p \<in> set ps then old else on))"
proof -
  have "inside (Switching on ps)" by simp
  then obtain v where "spinlock_inst (the_inst s)" "preempt (mem s) = 1"
    "monitor_inv h (spin_instance_unlock s)" "\<forall>d. holding cs d \<longleftrightarrow> d = c"
    and inv: "serial W h hist v" "halfway h env e (Switching on ps) v s" "W env" "is_call e"
    by (rule par_inv_insideE [OF assms(1) c])
  define t where "t = s\<lparr>the_inst := (the_inst s)\<lparr>state := fst v, registry := fst (snd v)\<rparr>,
    probe_enabled := snd (snd v)\<rparr>"
  have "view_of t = v" by (simp add: t_def view_of_def)
  from serial_probes [OF inv(1) W this] have "\<forall>p. snd (snd v) p = is_on (the_inst t)"
    by (simp add: t_def)
  moreover have "switched env on p b = on" for p b
    using W [OF inv(3)] by (auto simp: switched_def arming_ok_def)
  ultimately show ?thesis using inv(2) by auto
qed

text \<open>A call runs on while the others pause.\<close>

lemma parallel_steps:
  assumes "call_steps env e x y" and "smp_run W s0 s fl cs hist" and "x = (pc, s)" and "y = (pc', s')"
    and "cs c = Some (env, e, pc)" and "\<forall>r. pc \<noteq> Over r"
  shows "smp_run W s0 s' fl (cs(c \<mapsto> (env, e, pc'))) (extend env e pc' hist)"
  using assms
proof (induction arbitrary: pc s cs rule: call_steps.induct)
  case (stop x)
  then have "cs(c \<mapsto> (env, e, pc')) = cs" "pc' = pc" by auto
  moreover have "extend env e pc hist = hist" using stop by (cases pc) (simp_all add: extend_def)
  ultimately show ?case using stop by simp
next
  case (more pc0 s0' pc1 s1 y)
  then have one: "smp_run W s0 s1 fl (cs(c \<mapsto> (env, e, pc1))) (extend env e pc1 hist)"
    using smp_run.runs [OF more.prems(1,4), of pc1 s1] by simp
  show ?case
  proof (cases "\<exists>r. pc1 = Over r")
    case True
    then obtain r where "pc1 = Over r" by blast
    with more(2) have "y = (pc1, s1)" by (auto elim: call_steps.cases)
    then have "pc' = pc1" "s' = s1" using more.prems(3) by simp_all
    then show ?thesis using one by blast
  next
    case False
    then have "extend env e pc1 hist = hist" by (cases pc1) (simp_all add: extend_def)
    with one have "smp_run W s0 s1 fl (cs(c \<mapsto> (env, e, pc1))) hist" by simp
    then have "smp_run W s0 s' fl ((cs(c \<mapsto> (env, e, pc1)))(c \<mapsto> (env, e, pc'))) (extend env e pc' hist)"
      by (rule more.IH [of s1 "cs(c \<mapsto> (env, e, pc1))" pc1, OF _ refl more.prems(3) fun_upd_same])
        (use False in blast)
    then show ?thesis by (simp only: fun_upd_upd)
  qed
qed

text \<open>The interleaved runs of \<open>Inflight\<close> are those in which every call runs through at once.\<close>

lemma step_parallel:
  assumes "smp_run W s0 s fl cs hist" and "cs c = None" and "W env" and "is_call e"
    and "step env s e (Returned r) s'"
  shows "smp_run W s0 s' fl cs (hist @ [(env, e, r)])"
proof -
  have "call_steps env e (Spinning, s) (Over r, s')"
    using call_alone [OF assms(4)] assms(5) whole_call_step [OF assms(4)] by blast
  moreover have "smp_run W s0 s fl (cs(c \<mapsto> (env, e, Spinning))) hist"
    using assms(1-4) by (intro smp_run.calls)
  ultimately have "smp_run W s0 s' fl ((cs(c \<mapsto> (env, e, Spinning)))(c \<mapsto> (env, e, Over r)))
      (extend env e (Over r) hist)"
    by (rule parallel_steps [OF _ _ refl refl fun_upd_same]) simp
  from smp_run.returns [OF this fun_upd_same]
  have "smp_run W s0 s' fl (cs(c := None)) (hist @ [(env, e, r)])"
    by (simp add: extend_def del: fun_upd_apply)
  moreover have "cs(c := None) = cs" using assms(2) by auto
  ultimately show ?thesis by simp
qed

lemma interleaved_parallel: "interleaved W s0 s fl \<Longrightarrow> \<exists>hist. smp_run W s0 s fl (\<lambda>_. None) hist"
proof (induction rule: interleaved.induct)
  case (loaded env s)
  then show ?case using smp_run.loaded by blast
next
  case (next_event s fl env e r s' fl')
  then obtain hist where p: "smp_run W s0 s fl (\<lambda>_. None) hist" by blast
  show ?case
  proof (cases "\<exists>x. e = Event x \<and> is_call x")
    case True
    then obtain x where x: "e = Event x" "is_call x" by blast
    then obtain o' where "step env s x o' s'" "fl' = fl" using next_event(3) by (auto elim: eventE)
    moreover from this(1) x(2) obtain c where "o' = Returned c" by (cases rule: step.cases) auto
    ultimately show ?thesis using step_parallel [OF p _ next_event(2) x(2)] by blast
  next
    case False
    then show ?thesis using smp_run.kernel [OF p next_event(2,3)] by blast
  qed
qed

text \<open>
  The call that holds the lock can always run on to its end, when its strings are given, memory does
  not run out and hashing works: nothing that the other processors do can hold it up.
\<close>

fun strings_given :: "event \<Rightarrow> bool" where
  "strings_given (Set_state u) \<longleftrightarrow> u \<noteq> None"
| "strings_given (Reconf_add u w) \<longleftrightarrow> u \<noteq> None \<and> w \<noteq> None"
| "strings_given (Reconf_rm u w) \<longleftrightarrow> u \<noteq> None \<and> w \<noteq> None"
| "strings_given (Flush w) \<longleftrightarrow> w \<noteq> None"
| "strings_given _ \<longleftrightarrow> True"

lemma leaving_ends: "is_call e \<Longrightarrow> call_steps env e (Leaving r, s) (Over r, spin_instance_unlock s)"
  by (rule step_once) (cases e; simp)

lemma switching_ends: "call_steps env (Set_state u) (Switching on ps, s)
    (Over 0, spin_instance_unlock (fold (switch_probe env on) ps s))"
  by (rule steps_trans [OF steps_switching leaving_ends]) simp

lemma writing_ends: "\<exists>s'. call_steps env (Set_state u) (Writing str, s) (Over 0, s')"
proof -
  have "call_step env (Set_state u) (Writing str) s =
      Some (Switching (is_on (the_inst (s\<lparr>the_inst := (the_inst s)\<lparr>state := string_to_state str\<rparr>\<rparr>))) probes_in_order,
        s\<lparr>the_inst := (the_inst s)\<lparr>state := string_to_state str\<rparr>\<rparr>)"
    by (simp add: Let_def)
  from steps_trans [OF step_once [OF this] switching_ends] show ?thesis ..
qed

lemma section_of_call:
  assumes "locked_reconf env w body t = Some (r, t')" and l: "spin_instance_lock t = Some s"
  shows "\<exists>s'. reconf_section env w body s = Some (Leaving r, s')"
proof -
  obtain c m where m: "safety_checks env RECONF_CHECKS w (the_inst s) (mem s) = Some (c, m)"
    using assms(1) unfolding locked_reconf_def l
    by (cases "safety_checks env RECONF_CHECKS w (the_inst s) (mem s)") auto
  let ?x = "if c \<noteq> 0 then Some (c, s\<lparr>mem := m\<rparr>) else body (s\<lparr>mem := m\<rparr>)"
  have eq: "Option.bind ?x (\<lambda>(ret, s3). Some (ret, spin_instance_unlock s3)) = Some (r, t')"
    using assms(1) by (simp only: locked_reconf_def l m Let_def bind.bind_lunit prod.case)
  then obtain s' where "?x = Some (r, s')" by (cases ?x) (auto simp del: if_split)
  then have "reconf_section env w body s = Some (Leaving r, s')"
    by (simp only: reconf_section_def m Let_def bind.bind_lunit prod.case)
  then show ?thesis ..
qed

lemma reconf_call_returns:
  assumes "monitor_inv h s" and "calm env" and "strings_given e" and "reconf_password e \<noteq> None"
  shows "\<exists>r s'. whole_call env e s = Some (r, s')"
proof -
  have s: "wf_entries (registry (the_inst s))" "password (the_inst s) \<noteq> None"
    "\<not> spinlock_inst (the_inst s)" using assms(1) by (auto simp: monitor_inv_def)
  show ?thesis
    using assms(3,4) do_reconf_add_outcome [OF assms(2) s] do_reconf_rm_outcome [OF assms(2) s]
      do_flush_registry_outcome [OF assms(2) s(2,3)]
    by (cases e) (fastforce simp: sys_calls reg_outcome_def)+
qed

lemma holder_finishes:
  assumes "par_inv W h s cs hist" and c: "cs c = Some (env, e, pc)" and "inside pc"
    and "calm env" and "strings_given e"
  shows "\<exists>r s'. call_steps env e (pc, s) (Over r, s')"
proof -
  obtain v where locked: "spinlock_inst (the_inst s)" and inv: "preempt (mem s) = 1"
    "monitor_inv h (spin_instance_unlock s)" "\<forall>d. holding cs d \<longleftrightarrow> d = c" "serial W h hist v"
    "halfway h env e pc v s" and e: "W env" "is_call e"
    by (rule par_inv_insideE [OF assms(1) c assms(3)])
  show ?thesis
  proof (cases pc)
    case Entered
    show ?thesis
    proof (cases "reconf_password e = None")
      case False
      obtain w body where b: "\<And>t. call_step env e Entered t = reconf_section env w body t"
        "\<And>t. whole_call env e t = locked_reconf env w body t"
        using reconf_section_cases [OF False, of env] by metis
      obtain r t where "locked_reconf env w body (spin_instance_unlock s) = Some (r, t)"
        using reconf_call_returns [OF inv(2) assms(4,5) False] b(2) by metis
      from section_of_call [OF this lock_unlock_held [OF locked inv(1)]]
      obtain s3 where "reconf_section env w body s = Some (Leaving r, s3)" ..
      then have "call_steps env e (Entered, s) (Leaving r, s3)" using b(1) by (intro step_once) simp
      then show ?thesis using steps_trans leaving_ends [OF e(2)] Entered by blast
    next
      case True
      then obtain str where u: "e = Set_state (Some str)" using e(2) assms(5) by (cases e) auto
      obtain pc1 where st: "call_step env e Entered s = Some (pc1, s)"
        "pc1 = Writing str \<or> (\<exists>r. pc1 = Leaving r)"
        using u by (cases "euid env = 0") auto
      from step_once [OF st(1)] have "call_steps env e (Entered, s) (pc1, s)" .
      moreover have "\<exists>r s'. call_steps env e (pc1, s) (Over r, s')"
        using st(2) writing_ends u leaving_ends [OF e(2)] by blast
      ultimately show ?thesis using steps_trans Entered by blast
    qed
  next
    case (Writing str)
    then have "e = Set_state (Some str)" using inv(5) by simp
    then show ?thesis using Writing writing_ends [of env "Some str" str s] by blast
  next
    case (Switching on ps)
    then obtain str where "e = Set_state (Some str)" using inv(5) by auto
    then show ?thesis using Switching switching_ends by blast
  next
    case (Leaving r)
    then show ?thesis using leaving_ends [OF e(2)] by blast
  qed (use assms(3) in simp_all)
qed

lemma steps_switching_some:
  "call_steps env (Set_state u) (Switching on (ps @ qs), s)
     (Switching on qs, fold (switch_probe env on) ps s)"
  by (induction ps arbitrary: s) (auto intro: call_steps.intros)

lemma fold_switch_on:
  assumes "\<forall>p. probe_registered s p" and "arming_ok env"
  shows "fold (switch_probe env True) ps s = s\<lparr>probe_enabled := (\<lambda>p. p \<in> set ps \<or> probe_enabled s p)\<rparr>"
  using assms(1)
proof (induction ps arbitrary: s)
  case (Cons q ps)
  have "switch_probe env True q s = s\<lparr>probe_enabled := (probe_enabled s)(q := True)\<rparr>"
    using Cons.prems assms(2) by (simp add: switch_probe_eq switched_def arming_ok_def)
  then have "fold (switch_probe env True) (q # ps) s = s\<lparr>probe_enabled :=
      (\<lambda>p. p \<in> set ps \<or> ((probe_enabled s)(q := True)) p)\<rparr>"
    using Cons.prems Cons.IH [of "s\<lparr>probe_enabled := (probe_enabled s)(q := True)\<rparr>"] by simp
  moreover have "(\<lambda>p. p \<in> set ps \<or> ((probe_enabled s)(q := True)) p) =
      (\<lambda>p. p \<in> set (q # ps) \<or> probe_enabled s p)" by auto
  ultimately show ?case by simp
qed simp

text \<open>
  When root switches a monitor on that was off, there is a moment when the state is \<open>ON\<close>, opens are
  checked, and the removal of a directory is not.
\<close>

lemma switch_window_opens:
  assumes "smp_run W s0 s fl cs hist" and "cs c = None" and "\<not> spinlock_inst (the_inst s)"
    and "W env" and "world h env" and "arming_ok env" and "euid env = 0"
    and "monitor_inv h s" and "\<not> probe_enabled s krp_vfs_rmdir"
  shows "\<exists>s'. smp_run W s0 s' fl
      (cs(c \<mapsto> (env, Set_state (Some ''ON''), Switching True [krp_vfs_rmdir]))) hist \<and>
    state (the_inst s') = ON \<and> registry (the_inst s') = registry (the_inst s) \<and>
    probe_enabled s' = (\<lambda>p. p \<noteq> krp_vfs_rmdir)"
proof -
  let ?e = "Set_state (Some ''ON'')"
  let ?ps = "[krp_vfs_open, krp_filp_open, krp_vfs_unlink, krp_vfs_mkdir]"
  obtain s1 where l: "spin_instance_lock s = Some s1" using assms(3) by (simp add: lock_Some_iff)
  have on: "is_state_valid ''ON''" "string_to_state ''ON'' = ON"
    by (simp_all add: is_state_valid_def string_to_state_def)
  define s2 where "s2 = s1\<lparr>the_inst := (the_inst s1)\<lparr>state := ON\<rparr>\<rparr>"
  have reg: "\<forall>p. probe_registered s2 p"
    using l assms(8) by (auto simp: s2_def lock_Some_iff monitor_inv_def)
  have 1: "call_steps env ?e (Spinning, s) (Entered, s1)" using l by (intro step_once) simp
  have 2: "call_steps env ?e (Entered, s1) (Writing ''ON'', s1)"
    using assms(7) on by (intro step_once) simp
  have 3: "call_steps env ?e (Writing ''ON'', s1) (Switching True (?ps @ [krp_vfs_rmdir]), s2)"
    by (intro step_once) (simp add: Let_def on s2_def instance_tests probes_in_order_def)
  have "call_steps env ?e (Spinning, s)
      (Switching True [krp_vfs_rmdir], fold (switch_probe env True) ?ps s2)"
    by (rule steps_trans [OF steps_trans [OF steps_trans [OF 1 2] 3] steps_switching_some])
  moreover have "smp_run W s0 s fl (cs(c \<mapsto> (env, ?e, Spinning))) hist"
    using assms(1,2,4) by (intro smp_run.calls) simp_all
  ultimately have "smp_run W s0 (fold (switch_probe env True) ?ps s2) fl
      ((cs(c \<mapsto> (env, ?e, Spinning)))(c \<mapsto> (env, ?e, Switching True [krp_vfs_rmdir])))
      (extend env ?e (Switching True [krp_vfs_rmdir]) hist)"
    by (rule parallel_steps [OF _ _ refl refl fun_upd_same]) simp
  then have "smp_run W s0 (fold (switch_probe env True) ?ps s2) fl
      (cs(c \<mapsto> (env, ?e, Switching True [krp_vfs_rmdir]))) hist"
    by (simp only: fun_upd_upd extend_def pc.case)
  moreover have "(\<lambda>p. p \<in> set ?ps \<or> probe_enabled s2 p) = (\<lambda>p. p \<noteq> krp_vfs_rmdir)"
  proof
    fix p show "(p \<in> set ?ps \<or> probe_enabled s2 p) = (p \<noteq> krp_vfs_rmdir)"
      using l assms(9) by (cases p) (auto simp: s2_def lock_Some_iff)
  qed
  then have "fold (switch_probe env True) ?ps s2 = s2\<lparr>probe_enabled := (\<lambda>p. p \<noteq> krp_vfs_rmdir)\<rparr>"
    unfolding fold_switch_on [OF reg assms(6)] by (rule arg_cong)
  moreover have "registry (the_inst s2) = registry (the_inst s)" "state (the_inst s2) = ON"
    using lock_fields(1) [OF l] by (simp_all add: s2_def)
  ultimately show ?thesis by auto
qed

end
