(* ===== verification/Samples.thy ===== *)
theory Samples
  imports Refinement Logfile Commands Race Fstyped Parallel
begin

text \<open>
  One concrete kernel and one short run of the module in it, on which the properties are applied:
  the module is loaded, root switches it to \<open>REC-ON\<close> and registers the file \<open>/f\<close>. The kernel knows
  the file \<open>/f\<close> with inode 10, the directory \<open>/d\<close> with inode 11 and the program \<open>/bin/vi\<close> with
  inode 20; dentries, paths and files are named by the inode number.
\<close>

definition sample_hash :: "string \<Rightarrow> u8 list" where
  "sample_hash x = replicate 32 (if x = ''ciao'' then 1 else 0)"

definition sample_path :: "u64 \<Rightarrow> cptr" where
  "sample_path d =
     (if d = 10 then Some ''/f'' else if d = 11 then Some ''/d'' else if d = 20 then Some ''/bin/vi''
      else None)"

definition sample_lookup :: "string \<Rightarrow> u64 option" where
  "sample_lookup p =
     (if p = ''/f'' then Some 10 else if p = ''/d'' then Some 11 else if p = ''/bin/vi'' then Some 20
      else None)"

definition sample_env :: kenv where
  "sample_env =
     \<lparr>kmalloc_ok = (\<lambda>_. True), junk = (\<lambda>_. CHR ''x''), stale = (\<lambda>p. p),
      kern_path = (\<lambda>p _. sample_lookup p), dentry_path_raw = sample_path,
      d_path_pwd = Some ''/root'', i_ino = (\<lambda>d. d), i_isdir = (\<lambda>d. d = 11),
      euid = 0, uid = 1000, tgid = 4, tid = 4, exe_dentry = Some 20,
      copy_from_user = Some, copy_to_user_ok = True, shash_alloc_ok = True, shash_init_ret = 0,
      shash_update_ret = (\<lambda>_. 0), shash_final_ret = 0, sha256 = sample_hash,
      filp_open_ok = (\<lambda>_. True), kernel_read = (\<lambda>_ off. Inr (take 4096 (drop off ''ELF''))),
      register_ret = (\<lambda>_. 0), enable_ret = (\<lambda>_. 0),
      disable_ret = (\<lambda>_. 0), path_dentry = (\<lambda>p. p), f_flags = (\<lambda>f. 1), linux_version = 328704,
      proc_create_ok = (\<lambda>_. True), the_syscall_table = 4096,
      sc_addr_set_state = 101, sc_addr_reconf_add = 102, sc_addr_reconf_rm = 103,
      sc_addr_flush = 104\<rparr>"

lemma sample_env_simps [simp]:
  "kmalloc_ok sample_env n" "stale sample_env p = p" "kern_path sample_env p f = sample_lookup p"
  "dentry_path_raw sample_env d = sample_path d" "d_path_pwd sample_env = Some ''/root''"
  "i_ino sample_env d = d" "i_isdir sample_env d \<longleftrightarrow> d = 11" "euid sample_env = 0"
  "exe_dentry sample_env = Some 20" "copy_from_user sample_env u = Some u"
  "copy_to_user_ok sample_env" "sha256 sample_env = sample_hash" "filp_open_ok sample_env p"
  "kernel_read sample_env p off = Inr (take 4096 (drop off ''ELF''))"
  "register_ret sample_env k = 0"
  "enable_ret sample_env k = 0" "disable_ret sample_env k = 0" "path_dentry sample_env i = i"
  "f_flags sample_env i = 1" "linux_version sample_env = 328704"
  "proc_create_ok sample_env name" "the_syscall_table sample_env = 4096"
  by (simp_all add: sample_env_def)

lemma sample_names [simp]:
  "sample_lookup ''/f'' = Some 10" "sample_lookup ''/d'' = Some 11"
  "sample_path 10 = Some ''/f''" "sample_path 11 = Some ''/d''" "sample_path 20 = Some ''/bin/vi''"
  by (simp_all add: sample_lookup_def sample_path_def)

text \<open>The module just loaded; every entry of the system call table is unused.\<close>

definition sample_boot :: ksys where
  "sample_boot =
     \<lparr>the_inst = \<lparr>state = OFF, registry = [], password = None, spinlock_inst = False,
                   spinlock_probing = False\<rparr>,
      mem = \<lparr>allocs = 0, live = 0, preempt = 0, slept = False\<rparr>,
      probe_registered = (\<lambda>_. False), probe_enabled = (\<lambda>_. False), works = [], log_file = [],
      proc_files = [''cpuinfo''], sct = (\<lambda>_. 77), hw_cr0 = 0x80010001, cr0 = 0,
      restore = [- 1, - 1, - 1, - 1], the_ni_syscall = 0, new_sys_call_array = [0, 0, 0, 0],
      syscall_codes = \<lparr>sc_code_set_state = 0, sc_code_reconf_add = 0, sc_code_reconf_rm = 0,
                       sc_code_flush = 0\<rparr>\<rparr>"

subsection \<open>The kernel works\<close>

lemma length_sample_hash [simp]: "length (sample_hash x) = 32"
  by (simp add: sample_hash_def)

lemma sample_no_oom: "no_oom sample_env"
  by (simp add: no_oom_def)

lemma sample_crypto: "crypto_ok sample_env"
  by (simp add: crypto_ok_def sample_env_def)

lemma sample_calm: "calm sample_env"
  using sample_no_oom sample_crypto
  by (simp add: calm_def user_ok_def pwd_absolute_def)

lemma sample_world: "world sample_hash sample_env"
  by (simp add: world_def pwd_absolute_def kprobes_ok_def)

lemma sample_arming: "arming_ok sample_env"
  by (simp add: arming_ok_def)

lemma sample_just_loaded: "just_loaded sample_boot"
  by (simp add: just_loaded_def sample_boot_def own_files_def file_names numeral_eq_Suc)

lemma sharing_const: "sharing (\<lambda>_. c) i = [i..<256]"
  by (simp add: sharing_def del: upt_rec_numeral)

lemma first_shared_const: "first_shared (\<lambda>_. c) = Some 0"
proof -
  have "[0..<256] = 0 # [1..<256]" by (rule upt_conv_Cons [of 0 256, simplified One_nat_def [symmetric], OF _]) simp
  then show ?thesis by (simp add: first_shared_def sharing_const)
qed

lemma sample_loads: "\<exists>s. init_module sample_env sample_boot = Some (0, s)"
proof (rule init_module_ok [OF sample_no_oom sample_crypto])
  show "first_shared (\<lambda>i. sct sample_boot (int i)) = Some 0"
    by (simp add: sample_boot_def first_shared_const)
  show "4 \<le> length (sharing (\<lambda>i. sct sample_boot (int i)) 0)"
    by (simp add: sample_boot_def sharing_const)
qed simp_all


subsection \<open>The run\<close>

abbreviation sample_reachable :: "ksys \<Rightarrow> bool" where
  "sample_reachable s \<equiv> reachable (\<lambda>env. env = sample_env) sample_boot s"

definition sample_entry :: registry_entry where
  "sample_entry = \<lparr>registered = \<lparr>path = Some ''/f'', ino_no = 10\<rparr>,
                   resolved = \<lparr>path = Some ''/f'', ino_no = 10\<rparr>\<rparr>"

text \<open>The state of the module, as far as the samples need it.\<close>

definition sample_state :: "refmon_state \<Rightarrow> registry_entry list \<Rightarrow> bool \<Rightarrow> ksys \<Rightarrow> bool" where
  "sample_state st reg on s \<longleftrightarrow>
     sample_reachable s \<and> state (the_inst s) = st \<and> registry (the_inst s) = reg \<and>
     (\<forall>p. probe_enabled s p = on) \<and> works s = [] \<and> log_file s = []"

lemma sample_reachable_in:
  assumes "sample_reachable s"
  shows "reachable (world sample_hash) sample_boot s"
    and "reachable (\<lambda>env. world sample_hash env \<and> calm env) sample_boot s"
    and "reachable (\<lambda>env. world sample_hash env \<and> arming_ok env) sample_boot s"
  using assms by (auto intro: reachable_mono simp: sample_world sample_calm sample_arming)

lemma sample_inv: "sample_reachable s \<Longrightarrow> monitor_inv sample_hash s"
  using safety.always sample_reachable_in(1) by blast

lemma sample_unique: "sample_reachable s \<Longrightarrow> reg_inv (registry (the_inst s))"
  using unique.always sample_reachable_in(2) by blast

lemma sample_start: "\<exists>s. sample_state OFF [] False s"
proof -
  obtain s where s: "init_module sample_env sample_boot = Some (0, s)" using sample_loads ..
  then obtain slots ni m where eq: "s = ready_state sample_env slots ni m sample_boot"
    by (rule world_load [OF sample_world sample_just_loaded]) blast
  have quiet: "works s = []" "log_file s = []"
    using init_audit [OF sample_world sample_just_loaded s] by (simp_all add: sample_boot_def)
  have "sample_reachable s"
    by (rule reachable.loaded [where env = sample_env]) (simp_all add: s sample_just_loaded)
  then show ?thesis unfolding sample_state_def by (intro exI [of _ s]) (simp add: quiet, simp add: eq)
qed

lemma sample_switch:
  assumes "sample_state st reg on s"
  shows "\<exists>s'. step sample_env s (Set_state (Some ''REC-ON'')) (Returned 0) s' \<and>
    sample_state REC_ON reg True s'"
proof -
  have r: "sample_reachable s" using assms by (simp add: sample_state_def)
  note inv = sample_inv [OF r, unfolded monitor_inv_def]
  let ?s = "s\<lparr>the_inst := (the_inst s)\<lparr>state := REC_ON\<rparr>, probe_enabled := (\<lambda>_. True)\<rparr>"
  have "do_set_state sample_env (Some ''REC-ON'') s = Some (0, ?s)"
    using inv probes_after_ok [OF sample_arming, of s]
    by (simp add: do_set_state_eq read_state_def is_state_valid_def instance_tests)
  then have st: "step sample_env s (Set_state (Some ''REC-ON'')) (Returned 0) ?s"
    by (intro step.set_state) (simp add: sys_calls)
  then have "sample_reachable ?s" by (rule reachable.event [OF r refl])
  then show ?thesis using st assms by (auto simp: sample_state_def)
qed

lemma sample_spec_add:
  "add_spec sample_env ''/f'' [] = (0, [sample_entry])"
  by (simp add: add_spec_def resolve_path_def has_flag_def lookup_reg_def new_entry_def
      extract_ino_no_from_path_def sample_entry_def)

lemma sample_register:
  assumes "sample_state REC_ON [] True s"
  shows "\<exists>s'. step sample_env s (Reconf_add (Some ''/f'') (Some ''ciao'')) (Returned 0) s' \<and>
    sample_state REC_ON [sample_entry] True s'"
proof -
  have r: "sample_reachable s" and s: "state (the_inst s) = REC_ON" "registry (the_inst s) = []"
    "\<forall>p. probe_enabled s p" "works s = []" "log_file s = []"
    using assms by (simp_all add: sample_state_def)
  note inv = sample_inv [OF r, unfolded monitor_inv_def]
  have "safety_verdict sample_env ''ciao'' (the_inst s) = 0"
    using inv s by (simp add: safety_verdict_def is_reconf_def digest_of_def
        REFMON_DEFAULT_PASSWORD_def)
  then have "reg_outcome (do_reconf_add sample_env (Some ''/f'') (Some ''ciao'') s) s
      (0, [sample_entry])"
    using do_reconf_add_outcome [OF sample_calm, of s "''/f''" "''ciao''"] inv s
    by (simp add: sample_spec_add)
  then obtain s' where a: "do_reconf_add sample_env (Some ''/f'') (Some ''ciao'') s = Some (0, s')"
    "registry (the_inst s') = [sample_entry]" "reg_frame s s'"
    by (auto simp: reg_outcome_def)
  then have st: "step sample_env s (Reconf_add (Some ''/f'') (Some ''ciao'')) (Returned 0) s'"
    by (intro step.reconf_add) (simp add: sys_calls)
  then have "sample_reachable s'" by (rule reachable.event [OF r refl])
  then show ?thesis using st a(2) reg_frame_fields [OF a(3)] s by (auto simp: sample_state_def)
qed

text \<open>The three stages of the run.\<close>

lemma sample_on: "\<exists>s. sample_state REC_ON [] True s"
  using sample_start sample_switch by blast

lemma sample_protecting: "\<exists>s. sample_state REC_ON [sample_entry] True s"
  using sample_on sample_register by blast

text \<open>An open of \<open>/f\<close> for writing.\<close>

definition sample_open :: pt_regs where
  "sample_open = \<lparr>di = 10, si = 30, dx = 0, ax = 0\<rparr>"

lemma sample_looked_up: "looked_up sample_env 10 1 = Some ''/f''"
  by (simp add: looked_up_def resolve_path_def has_flag_def)

lemma sample_open_denied: "hook_denied Hook_open sample_env [sample_entry] sample_open"
  by (simp add: sample_open_def is_write_acc_iff denies_def protects_def sample_entry_def
      sample_looked_up [simplified] extract_ino_no_from_path_def)

subsection \<open>Calls in flight\<close>

text \<open>The sample open, caught up to 15 times and not yet left, then the monitor switched off.\<close>

lemma sample_flying:
  assumes "n \<le> 15"
  shows "\<exists>s fl. interleaved (world sample_hash) sample_boot s fl \<and> busy krp_vfs_open fl = n \<and>
    is_on (the_inst s) \<and> registry (the_inst s) = [sample_entry]"
proof -
  obtain s where s: "sample_state REC_ON [sample_entry] True s" using sample_protecting ..
  then have "interleaved (world sample_hash) sample_boot s []"
    using sample_reachable_in(1) reachable_interleaved by (simp add: sample_state_def)
  moreover have "wf_entries (registry (the_inst s))" "probe_enabled s krp_vfs_open"
    using s sample_inv [of s] by (simp_all add: sample_state_def monitor_inv_def)
  moreover have "hook_denied (entry_handler (kretprobe_of krp_vfs_open)) sample_env
      (registry (the_inst s)) sample_open"
    using s sample_open_denied by (simp add: sample_state_def del: hook_denied.simps)
  moreover have "dentry_path_raw sample_env
      (hook_dentry (entry_handler (kretprobe_of krp_vfs_open)) sample_env sample_open) = Some ''/f''"
    by (simp add: sample_open_def)
  ultimately obtain m fl where "interleaved (world sample_hash) sample_boot (s\<lparr>mem := m\<rparr>) fl"
    "busy krp_vfs_open fl = n"
    using denied_calls_fill sample_world sample_no_oom assms by blast
  then show ?thesis using s
    by (intro exI [of _ "s\<lparr>mem := m\<rparr>"] exI [of _ fl]) (simp add: sample_state_def instance_tests)
qed

lemma sample_flying_off:
  "\<exists>s fl. interleaved (world sample_hash) sample_boot s fl \<and> state (the_inst s) = OFF \<and>
     busy krp_vfs_open fl = 1"
proof -
  obtain s fl where s: "interleaved (world sample_hash) sample_boot s fl" "busy krp_vfs_open fl = 1"
    using sample_flying [of 1] by auto
  then have "\<not> spinlock_inst (the_inst s)"
    using safety_flight.always_interleaved [OF s(1)] by (simp add: monitor_inv_def)
  then obtain s' where "do_set_state sample_env (Some ''OFF'') s = Some (0, s')" "state (the_inst s') = OFF"
    by (auto simp: do_set_state_eq read_state_def is_state_valid_def)
  then have "flight_step sample_env (s, fl) (Event (Set_state (Some ''OFF''))) (Outcome (Returned 0)) (s', fl)"
    by (intro flight_step.event step.set_state) (simp_all add: sys_calls)
  from interleaved.next_event [OF s(1) sample_world this] \<open>state (the_inst s') = OFF\<close> s(2)
  show ?thesis by blast
qed

subsection \<open>A search and a list\<close>

definition sample_list :: shared where
  "sample_list = \<lparr>node_at = [0 \<mapsto> sample_entry], linked = [0]\<rparr>"

lemma sample_list: "wf_shared sample_list" "entries sample_list = [sample_entry]"
  by (simp_all add: sample_list_def wf_shared_def entries_def)

lemma sample_entry_wf: "wf_entry sample_entry"
  by (simp add: wf_entry_def sample_entry_def)

lemma sample_rejects: "\<not> protects sample_env sample_entry ''/g'' 7"
  by (simp add: protects_def sample_entry_def is_dir_def)

subsection \<open>A kernel thread\<close>

definition sample_worker :: kenv where
  "sample_worker = sample_env\<lparr>exe_dentry := None\<rparr>"

lemma sample_worker: "no_oom sample_worker" "exe_dentry sample_worker = None"
  "dentry_path_raw sample_worker (hook_dentry Hook_open sample_worker sample_open) = Some ''/f''"
  "hook_denied Hook_open sample_worker [sample_entry] sample_open"
  by (simp_all add: sample_worker_def no_oom_def sample_open_def is_write_acc_iff denies_def
      protects_def sample_entry_def looked_up_def resolve_path_def has_flag_def
      extract_ino_no_from_path_def)

subsection \<open>A user\<close>

definition sample_user :: uenv where
  "sample_user = \<lparr>test_build = False, getpass = Some ''ciao'', calloc_ok = True,
     popen_cat = (\<lambda>_. Some ''OFF''), pclose_ok = True, u_errno = 0\<rparr>"

lemma sample_linked:
  assumes "sample_state st reg on s"
  shows "reachable (\<lambda>env. linked_at [101, 102, 103, 104] sample_hash env \<and>
      distinct [101 :: u64, 102, 103, 104]) sample_boot s"
    and "linked_at [101, 102, 103, 104] sample_hash sample_env"
proof -
  show l: "linked_at [101, 102, 103, 104] sample_hash sample_env"
    using sample_world by (simp add: linked_at_def sc_addrs_def sample_env_def)
  have "sample_reachable s" using assms by (simp add: sample_state_def)
  then show "reachable (\<lambda>env. linked_at [101, 102, 103, 104] sample_hash env \<and>
      distinct [101 :: u64, 102, 103, 104]) sample_boot s"
    by (rule reachable_mono) (use l in simp)
qed

lemma sample_installed: "sample_state st reg on s \<Longrightarrow> calls_installed sample_env s"
  using calls.always [OF sample_linked(1)] sample_linked(2) by (auto simp: linked_at_def)

lemma sample_codes_read: "sample_state st reg on s \<Longrightarrow> \<exists>t. codes_read s t"
  using calls_text [OF sample_installed, of st reg on s sample_env 48] sample_env_simps
  unfolding codes_read_def by (meson order_refl)

text \<open>A word that is no option, then two options.\<close>

definition sample_line :: "string list" where
  "sample_line = [''refmon'', ''file'', ''--recon'', ''--off'']"

lemma sample_asked: "asked_call sample_user sample_line = Some (Set_state (Some ''REC-ON''))"
  by (simp add: sample_line_def asked_call_def first_option_def getopt_eval sample_user_def)

subsection \<open>A device for the log\<close>

text \<open>
  A device of 100 zeroed blocks, as the build file makes it, the maker run on it, and a kernel that
  reads these blocks.
\<close>

definition sample_fsenv :: fsenv where
  "sample_fsenv = \<lparr>bread_ok = (\<lambda>b. 0 \<le> b \<and> b < 100), uncopied = (\<lambda>_. 0), iget_ok = True,
     make_root_ok = True, iput_keeps = True, out_size = 7\<rparr>"

definition sample_mkfs :: mkfs_env where
  "sample_mkfs = \<lparr>dev_open_ok = True, write_ret = (\<lambda>_ n. int n), unset_u64 = (\<lambda>_. 0),
     unset_bytes = (\<lambda>_. NUL), block_padding = Some (replicate 4064 NUL)\<rparr>"

definition sample_dev :: dev_file where
  "sample_dev = \<lparr>bytes = replicate (4096 * 100) NUL, dev_pos = 0, writes = 0\<rparr>"

definition sample_disk :: "int \<Rightarrow> string" where
  "sample_disk = image_block (bytes (snd (mkfs_main sample_mkfs 2 sample_dev)))"

lemma sample_fsenv_simps [simp]:
  "bread_ok sample_fsenv b \<longleftrightarrow> 0 \<le> b \<and> b < 100" "uncopied sample_fsenv k = 0"
  "iget_ok sample_fsenv" "make_root_ok sample_fsenv" "iput_keeps sample_fsenv"
  "out_size sample_fsenv = 7"
  by (simp_all add: sample_fsenv_def)

lemma sample_mount: "mount_ok sample_fsenv"
  by (simp add: mount_ok_def)

lemma sample_fits: "n < 401408 \<Longrightarrow> fits sample_fsenv n"
proof -
  assume "n < 401408"
  then have "n div 4096 < 98" by (simp add: div_less_iff_less_mult)
  then show ?thesis using \<open>n < 401408\<close> by (auto simp: fits_def)
qed

lemma sample_mkfs_ok: "mkfs_ok sample_mkfs"
  unfolding mkfs_ok_def sample_mkfs_def by simp

lemma sample_dev: "dev_pos sample_dev = 0" "set (bytes sample_dev) \<subseteq> {NUL}"
  unfolding sample_dev_def by (simp_all add: set_replicate_conv_if)

lemma sample_made: "made sample_disk" "\<forall>k\<ge>31. file_byte sample_disk k = NUL"
proof -
  obtain ret d' where "mkfs_main sample_mkfs 2 sample_dev = (ret, d')" by force
  then show "made sample_disk" "\<forall>k\<ge>31. file_byte sample_disk k = NUL"
    using mkfs_made [OF sample_mkfs_ok sample_dev] by (simp_all add: sample_disk_def)
qed

text \<open>The mounted device with the log opened, and a file open on it.\<close>

definition sample_file :: open_file where "sample_file = \<lparr>f_inode = 1, f_pos = 0\<rparr>"

lemma sample_inode [simp]: "f_inode sample_file = 1"
  by (simp add: sample_file_def)

lemma sample_mounted:
  "\<exists>s. open_log sample_fsenv sample_disk = Some s \<and> file_room sample_fsenv 1 s 400000 \<and>
     file_text 1 s = file_body \<and> device s = sample_disk \<and> \<not> refmonfs_mutex s \<and>
     icache s 1 = Some \<lparr>i_size = 31, i_mode = S_IFREG + REFMONFS_PERMISSIONS, i_new = False\<rparr>"
proof -
  obtain s where s: "open_log sample_fsenv sample_disk = Some s" "device s = sample_disk"
    "\<not> refmonfs_mutex s" "file_text 1 s = file_body"
    "icache s 1 = Some \<lparr>i_size = 31, i_mode = S_IFREG + REFMONFS_PERMISSIONS, i_new = False\<rparr>"
    using open_log_made [OF sample_made(1) sample_mount] by blast
  moreover have "fits sample_fsenv (31 + 400000)" by (rule sample_fits) simp
  ultimately show ?thesis
    using open_log_room [OF sample_made(1) sample_mount sample_made(2) _ s(1)] by blast
qed

text \<open>The call of \<open>sample_open\<close> in the run: it is blocked, and its work is scheduled.\<close>

lemma sample_blocked:
  assumes "sample_state REC_ON [sample_entry] True s"
  shows "\<exists>m. probed_call sample_env krp_vfs_open 0 sample_open 0 s =
    Some (minus_EACCES, s\<lparr>mem := m, works := works s @ [blocked_work sample_env ''/bin/vi'']\<rparr>)"
proof -
  have s: "probe_enabled s krp_vfs_open" "registry (the_inst s) = [sample_entry]"
    using assms by (simp_all add: sample_state_def)
  have "monitor_inv sample_hash s" using assms sample_inv by (simp add: sample_state_def)
  then show ?thesis
    using probed_call_exact [of s krp_vfs_open 0 sample_env sample_open "''/f''" 20 "''/bin/vi''" 0]
      s sample_no_oom sample_open_denied
    by (simp add: monitor_inv_def sample_open_def)
qed

text \<open>A run that blocks a call and then writes its line.\<close>

lemma sample_file_holds: "file_holds sample_env p ''ELF''"
proof -
  have "\<exists>n. Inr (take 4096 (drop off ''ELF'')) = (Inr (take n (drop off ''ELF'')) :: int + string) \<and>
      0 < n \<and> n \<le> 4096" for off
    by (rule exI [of _ 4096]) simp
  then show ?thesis by (simp add: file_holds_def)
qed

lemma sample_run:
  "\<exists>tr s x. run (world sample_hash) sample_boot tr s \<and> log_file s = [x] \<and> log_file sample_boot = [] \<and>
     x = take 515 (log_line (blocked_work sample_env ''/bin/vi'') (digest_of sample_env ''ELF''))"
proof -
  obtain s where s: "sample_state REC_ON [sample_entry] True s" using sample_protecting ..
  then have "reachable (world sample_hash) sample_boot s"
    using sample_reachable_in(1) by (simp add: sample_state_def)
  then obtain tr where tr: "run (world sample_hash) sample_boot tr s" using reachable_run by blast
  let ?w = "blocked_work sample_env ''/bin/vi''"
  obtain m where "probed_call sample_env krp_vfs_open 0 sample_open 0 s =
    Some (minus_EACCES, s\<lparr>mem := m, works := works s @ [?w]\<rparr>)" using sample_blocked [OF s] by blast
  then have st: "step sample_env s (Probed_call krp_vfs_open 0 sample_open 0) (Value minus_EACCES)
      (s\<lparr>mem := m, works := works s @ [?w]\<rparr>)" (is "step _ _ _ _ ?s1") by (rule step.probed)
  note tr1 = run.extend [OF tr sample_world st]
  let ?s1 = "s\<lparr>mem := m, works := works s @ [?w]\<rparr>" and ?s2 = "s\<lparr>mem := m\<rparr>"
  have quiet: "works s = []" "log_file s = []" using s by (simp_all add: sample_state_def)
  then have s2: "s\<lparr>mem := m, works := []\<rparr> = ?s2" by (cases s) simp
  have open_ok: "filp_open_ok sample_env REFMON_FILE_LOG_ABSOLUTE" by simp
  obtain m' where d: "defer_work sample_env ?w ?s2 = Some (?s2\<lparr>mem := m', log_file := log_file ?s2 @
      [take 515 (log_line ?w (digest_of sample_env ''ELF''))]\<rparr>)" (is "_ = Some ?s3")
    using defer_work_ok [OF sample_no_oom sample_crypto sample_file_holds open_ok] by blast
  have "step sample_env ?s1 (Deferred ?w) Done ?s3"
    by (rule step.deferred [where ws = "[]" and ws' = "[]"]) (use quiet d in \<open>simp_all add: s2\<close>)
  from run.extend [OF tr1 sample_world this] show ?thesis
    using quiet by (intro exI) (auto simp: sample_boot_def)
qed

end
