(* ===== verification/Testapi.thy ===== *)
theory Testapi
  imports User "HOL-Library.Sublist"
begin

text \<open>
  \<open>test/api/testapi.c\<close>: the helpers through which the tests run the program in a shell and read what it
  prints. The shell is a parameter: what \<open>system\<close> answers, and what a command run by \<open>popen\<close> prints
  and \<open>pclose\<close> answers, in a world that they may change. An assertion that fails ends the test.
\<close>

subsection \<open>Running the program\<close>

text \<open>\<open>BUFSIZ\<close> of the GNU C library.\<close>

definition TEST_BSIZE :: nat where "TEST_BSIZE = 8192"

definition WEXITSTATUS :: "int \<Rightarrow> int" where "WEXITSTATUS status = status div 256 mod 256"

definition test_exec ::
    "(string \<Rightarrow> 'w \<Rightarrow> int \<times> 'w) \<Rightarrow> string \<Rightarrow> string \<Rightarrow> string \<Rightarrow> 'w \<Rightarrow> int \<times> 'w" where
  "test_exec system preamble cmd params w =
     (let (_, command) = snprintf TEST_BSIZE
            (preamble @ '' '' @ cmd @ '' '' @ params @ '' > /dev/null'');
          (ret, w') = system command w in
      if ret \<noteq> 0
      then let exit_code = WEXITSTATUS ret in
        if exit_code \<ge> 256 then (- 256 - exit_code, w') else (- (256 - exit_code), w')
      else (0, w'))"

definition test_add :: "(string \<Rightarrow> 'w \<Rightarrow> int \<times> 'w) \<Rightarrow> string \<Rightarrow> string \<Rightarrow> 'w \<Rightarrow> int \<times> 'w" where
  "test_add system preamble p w = test_exec system preamble ''refmon -a '' p w"

definition test_rm :: "(string \<Rightarrow> 'w \<Rightarrow> int \<times> 'w) \<Rightarrow> string \<Rightarrow> string \<Rightarrow> 'w \<Rightarrow> int \<times> 'w" where
  "test_rm system preamble p w = test_exec system preamble ''refmon -r '' p w"

definition test_flush :: "(string \<Rightarrow> 'w \<Rightarrow> int \<times> 'w) \<Rightarrow> string \<Rightarrow> 'w \<Rightarrow> int \<times> 'w" where
  "test_flush system preamble w = test_exec system preamble ''refmon -x'' '''' w"

text \<open>Reading what a command prints, row by row, into a buffer of \<open>TEST_BSIZE\<close> bytes.\<close>

function output_loop :: "string \<Rightarrow> string \<Rightarrow> string" where
  "output_loop out rest =
     (if rest = [] then out
      else let (row, r) = fgets TEST_BSIZE rest in
        if strlen out + strlen (cstr row) < TEST_BSIZE - 1 then output_loop (out @ cstr row) r
        else out)"
  by auto
termination
proof (relation "measure (\<lambda>(_, rest). length rest)")
  fix out rest :: string and x row r assume *: "rest \<noteq> []" "x = fgets TEST_BSIZE rest" "(row, r) = x"
  then have eq: "fgets TEST_BSIZE rest = (row, r)" by simp
  then have "row \<noteq> []" using fgets_progress [of TEST_BSIZE rest] *(1) by (simp add: TEST_BSIZE_def)
  then show "((out @ cstr row, r), out, rest) \<in> measure (\<lambda>(_, rest). length rest)"
    using fgets_split [OF eq] by simp
qed simp

declare output_loop.simps [simp del]

abbreviation newline_at_end :: "string \<Rightarrow> bool" where
  "newline_at_end s \<equiv> s \<noteq> [] \<and> last s = CHR 0x0A"

definition test_exec_output ::
    "(string \<Rightarrow> 'w \<Rightarrow> (string \<times> int) option \<times> 'w) \<Rightarrow> string \<Rightarrow> string \<Rightarrow> string \<Rightarrow> 'w \<Rightarrow>
       int \<times> cptr \<times> 'w" where
  "test_exec_output popen preamble cmd params w =
     (let (_, command) = snprintf TEST_BSIZE (preamble @ '' '' @ cmd @ '' '' @ params);
          (fp, w') = popen command w in
      case fp of
        None \<Rightarrow> (- 1, None, w')
      | Some (text, status) \<Rightarrow>
          let out = output_loop [] text in
          if status \<noteq> 0 then (- 1, Some out, w')
          else (0, Some (if newline_at_end out then butlast out else out), w'))"

definition test_print_reg ::
    "(string \<Rightarrow> 'w \<Rightarrow> (string \<times> int) option \<times> 'w) \<Rightarrow> string \<Rightarrow> 'w \<Rightarrow> int \<times> cptr \<times> 'w" where
  "test_print_reg popen preamble w = test_exec_output popen preamble ''refmon --print-registry'' '''' w"

subsection \<open>Reading its out\<close>

fun strstr :: "string \<Rightarrow> string \<Rightarrow> cptr" where
  "strstr haystack needle =
     (if prefix needle haystack then Some haystack
      else case haystack of [] \<Rightarrow> None | _ # rest \<Rightarrow> strstr rest needle)"

declare strstr.simps [simp del]

lemma strstr_split: "strstr h n = Some t \<Longrightarrow> \<exists>xs ys. h = xs @ t \<and> t = n @ ys"
proof (induction h n rule: strstr.induct)
  case (1 h n)
  show ?case
  proof (cases "prefix n h")
    case True
    then have "t = h" using "1.prems" by (simp add: strstr.simps [of h])
    then show ?thesis using True by (auto simp: prefix_def)
  next
    case False
    then obtain c cs where h: "h = c # cs" "strstr cs n = Some t"
      using "1.prems" by (auto simp: strstr.simps [of h] split: list.splits)
    then obtain xs ys where "cs = xs @ t" "t = n @ ys" using 1 False by blast
    then have "h = (c # xs) @ t \<and> t = n @ ys" using h by simp
    then show ?thesis by blast
  qed
qed

lemma strstr_None: "strstr h n = None \<longleftrightarrow> \<not> sublist n h"
proof (induction h n rule: strstr.induct)
  case (1 h n)
  then show ?case
    by (cases h) (simp_all add: strstr.simps [of "[]"] strstr.simps [of "_ # _"] sublist_Cons_right)
qed

function occurrences_loop :: "string \<Rightarrow> string \<Rightarrow> nat \<Rightarrow> nat" where
  "occurrences_loop tmp needle count =
     (case strstr tmp needle of
        None \<Rightarrow> count
      | Some t \<Rightarrow> if needle = [] then count
                 else occurrences_loop (drop (strlen needle) t) needle (Suc count))"
  by auto
termination
proof (relation "measure (\<lambda>(tmp, _). length tmp)")
  fix tmp needle t :: string and count :: nat assume *: "strstr tmp needle = Some t" "needle \<noteq> []"
  then obtain xs ys where "tmp = xs @ t" "t = needle @ ys" using strstr_split by blast
  then show "((drop (strlen needle) t, needle, Suc count), tmp, needle, count)
      \<in> measure (\<lambda>(tmp, _). length tmp)"
    using *(2) by simp
qed simp

declare occurrences_loop.simps [simp del]

definition test_string_occurrences :: "string \<Rightarrow> cptr \<Rightarrow> nat" where
  "test_string_occurrences haystack needle =
     (case needle of
        None \<Rightarrow> 0
      | Some n \<Rightarrow> if n = [] then 0 else occurrences_loop haystack n 0)"

definition test_is_reconf :: "string \<Rightarrow> nat" where
  "test_is_reconf name = test_string_occurrences name (Some ''REC-'')"

definition test_is_off :: "string \<Rightarrow> bool" where
  "test_is_off name \<longleftrightarrow> match_string name ''OFF'' \<or> match_string name ''REC-OFF''"

definition test_count_str_lines :: "string \<Rightarrow> nat" where
  "test_count_str_lines str =
     (let count = length (filter (\<lambda>c. c = CHR 0x0A) str) in
      if 0 < count \<or> (str \<noteq> [] \<and> last str \<noteq> CHR 0x0A) then Suc count else count)"

text \<open>A file that is not there, or does not fit into the buffer, is an error.\<close>

definition test_count_file_lines :: "cptr \<Rightarrow> int \<times> cptr" where
  "test_count_file_lines file =
     (case file of
        None \<Rightarrow> (- 1, None)
      | Some bytes \<Rightarrow>
          let buf = take TEST_BSIZE bytes;
              counter = length (filter (\<lambda>c. c = CHR 0x0A) buf) in
          if TEST_BSIZE \<le> length buf then (- 1, None)
          else (int counter, Some (cstr (if newline_at_end buf then butlast buf else buf))))"

definition test_check_path_presence_reg ::
    "(string \<Rightarrow> 'w \<Rightarrow> (string \<times> int) option \<times> 'w) \<Rightarrow> string \<Rightarrow> 'w \<Rightarrow> (nat \<times> 'w) option" where
  "test_check_path_presence_reg popen p w =
     (let (ret, out, w') = test_exec_output popen '''' ''refmon --print-registry'' '''' w in
      if ret \<noteq> 0 then None
      else do {
        text \<leftarrow> out;
        Some (test_string_occurrences text (Some p), w')
      })"

definition test_set_state ::
    "(string \<Rightarrow> 'w \<Rightarrow> int \<times> 'w) \<Rightarrow> (string \<Rightarrow> 'w \<Rightarrow> (string \<times> int) option \<times> 'w) \<Rightarrow> string \<Rightarrow> 'w \<Rightarrow>
       (int \<times> 'w) option" where
  "test_set_state system popen new_state w =
     (let (ret, w1) = test_exec system ''sudo '' ''refmon --set-state '' new_state w in
      if ret \<noteq> 0 then None
      else let (ret, out, w2) = test_exec_output popen '''' ''refmon --print-state'' '''' w1 in
      if ret \<noteq> 0 then None
      else do {
        text \<leftarrow> out;
        if test_string_occurrences text (Some new_state) \<noteq> 1 then None else Some (ret, w2)
      })"

subsection \<open>What the tests can see\<close>

text \<open>The result of a command is the number its \<open>main\<close> returned, if that is a negative error number or 0.\<close>

lemma test_exec_result:
  assumes "system (take (TEST_BSIZE - 1) (preamble @ '' '' @ cmd @ '' '' @ params @ '' > /dev/null'')) w =
      (exit_status ret * 256, w')"
    and "- 256 < ret" and "ret \<le> 0"
  shows "test_exec system preamble cmd params w = (ret, w')"
proof (cases "ret = 0")
  case True
  then show ?thesis using assms(1) by (simp add: test_exec_def snprintf_def exit_status_def)
next
  case False
  have m: "(ret + 256) mod 256 = ret + 256" using assms(2,3) False by (intro mod_pos_pos_trivial) auto
  then have "exit_status ret = ret + 256" unfolding exit_status_def by (metis mod_add_self2)
  moreover have "WEXITSTATUS ((ret + 256) * 256) = ret + 256"
    unfolding WEXITSTATUS_def using m by (metis nonzero_mult_div_cancel_right zero_neq_numeral)
  ultimately show ?thesis using assms False by (simp add: test_exec_def snprintf_def)
qed

text \<open>A program that is killed by a signal has no exit status; it reads as \<open>- 256\<close>.\<close>

lemma test_exec_killed:
  assumes "system (take (TEST_BSIZE - 1) (preamble @ '' '' @ cmd @ '' '' @ params @ '' > /dev/null'')) w =
      (signal, w')"
    and "0 < signal" and "signal < 128"
  shows "test_exec system preamble cmd params w = (- 256, w')"
  using assms by (simp add: test_exec_def snprintf_def WEXITSTATUS_def)

text \<open>Text that fits into the buffer is read whole.\<close>

lemma output_loop_all:
  assumes "nul_free rest" and "strlen out + strlen rest < TEST_BSIZE - 1"
  shows "output_loop out rest = out @ rest"
  using assms
proof (induction out rest rule: output_loop.induct)
  case (1 out rest)
  show ?case
  proof (cases "rest = []")
    case False
    obtain row r where f: "fgets TEST_BSIZE rest = (row, r)" by force
    then have eq: "rest = row @ r" by (rule fgets_split)
    then have "cstr row = row" using "1.prems"(1) by (auto simp: cstr_def nul_free_def takeWhile_eq_all_conv)
    then have "output_loop out rest = output_loop (out @ row) r"
      using False f "1.prems"(2) eq by (simp add: output_loop.simps [of out])
    then show ?thesis using 1 False f eq \<open>cstr row = row\<close> by simp
  qed (simp add: output_loop.simps)
qed

text \<open>A string occurs when it is a part of the text, anywhere.\<close>

lemma occurrences_loop_mono: "count \<le> occurrences_loop tmp needle count"
proof (induction tmp needle count rule: occurrences_loop.induct)
  case (1 tmp needle count)
  then show ?case
    by (subst occurrences_loop.simps) (auto split: option.split intro: Suc_leD)
qed

lemma occurs_iff: "0 < test_string_occurrences h (Some n) \<longleftrightarrow> n \<noteq> [] \<and> sublist n h"
proof -
  have "0 < occurrences_loop h n 0" if "strstr h n = Some t" "n \<noteq> []" for t
    using that occurrences_loop_mono [of "Suc 0" "drop (strlen n) t" n]
    by (subst occurrences_loop.simps) auto
  moreover have "occurrences_loop h n 0 = 0" if "strstr h n = None"
    using that by (simp add: occurrences_loop.simps [of h])
  ultimately show ?thesis
    using strstr_None [of h n] by (cases "strstr h n") (auto simp: test_string_occurrences_def)
qed

text \<open>The tests read the flags of a state off its name.\<close>

lemma test_flags:
  assumes "state_to_string (state r) = Some name"
  shows "0 < test_is_reconf name \<longleftrightarrow> is_reconf r" and "test_is_off name \<longleftrightarrow> \<not> is_on r"
proof -
  have "state r \<in> {OFF, ON, REC_OFF, REC_ON}" using assms by (cases "state r") auto
  then show "0 < test_is_reconf name \<longleftrightarrow> is_reconf r"
    using assms unfolding test_is_reconf_def occurs_iff
    by (auto simp: instance_tests sublist_Cons_right)
  show "test_is_off name \<longleftrightarrow> \<not> is_on r"
    using assms by (cases "state r") (auto simp: test_is_off_def instance_tests)
qed

text \<open>
  The check after a change of state is a search for the name in what is printed: asked for \<open>ON\<close>, it is
  content with \<open>REC-ON\<close>.
\<close>

lemma test_set_state_content:
  assumes "system (take (TEST_BSIZE - 1) ''sudo  refmon --set-state  ON > /dev/null'') w = (0, w1)"
    and "popen (take (TEST_BSIZE - 1) '' refmon --print-state '') w1 = (Some (''REC-ON'' @ [CHR 0x0A], 0), w2)"
  shows "test_set_state system popen ''ON'' w = Some (0, w2)"
proof -
  have "output_loop [] (''REC-ON'' @ [CHR 0x0A]) = ''REC-ON'' @ [CHR 0x0A]"
    by (subst output_loop_all) (simp_all add: TEST_BSIZE_def)
  moreover have "test_string_occurrences ''REC-ON'' (Some ''ON'') = 1"
    by (simp add: test_string_occurrences_def occurrences_loop.simps [of _ "''ON''"] strstr.simps [of _ "''ON''"])
  ultimately show ?thesis
    using assms by (simp add: test_set_state_def test_exec_def test_exec_output_def snprintf_def)
qed

text \<open>Counting the lines of a listing counts the entries, when no path has a newline in it.\<close>

lemma count_lines_concat:
  assumes "\<forall>l\<in>set ls. \<exists>x. l = x @ [CHR 0x0A] \<and> CHR 0x0A \<notin> set x" and "ls \<noteq> []"
  shows "length (filter (\<lambda>c. c = CHR 0x0A) (concat ls)) = length ls" and "newline_at_end (concat ls)"
proof -
  show "length (filter (\<lambda>c. c = CHR 0x0A) (concat ls)) = length ls"
    using assms(1) by (induction ls) (auto simp: filter_empty_conv)
  obtain ks l where "ls = ks @ [l]" using assms(2) by (cases ls rule: rev_cases) auto
  then show "newline_at_end (concat ls)" using assms(1) by auto
qed

lemma count_listing:
  assumes "popen (take (TEST_BSIZE - 1) (preamble @ '' refmon --print-registry '')) w = (Some (text, 0), w')"
    and "text = concat ls" and "\<forall>l\<in>set ls. \<exists>x. l = x @ [CHR 0x0A] \<and> CHR 0x0A \<notin> set x \<and> 1 < length x"
    and "nul_free text" and "strlen text < TEST_BSIZE - 1"
  shows "\<exists>out. test_print_reg popen preamble w = (0, Some out, w') \<and> test_count_str_lines out = length ls"
proof (cases "ls = []")
  case True
  then show ?thesis
    using assms
    by (simp add: test_print_reg_def test_exec_output_def snprintf_def output_loop.simps
        test_count_str_lines_def)
next
  case False
  have nl: "length (filter (\<lambda>c. c = CHR 0x0A) text) = length ls" "newline_at_end text"
    unfolding assms(2) using count_lines_concat [OF _ False] assms(3) by blast+
  define out where "out = butlast text"
  have split: "text = out @ [CHR 0x0A]" using nl(2) by (metis out_def append_butlast_last_id)
  have "output_loop [] text = text" using output_loop_all [OF assms(4), of "[]"] assms(5) by simp
  then have r: "test_print_reg popen preamble w = (0, Some out, w')"
    using assms(1) nl(2) by (simp add: test_print_reg_def test_exec_output_def snprintf_def out_def)
  have count: "Suc (length (filter (\<lambda>c. c = CHR 0x0A) out)) = length ls" using nl(1) split by simp
  obtain ks l where ls: "ls = ks @ [l]" using False by (cases ls rule: rev_cases) auto
  then obtain x where x: "l = x @ [CHR 0x0A]" "CHR 0x0A \<notin> set x" "1 < length x" using assms(3) by auto
  then have "out = concat ks @ x" using split assms(2) ls by simp
  moreover have "x \<noteq> []" using x(3) by auto
  moreover from this have "last x \<noteq> CHR 0x0A" using x(2) last_in_set by metis
  ultimately have "out \<noteq> []" "last out \<noteq> CHR 0x0A" by auto
  then have "test_count_str_lines out = length ls" using count by (simp add: test_count_str_lines_def)
  then show ?thesis using r by blast
qed

end
