(* ===== verification/Spec2Isabelle.thy ===== *)
theory Spec2Isabelle
  imports Samples Testapi
begin

text \<open>
  Verification of refmon, a reference monitor for files: a Linux kernel module that lets root register
  paths and then blocks opens for writing, creations and deletions of what is registered, the small
  file system that keeps its log, and the command line program.

  \<^bold>\<open>The program.\<close> The module keeps one instance (\<open>model/\<close>): a state (\<open>OFF\<close>, \<open>ON\<close>, \<open>REC-OFF\<close>, \<open>REC-ON\<close>), the
  registry of entries (a path as registered and as resolved, each with its inode number), the hash
  of a password, and two spin locks. Loading (\<open>refmon.c\<close>) installs four system calls in unused entries
  of the system call table (\<open>syscalls/syscalls.c\<close>, \<open>lib/scth\<close>), files under \<open>/proc\<close> (\<open>io/procio.c\<close>) and
  five kretprobes (\<open>probing/\<close>). The calls (\<open>syscalls/syscalls-handlers.c\<close>) check their caller
  (\<open>syscalls/safety.c\<close>), hash the password (\<open>misc/misc.c\<close>), resolve paths and search the registry
  (\<open>misc/fsutils.c\<close>). A probe's entry handler asks the registry about the path of the operation; its
  return handler replaces the result by \<open>-EACCES\<close> and schedules a work (\<open>io/logio.c\<close>) that hashes the
  program and writes a line into the file of a file system of its own (\<open>io/refmonfs/\<close>). The command
  line program (\<open>user/\<close>) finds the numbers of the calls under \<open>/proc\<close>.

  \<^bold>\<open>The theories\<close>, in the order in which they build on each other:
  \<^item> \<open>Refmon_Prelude\<close>: C strings, pointers and numbers; \<open>Refmon_Model\<close>: states, entries and the instance
    (\<open>model/\<close>), and the interface \<open>codec\<close> of a value and its text;
  \<^item> \<open>Kernel\<close>: what the kernel answers (\<open>kenv\<close>, one environment for each run of an entry point) and what
    the module changes of it (\<open>ksys\<close>): allocator, locks, table, proc files, probes, works, log;
  \<^item> \<open>Hashing\<close> (\<open>misc/misc.c\<close>), \<open>Fsutils\<close> (\<open>misc/fsutils.c\<close>), \<open>Safety\<close> (\<open>syscalls/safety.c\<close>), \<open>Probing\<close>
    (\<open>probing/probing.c\<close>), \<open>Handlers\<close> (\<open>syscalls/syscalls-handlers.c\<close>, with the interface \<open>reconf_call\<close> that the
    three reconfiguring calls meet), \<open>Registry\<close> (those calls on an abstract registry, interface
    \<open>registry_store\<close>), \<open>Logio\<close> (\<open>io/logio.c\<close>), \<open>Hooks\<close> (\<open>probing/probing-handlers.c\<close>), \<open>Scth\<close> (\<open>lib/scth/scth.c\<close>),
    \<open>Syscalls\<close> (\<open>syscalls/syscalls.c\<close>), \<open>Procio\<close> (\<open>io/procio.c\<close>), \<open>Module\<close> (\<open>refmon.c\<close>), \<open>User\<close> (the commands of \<open>user/\<close>)
    \<open>Options\<close> (its \<open>main\<close>, with \<open>getopt_long\<close>) and \<open>Testapi\<close> (\<open>test/api/testapi.c\<close>, the helpers of the tests);
  \<^item> \<open>Monitor\<close>: the running module as a step relation over its entry points, its reachable states, and
    the interface \<open>run_invariant\<close>, met by safety, uniqueness, agreement of probes and state, and the
    installation; \<open>Inflight\<close>: the same with entry and return handlers as events of their own and calls in
    flight between them, interface \<open>flight_invariant\<close>; \<open>Race\<close>: the search of a probe, entry by entry,
    against additions and removals on another processor; \<open>Parallel\<close>: the system calls on several
    processors, in the steps between which others can run; \<open>Refinement\<close>: an abstract monitor (a state
    and a table of paths) that the calls and the probes' decisions refine;
  \<^item> \<open>Onefilefs\<close> (\<open>io/refmonfs/file.c\<close>, \<open>dir.c\<close>, with the interface \<open>append_file\<close>) and \<open>Mkfs\<close>
    (\<open>singlefilemakefs.c\<close> and \<open>singlefilefs.c\<close>): the file system of the log; \<open>Fstyped\<close>: its
    operations in any order, what they keep, and the memory they stay in;
  \<^item> \<open>Logfile\<close>: runs with their events, what is put on record, and the log on the disk; \<open>Commands\<close>: the
    command line program against the running module; \<open>Samples\<close>: one kernel, one device and one short run,
    on which the properties are applied.

  \<^bold>\<open>How the code is read.\<close> A function of the program that may crash (an invalid access, a lock taken
  twice, a read of a freed or uninitialised pointer) has an option result, and \<^term>\<open>None\<close> is the crash.
  Errors are the negative codes of the source. Allocation, crypto API, path lookups, kprobes, user
  copies and block reads are not code of this repository: they are fields of \<open>kenv\<close>,
  \<open>fsenv\<close> and \<open>mkfs_env\<close>, free in every theorem but for the hypotheses it names (\<open>no_oom\<close>: allocations
  succeed; \<open>crypto_ok\<close>: hashing succeeds; \<open>calm\<close>: both, and user strings are copied; \<open>arming_ok\<close>: probes
  are enabled and disabled as asked; \<open>world h\<close>: the hash function is \<open>h\<close>, with 32 bytes, and kprobes
  register). Machine words are kept where their width matters: flags, registers, inode numbers and
  table entries as words, the offsets of the file system as integers with the conversions of C
  written out. The bookkeeping of the allocator counts live blocks and notes an allocation that
  may sleep inside a section that must not (\<open>slept\<close>).

  \<^bold>\<open>What is shown.\<close> C1 to C3: invariant and authorisation, whatever the kernel does. C4 to C6: what is
  blocked, one call at a time; C7 to C9: with calls in flight, and when there are too
  many; C10 to C12: with the search, the calls and
  the switching of the probes taken apart. C13 to C17: the calls and decisions refine the abstract
  monitor. C18 to C22: loading, unloading and the table. C23 to C26: checks and handlers on every branch.
  C27 to C35: the log, from the blocked call to the bytes on the device, with what keeps its file
  system in its memory (C33) and what hangs it (C35). C36 to C38: hashes, kernel
  threads, files under \<open>/proc\<close>. C39, C40: the command line program, on the
  documented command lines and on any.

  \<^bold>\<open>Bounds.\<close> No theorem rests on fuel: loops are structural, have a measure, or are partial functions
  whose termination is proved (reading a file for its hash, C36; reading the log's file, C31). The file
  system is taken with sizes up to \<open>2 ^ 42\<close> bytes, where the block numbers fit a C int.

  \<^bold>\<open>Not modelled.\<close> In \<open>Monitor\<close> a system call, an entry handler, a return handler, a work or a read
  under \<open>/proc\<close> runs to its end in one step; \<open>Inflight\<close>, \<open>Race\<close> and \<open>Parallel\<close> take calls in flight, the
  search and the system calls apart. Two handlers of probes, two works or two reads are never
  interleaved with each other within one, and the orders in which processors see each other's writes
  are not modelled. Faults of direct reads of user memory, the memory around the table, messages and
  debug output of the module, and the change of its parameters between loading and unloading are left
  out. Of the user program: what \<open>getopt_long\<close> and \<open>perror\<close> print themselves. Of the file system:
  timestamps, a device that is mounted twice, and writes by user programs, for which the code reads a
  kernel segment that is not there. The test suites, which list runs of the program and the results
  expected, and the build files are not modelled.
\<close>

section \<open>The running monitor\<close>

text \<open>
  C1. In every state the module can reach after a successful load, whatever the allocator, the crypto
  API, kprobes and the callers did: the state is one of the four, every registry entry has its two
  paths (the registered one absolute) and no reserved inode number, the password is the one set when
  loading, no lock is held, every section that must not sleep was left, and every probe is registered.
\<close>

theorem safety_invariant:
  assumes "reachable (world h) s0 s"
  shows "is_enumerator (state (the_inst s)) \<and> wf_entries (registry (the_inst s)) \<and>
    password (the_inst s) = Some (hex_string (h REFMON_DEFAULT_PASSWORD)) \<and>
    \<not> spinlock_inst (the_inst s) \<and> \<not> spinlock_probing (the_inst s) \<and> preempt (mem s) = 0 \<and>
    (\<forall>p. probe_registered s p)"
  using safety.always [OF assms] by (simp add: monitor_inv_def)

theorem safety_invariant_witness:
  "\<exists>s :: ksys. registry (the_inst s) = [sample_entry] \<and> wf_entries (registry (the_inst s)) \<and>
     preempt (mem s) = 0 \<and> (\<forall>p. probe_registered s p)"
proof -
  obtain s where s: "sample_state REC_ON [sample_entry] True s" using sample_protecting ..
  then have "reachable (world sample_hash) sample_boot s"
    using sample_reachable_in(1) by (simp add: sample_state_def)
  note inv = safety_invariant [OF this]
  show ?thesis by (rule exI [of _ s]) (use inv s in \<open>simp add: sample_state_def\<close>)
qed

text \<open>
  C2. The registry changes only in a call that reconfigures it, made by root, in a reconfigurable
  state, with a password whose hash is the one of the module's password.
\<close>

theorem registry_change_authorised:
  assumes "reachable (world h) s0 s" and "world h env" and "step env s e r s'"
    and "registry (the_inst s') \<noteq> registry (the_inst s)"
  shows "\<exists>input pw. reconf_password e = Some (Some input) \<and> euid env = 0 \<and>
    state (the_inst s) \<in> {REC_OFF, REC_ON} \<and> copy_from_user env input = Some pw \<and>
    h pw = h REFMON_DEFAULT_PASSWORD"
proof -
  note inv = safety.always [OF assms(1), unfolded monitor_inv_def]
  have "wf_entries (registry (the_inst s))" using inv by blast
  moreover have "length (sha256 env x) = 32" for x using assms(2) by (simp add: world_def)
  ultimately show ?thesis
    using step_registry [OF assms(3) _ assms(4)] inv assms(2)
    by (auto simp: is_reconf_def digest_of_def world_def)
qed

theorem registry_change_authorised_witness:
  "\<exists>(s :: ksys) input pw. reconf_password (Reconf_add (Some ''/f'') (Some ''ciao'')) = Some (Some input) \<and>
     euid sample_env = 0 \<and> state (the_inst s) \<in> {REC_OFF, REC_ON} \<and>
     copy_from_user sample_env input = Some pw \<and>
     sample_hash pw = sample_hash REFMON_DEFAULT_PASSWORD"
proof -
  obtain s where s: "sample_state REC_ON [] True s" using sample_on ..
  then obtain s' where
    st: "step sample_env s (Reconf_add (Some ''/f'') (Some ''ciao'')) (Returned 0) s'"
    and s': "sample_state REC_ON [sample_entry] True s'"
    using sample_register by blast
  have "reachable (world sample_hash) sample_boot s"
    using s sample_reachable_in(1) by (simp add: sample_state_def)
  moreover have "registry (the_inst s') \<noteq> registry (the_inst s)"
    using s s' by (simp add: sample_state_def)
  ultimately have "\<exists>input pw. reconf_password (Reconf_add (Some ''/f'') (Some ''ciao'')) =
     Some (Some input) \<and> euid sample_env = 0 \<and> state (the_inst s) \<in> {REC_OFF, REC_ON} \<and>
     copy_from_user sample_env input = Some pw \<and>
     sample_hash pw = sample_hash REFMON_DEFAULT_PASSWORD"
    by (rule registry_change_authorised [OF _ sample_world st])
  then show ?thesis by (rule exI [of _ s])
qed

text \<open>
  C3. The state changes, and probes are switched, only in a \<open>set_state\<close> of root; the new state is the
  one its argument names, and nothing else changes.
\<close>

theorem state_change_authorised:
  assumes "reachable (world h) s0 s" and "step env s e r s'"
    and "state (the_inst s') \<noteq> state (the_inst s) \<or> probe_enabled s' \<noteq> probe_enabled s"
  shows "\<exists>str st. e = Set_state (Some str) \<and> euid env = 0 \<and> state_to_string st = Some str \<and>
    s' = s\<lparr>the_inst := (the_inst s)\<lparr>state := st\<rparr>,
      probe_enabled := probes_after env (is_on ((the_inst s)\<lparr>state := st\<rparr>)) s\<rparr>"
proof -
  have "wf_entries (registry (the_inst s))"
    using safety.always [OF assms(1)] by (simp add: monitor_inv_def)
  then show ?thesis using step_state [OF assms(2) _ assms(3)] state_name.enc_dec by blast
qed

theorem state_change_authorised_witness:
  "\<exists>(s :: ksys) str st. Set_state (Some ''REC-ON'') = Set_state (Some str) \<and> euid sample_env = 0 \<and>
     state (the_inst s) = OFF \<and> state_to_string st = Some str"
proof -
  obtain s where s: "sample_state OFF [] False s" using sample_start ..
  then obtain s' where st: "step sample_env s (Set_state (Some ''REC-ON'')) (Returned 0) s'"
    and s': "sample_state REC_ON [] True s'"
    using sample_switch by blast
  have r: "reachable (world sample_hash) sample_boot s" and off: "state (the_inst s) = OFF"
    using s sample_reachable_in(1) by (simp_all add: sample_state_def)
  have "state (the_inst s') \<noteq> state (the_inst s)" using s s' by (simp add: sample_state_def)
  then obtain str st where "Set_state (Some ''REC-ON'') = Set_state (Some str)"
      "state_to_string st = Some str"
    using state_change_authorised [OF r st] by blast
  then have "Set_state (Some ''REC-ON'') = Set_state (Some str) \<and> euid sample_env = 0 \<and>
     state (the_inst s) = OFF \<and> state_to_string st = Some str"
    using off by simp
  then show ?thesis by blast
qed

section \<open>Mediation\<close>

text \<open>
  C4. While the monitor is on (and kprobes armed the probes), a call of a probed function gets
  \<open>-EACCES\<close> and is put on record exactly when the registry denies it; otherwise the caller gets the
  function's value. This needs memory, a free instance of the probe, and a task with an executable.
\<close>

theorem blocked_exactly:
  assumes "reachable (\<lambda>env. world h env \<and> arming_ok env) s0 s" and "is_on (the_inst s)"
    and "in_use < 15" and "no_oom env"
    and "dentry_path_raw env (hook_dentry (entry_handler (kretprobe_of p)) env regs) = Some q"
    and "exe_dentry env = Some d" and "dentry_path_raw env d = Some exe"
  shows "\<exists>m. probed_call env p in_use regs rv s =
    (if hook_denied (entry_handler (kretprobe_of p)) env (registry (the_inst s)) regs
     then Some (minus_EACCES, s\<lparr>mem := m, works := works s @ [blocked_work env exe]\<rparr>)
     else Some (rv, s\<lparr>mem := m\<rparr>))"
proof -
  have "monitor_inv h s" "probe_enabled s p" using probes.always [OF assms(1)] assms(2) by auto
  then show ?thesis
    using probed_call_exact [OF _ _ assms(3) _ assms(4-7)] by (simp add: monitor_inv_def)
qed

theorem blocked_exactly_witness:
  "\<exists>(s :: ksys) m. registry (the_inst s) = [sample_entry] \<and>
     probed_call sample_env krp_vfs_open 0 sample_open 0 s =
       Some (minus_EACCES, s\<lparr>mem := m, works := works s @ [blocked_work sample_env ''/bin/vi'']\<rparr>)"
proof -
  obtain s where s: "sample_state REC_ON [sample_entry] True s" using sample_protecting ..
  then have r: "reachable (\<lambda>env. world sample_hash env \<and> arming_ok env) sample_boot s"
    and on: "is_on (the_inst s)" and reg: "registry (the_inst s) = [sample_entry]"
    using sample_reachable_in(3) by (simp_all add: sample_state_def instance_tests)
  have "\<exists>m. probed_call sample_env krp_vfs_open 0 sample_open 0 s =
    (if hook_denied (entry_handler (kretprobe_of krp_vfs_open)) sample_env (registry (the_inst s))
       sample_open
     then Some (minus_EACCES, s\<lparr>mem := m, works := works s @ [blocked_work sample_env ''/bin/vi'']\<rparr>)
     else Some (0, s\<lparr>mem := m\<rparr>))"
    by (rule blocked_exactly [OF r on _ sample_no_oom, where q = "''/f''" and d = 20])
      (simp_all add: sample_open_def)
  then show ?thesis using sample_open_denied reg by auto
qed


text \<open>
  C5. Whatever the kernel does (no memory, paths that do not resolve, probes missed), a probed call
  that is changed or recorded is one the registry denies, while its probe is enabled, and its caller
  gets \<open>-EACCES\<close>; no other state of the module is touched.
\<close>

theorem blocked_only_if_denied:
  assumes "reachable (world h) s0 s" and "probed_call env p in_use regs rv s = Some (v, s')"
    and "v \<noteq> rv \<or> works s' \<noteq> works s"
  shows "v = minus_EACCES \<and> probe_enabled s p \<and> in_use < 15 \<and>
    hook_denied (entry_handler (kretprobe_of p)) env (registry (the_inst s)) regs \<and>
    (\<exists>m ws. s' = s\<lparr>mem := m, works := works s @ ws\<rparr> \<and> preempt m = preempt (mem s))"
proof -
  have wf: "wf_entries (registry (the_inst s))"
    using safety.always [OF assms(1)] by (simp add: monitor_inv_def)
  show ?thesis
    using probed_call_changed [OF wf assms(2,3)] probed_call_frame(1) [OF wf assms(2)] by blast
qed

theorem blocked_only_if_denied_witness:
  "\<exists>s :: ksys. registry (the_inst s) = [sample_entry] \<and>
     hook_denied Hook_open sample_env (registry (the_inst s)) sample_open"
proof -
  obtain s where s: "sample_state REC_ON [sample_entry] True s" using sample_protecting ..
  then have r: "reachable (world sample_hash) sample_boot s" "registry (the_inst s) = [sample_entry]"
    using sample_reachable_in(1) by (simp_all add: sample_state_def)
  obtain m where "probed_call sample_env krp_vfs_open 0 sample_open 0 s =
    Some (minus_EACCES, s\<lparr>mem := m, works := works s @ [blocked_work sample_env ''/bin/vi'']\<rparr>)"
    using sample_blocked [OF s] by blast
  from blocked_only_if_denied [OF r(1) this]
  have "hook_denied Hook_open sample_env (registry (the_inst s)) sample_open" by simp
  with r(2) show ?thesis by blast
qed

text \<open>
  C6. From registration to protection: after a call that registered a path, and as long as its entry
  stays and the monitor is on, an open for writing gets \<open>-EACCES\<close> if the path it resolves to is the
  one that the registered path resolved to, or has the same inode number, or lies below it while it
  is a directory.
\<close>

theorem registered_file_protected:
  assumes "step env0 s1 (Reconf_add (Some input) w) (Returned 0) s2"
    and "copy_from_user env0 input = Some p" and "resolve_path env0 (Some p) 3 = Some q"
    and "reachable (\<lambda>env. world h env \<and> arming_ok env) s0 s" and "is_on (the_inst s)"
    and "set (registry (the_inst s2)) \<subseteq> set (registry (the_inst s))"
    and "in_use < 15" and "no_oom env"
    and "dentry_path_raw env (path_dentry env (di regs)) = Some raw"
    and "exe_dentry env = Some d" and "dentry_path_raw env d = Some exe"
    and "looked_up env (path_dentry env (di regs)) REFMON_FSUTILS_RESOLVE_LINKS = Some q'"
    and "q' \<noteq> ''''" and "f_flags env (si regs) AND O_ACCMODE \<in> {O_WRONLY, O_RDWR}"
    and "q' = q \<or> extract_ino_no_from_path env q' = extract_ino_no_from_path env0 q \<or>
      is_dir env q = 1 \<and> below q q'"
  shows "\<exists>m. probed_call env krp_vfs_open in_use regs rv s =
    Some (minus_EACCES, s\<lparr>mem := m, works := works s @ [blocked_work env exe]\<rparr>)"
proof -
  have "sys_reconf_add env0 (Some input) w s1 = Some (0, s2)" using assms(1) by auto
  from add_success_entry [OF this] assms(2,3) obtain rp where
    "registry (the_inst s2) = registry (the_inst s1) @ [new_entry env0 p rp q]" by auto
  then have "new_entry env0 p rp q \<in> set (registry (the_inst s))" using assms(6) by auto
  then have denied: "hook_denied Hook_open env (registry (the_inst s)) regs"
    using open_denied assms(12-15) by blast
  have inv: "monitor_inv h s" "probe_enabled s krp_vfs_open"
    using probes.always [OF assms(4)] assms(5) by auto
  have "dentry_path_raw env (hook_dentry (entry_handler (kretprobe_of krp_vfs_open)) env regs) =
      Some raw"
    using assms(9) by simp
  from probed_call_exact [OF _ inv(2) assms(7) _ assms(8) this assms(10,11)] show ?thesis
    using inv(1) denied by (simp add: monitor_inv_def)
qed

theorem registered_file_protected_witness:
  "\<exists>(s :: ksys) m. registry (the_inst s) = [sample_entry] \<and>
     probed_call sample_env krp_vfs_open 14 sample_open 5 s =
       Some (minus_EACCES, s\<lparr>mem := m, works := works s @ [blocked_work sample_env ''/bin/vi'']\<rparr>)"
proof -
  obtain s1 where s1: "sample_state REC_ON [] True s1" using sample_on ..
  then obtain s where st: "step sample_env s1 (Reconf_add (Some ''/f'') (Some ''ciao'')) (Returned 0) s"
    and s: "sample_state REC_ON [sample_entry] True s"
    using sample_register by blast
  then have r: "reachable (\<lambda>env. world sample_hash env \<and> arming_ok env) sample_boot s"
    and on: "is_on (the_inst s)" and reg: "registry (the_inst s) = [sample_entry]"
    using sample_reachable_in(3) by (simp_all add: sample_state_def instance_tests)
  have "\<exists>m. probed_call sample_env krp_vfs_open 14 sample_open 5 s =
    Some (minus_EACCES, s\<lparr>mem := m, works := works s @ [blocked_work sample_env ''/bin/vi'']\<rparr>)"
    by (rule registered_file_protected [OF st _ _ r on _ _ sample_no_oom, where p = "''/f''" and
          q = "''/f''" and raw = "''/f''" and d = 20 and q' = "''/f''"])
      (simp_all add: resolve_path_def has_flag_def sample_open_def sample_looked_up [simplified])
  then show ?thesis using reg by blast
qed

text \<open>
  C7. Interleavings: between the moment a call is caught and the moment it leaves, anything may happen
  in the module. A call in flight was caught in a state of the same run, in which its probe was
  enabled and the registry denied it; it leaves with \<open>-EACCES\<close>, whatever the state has become.
\<close>

theorem caught_calls_denied:
  assumes "interleaved (world h) s0 s fl" and "i \<in> set fl"
  shows "(\<exists>fl'. interleaved (world h) s0 (caught_in i) fl') \<and>
    probe_enabled (caught_in i) (inst_probe i) \<and>
    hook_denied (entry_handler (kretprobe_of (inst_probe i))) (caught_by i)
      (registry (the_inst (caught_in i))) (inst_regs i) \<and>
    (\<forall>env regs rv r s' fl'. flight_step env (s, fl) (Leave i regs rv) r (s', fl') \<longrightarrow>
       r = Outcome (Value minus_EACCES))"
proof -
  obtain fl' n s' where i: "interleaved (world h) s0 (caught_in i) fl'"
    "enter_call (caught_by i) (inst_probe i) n (inst_regs i) (caught_in i) = Some (True, s')"
    using flying_caught [OF assms] by blast
  have "wf_entries (registry (the_inst (caught_in i)))"
    using safety_flight.always_interleaved [OF i(1)] by (simp add: monitor_inv_def)
  from enter_call_frame(2) [OF this i(2) TrueI] show ?thesis using i(1) caught_leave_value by blast
qed

theorem caught_calls_denied_witness:
  "\<exists>s fl i. interleaved (world sample_hash) sample_boot s fl \<and> i \<in> set fl \<and>
     hook_denied Hook_open (caught_by i) (registry (the_inst (caught_in i))) (inst_regs i)"
proof -
  obtain s fl where s: "interleaved (world sample_hash) sample_boot s fl"
    "busy krp_vfs_open fl = 1" using sample_flying(1) [of 1] by auto
  then obtain i where i: "i \<in> set fl" "inst_probe i = krp_vfs_open"
    using busy_instance [of krp_vfs_open fl] by auto
  from caught_calls_denied [OF s(1) i(1)] i s(1) show ?thesis by auto
qed

text \<open>
  C8. A call in flight stays in flight whatever else happens, and can leave in every state with a
  working kernel: it is blocked and recorded, also if the monitor has been switched off and the path
  unregistered since it was caught.
\<close>

theorem caught_call_leaves:
  assumes "interleaved (world h) s0 s fl" and "i \<in> set fl" and "no_oom env"
    and "exe_dentry env = Some d" and "dentry_path_raw env d = Some exe"
  shows "(\<forall>env' e r s' fl'. flight_step env' (s, fl) e r (s', fl') \<longrightarrow>
      (\<forall>regs rv. e \<noteq> Leave i regs rv) \<longrightarrow> i \<in> set fl') \<and>
    (\<exists>m. flight_step env (s, fl) (Leave i regs rv) (Outcome (Value minus_EACCES))
      (s\<lparr>mem := m, works := works s @ [blocked_work env exe]\<rparr>, remove1 i fl))"
proof -
  have "\<not> spinlock_probing (the_inst s)"
    using safety_flight.always_interleaved [OF assms(1)] by (simp add: monitor_inv_def)
  from leaves_blocked [OF this assms(2-5)] show ?thesis using stays_in_flight assms(2) by blast
qed

theorem caught_call_leaves_witness:
  "\<exists>s fl i m. state (the_inst s) = OFF \<and> i \<in> set fl \<and>
     flight_step sample_env (s, fl) (Leave i sample_open 5) (Outcome (Value minus_EACCES))
       (s\<lparr>mem := m, works := works s @ [blocked_work sample_env ''/bin/vi'']\<rparr>, remove1 i fl)"
proof -
  obtain s fl where s: "interleaved (world sample_hash) sample_boot s fl"
    "state (the_inst s) = OFF" "busy krp_vfs_open fl = 1" using sample_flying_off by blast
  then obtain i where i: "i \<in> set fl" by (cases fl) auto
  from caught_call_leaves [OF s(1) i sample_no_oom, of 20 "''/bin/vi''" sample_open 5]
  show ?thesis using s(2) i by auto
qed

text \<open>
  C9. Overload: from any state a run reaches with no call in flight, a call that the registry denies can
  be caught up to 15 times before one of them leaves. The next such call is blocked as long as fewer
  than 15 are in flight; with 15 it goes through with its own value, unseen and unrecorded. More than
  15 are never in flight.
\<close>

theorem probe_overload:
  assumes "interleaved (world h) s0 s []" and "world h env" and "no_oom env" and "probe_enabled s p"
    and "dentry_path_raw env (hook_dentry (entry_handler (kretprobe_of p)) env regs) = Some raw"
    and "hook_denied (entry_handler (kretprobe_of p)) env (registry (the_inst s)) regs"
    and "exe_dentry env = Some d" and "dentry_path_raw env d = Some exe"
  shows "(\<forall>n\<le>15. \<exists>m fl. interleaved (world h) s0 (s\<lparr>mem := m\<rparr>) fl \<and> busy p fl = n \<and> length fl = n \<and>
      (\<forall>i\<in>set fl. inst_probe i = p \<and> inst_regs i = regs) \<and>
      (\<exists>m'. probed_call env p (busy p fl) regs rv (s\<lparr>mem := m\<rparr>) =
        (if n < 15 then Some (minus_EACCES, s\<lparr>mem := m', works := works s @ [blocked_work env exe]\<rparr>)
         else Some (rv, s\<lparr>mem := m\<rparr>)))) \<and>
    (\<forall>s' fl. interleaved (world h) s0 s' fl \<longrightarrow> busy p fl \<le> 15)"
proof -
  have inv: "wf_entries (registry (the_inst s))" "\<not> spinlock_probing (the_inst s)"
    using safety_flight.always_interleaved [OF assms(1)] by (simp_all add: monitor_inv_def)
  have "\<exists>m fl. interleaved (world h) s0 (s\<lparr>mem := m\<rparr>) fl \<and> busy p fl = n \<and> length fl = n \<and>
      (\<forall>i\<in>set fl. inst_probe i = p \<and> inst_regs i = regs) \<and>
      (\<exists>m'. probed_call env p (busy p fl) regs rv (s\<lparr>mem := m\<rparr>) =
        (if n < 15 then Some (minus_EACCES, s\<lparr>mem := m', works := works s @ [blocked_work env exe]\<rparr>)
         else Some (rv, s\<lparr>mem := m\<rparr>)))" if le: "n \<le> 15" for n
  proof -
    obtain m fl where fl: "interleaved (world h) s0 (s\<lparr>mem := m\<rparr>) fl" "busy p fl = n" "length fl = n"
      "\<forall>i\<in>set fl. inst_probe i = p \<and> inst_regs i = regs"
      using denied_calls_fill [OF assms(1,2) inv(1) assms(3-6) le] by blast
    have "\<exists>m'. probed_call env p n regs rv (s\<lparr>mem := m\<rparr>) =
        (if n < 15 then Some (minus_EACCES, s\<lparr>mem := m', works := works s @ [blocked_work env exe]\<rparr>)
         else Some (rv, s\<lparr>mem := m\<rparr>))"
    proof (cases "n < 15")
      case True
      then show ?thesis
        using probed_call_exact [of "s\<lparr>mem := m\<rparr>" p n env regs raw d exe rv] inv assms(3-8) by auto
    next
      case False
      then show ?thesis using probed_call_in_use [of env p n regs rv "s\<lparr>mem := m\<rparr>"] le by simp
    qed
    then show ?thesis using fl by (intro exI [of _ m] exI [of _ fl]) simp
  qed
  then show ?thesis using busy_bound by blast
qed

theorem probe_overload_witness:
  "\<exists>s m fl. is_on (the_inst s) \<and> hook_denied Hook_open sample_env (registry (the_inst s)) sample_open \<and>
     interleaved (world sample_hash) sample_boot (s\<lparr>mem := m\<rparr>) fl \<and> busy krp_vfs_open fl = 15 \<and>
     probed_call sample_env krp_vfs_open 15 sample_open 5 (s\<lparr>mem := m\<rparr>) = Some (5, s\<lparr>mem := m\<rparr>)"
proof -
  obtain s where s: "sample_state REC_ON [sample_entry] True s" using sample_protecting ..
  then have i: "interleaved (world sample_hash) sample_boot s []" and on: "is_on (the_inst s)"
    and e: "probe_enabled s krp_vfs_open" and reg: "registry (the_inst s) = [sample_entry]"
    using sample_reachable_in(1) reachable_interleaved by (simp_all add: sample_state_def instance_tests)
  have d: "hook_denied (entry_handler (kretprobe_of krp_vfs_open)) sample_env (registry (the_inst s)) sample_open"
    using sample_open_denied reg by (simp del: hook_denied.simps)
  have raw: "dentry_path_raw sample_env
      (hook_dentry (entry_handler (kretprobe_of krp_vfs_open)) sample_env sample_open) = Some ''/f''"
    by (simp add: sample_open_def)
  have x: "exe_dentry sample_env = Some 20" "dentry_path_raw sample_env 20 = Some ''/bin/vi''" by simp_all
  from conjunct1 [OF probe_overload [OF i sample_world sample_no_oom e raw d x, of 5]]
  obtain m fl where "interleaved (world sample_hash) sample_boot (s\<lparr>mem := m\<rparr>) fl" "busy krp_vfs_open fl = 15"
    "probed_call sample_env krp_vfs_open 15 sample_open 5 (s\<lparr>mem := m\<rparr>) = Some (5, s\<lparr>mem := m\<rparr>)"
    by (auto dest!: spec [of _ 15])
  then show ?thesis using on d by (intro exI [of _ s] exI [of _ m] exI [of _ fl]) (simp del: hook_denied.simps)
qed

section \<open>Several processors\<close>

text \<open>
  C10. The probes search the registry without its lock while calls add and remove entries. The verdict of
  such a search is that of the registry at one of the moments it lived through; it crashes only if
  an entry was removed meanwhile; and it comes to an end when it is left alone.
\<close>

theorem racing_search:
  assumes "race env \<lparr>path = Some p, ino_no = i\<rparr> (REFMON_SEARCH_CRIT_ABSOLUTE_PATH OR
      REFMON_SEARCH_CRIT_ABSOLUTE_INO OR REFMON_SEARCH_CRIT_SUBDIR_CHECK) sh0 moments sh w"
    and "\<forall>a e. node_at sh a = Some e \<longrightarrow> wf_entry e"
  shows "(\<forall>a. w = Found a \<longrightarrow>
      (\<exists>h\<in>set moments. is_eligible env (entries h) \<lparr>path = Some p, ino_no = i\<rparr> = Some 1)) \<and>
    (w = Not_found \<longrightarrow>
      (\<exists>h\<in>set moments. is_eligible env (entries h) \<lparr>path = Some p, ino_no = i\<rparr> = Some 0)) \<and>
    (w = Crashed \<longrightarrow> (\<exists>h\<in>set moments. \<not> set (linked h) \<subseteq> set (linked sh))) \<and>
    (\<exists>n. ended ((walk_step env \<lparr>path = Some p, ino_no = i\<rparr> (REFMON_SEARCH_CRIT_ABSOLUTE_PATH OR
      REFMON_SEARCH_CRIT_ABSOLUTE_INO OR REFMON_SEARCH_CRIT_SUBDIR_CHECK) sh ^^ n) w))"
proof -
  have r: "race env \<lparr>path = Some p, ino_no = i\<rparr> 28 sh0 moments sh w" using assms(1) by simp
  have t: "tests_ok env \<lparr>path = Some p, ino_no = i\<rparr> 28 sh" by (rule wf_tests_ok [OF assms(2)])
  have "\<exists>h\<in>set moments. is_eligible env (entries h) \<lparr>path = Some p, ino_no = i\<rparr> = Some 1"
    if f: "w = Found a" for a
  proof -
    obtain h e where "h \<in> set moments"
      "search_entry env (entries h) \<lparr>path = Some p, ino_no = i\<rparr> 28 = Some (Some e)"
      using race_found [OF r [unfolded f] t] by blast
    then show ?thesis by (intro bexI [of _ h]) (simp_all add: is_eligible_def)
  qed
  moreover have "\<exists>h\<in>set moments. is_eligible env (entries h) \<lparr>path = Some p, ino_no = i\<rparr> = Some 0"
    if f: "w = Not_found"
  proof -
    obtain h where "h \<in> set moments"
      "search_entry env (entries h) \<lparr>path = Some p, ino_no = i\<rparr> 28 = Some None"
      using race_not_found [OF r [unfolded f]] by blast
    then show ?thesis by (intro bexI [of _ h]) (simp_all add: is_eligible_def)
  qed
  moreover have "\<exists>h\<in>set moments. \<not> set (linked h) \<subseteq> set (linked sh)" if "w = Crashed"
    by (rule race_crashed [OF r [unfolded that] t])
  moreover have "wf_shared sh" using race_wf [OF r] by simp
  note walk_ends [OF this, of env "\<lparr>path = Some p, ino_no = i\<rparr>" 28 w]
  ultimately show ?thesis unfolding eligible_criteria by blast
qed

theorem racing_search_witness:
  "\<exists>sh w. race sample_env \<lparr>path = Some ''/f'', ino_no = 10\<rparr> 28 sample_list [sample_list] sh w \<and>
     w = Found 0 \<and> is_eligible sample_env [sample_entry] \<lparr>path = Some ''/f'', ino_no = 10\<rparr> = Some 1"
proof -
  let ?pid = "\<lparr>path = Some ''/f'', ino_no = 10\<rparr>"
  have "race sample_env ?pid 28 sample_list [sample_list] sample_list
      ((walk_step sample_env ?pid 28 sample_list ^^ 3) Start)"
    by (rule race_walks [OF race.begins [OF sample_list(1)]])
  moreover have "(walk_step sample_env ?pid 28 sample_list ^^ 3) Start = Found 0"
    using entry_matches_eligible [OF sample_entry_wf, of sample_env "''/f''" 10]
    by (simp add: numeral_3_eq_3 sample_list_def searchable_def sample_entry_def protects_def)
  ultimately have r: "race sample_env ?pid 28 sample_list [sample_list] sample_list (Found 0)" by simp
  have "\<forall>a e. node_at sample_list a = Some e \<longrightarrow> wf_entry e"
    using sample_entry_wf by (simp add: sample_list_def)
  from racing_search [unfolded eligible_criteria, OF r this] r show ?thesis
    by (auto simp: sample_list(2))
qed

text \<open>
  C11. Calls on several processors, each in the steps in which it takes the lock, works and lets it
  go, with everything else in between: at most one is in its section, exactly when the lock is taken;
  and whenever the lock is free, the state, the registry and the probes are what the finished calls
  make of a module just loaded, one whole call after the other, each with the result it returns. The
  call in its section can always run on to its end, if the kernel does not fail and its strings are
  given.
\<close>

theorem calls_serialise:
  assumes "smp_run (world h) s0 s fl cs hist"
  shows "(spinlock_inst (the_inst s) \<longleftrightarrow> (\<exists>c. holding cs c)) \<and>
    (\<forall>c d. holding cs c \<and> holding cs d \<longrightarrow> c = d) \<and>
    (\<not> spinlock_inst (the_inst s) \<longrightarrow> serial (world h) h hist (view_of s)) \<and>
    (\<forall>c env e r. cs c = Some (env, e, Leaving r) \<longrightarrow>
       serial (world h) h (hist @ [(env, e, r)]) (view_of s)) \<and>
    (\<forall>c env e r. cs c = Some (env, e, Over r) \<longrightarrow> (env, e, r) \<in> set hist) \<and>
    (\<forall>c env e pc. cs c = Some (env, e, pc) \<and> inside pc \<and> calm env \<and> strings_given e \<longrightarrow>
       (\<exists>r s'. smp_run (world h) s0 s' fl (cs(c \<mapsto> (env, e, Over r))) (hist @ [(env, e, r)])))"
proof -
  have inv: "par_inv (world h) h s cs hist" by (rule parallel_inv [OF assms])
  have "serial (world h) h hist (view_of s)" if "\<not> spinlock_inst (the_inst s)"
    using inv [unfolded par_inv_free [OF that]] by blast
  moreover have "\<exists>r s'. smp_run (world h) s0 s' fl (cs(c \<mapsto> (env, e, Over r))) (hist @ [(env, e, r)])"
    if *: "cs c = Some (env, e, pc)" "inside pc" "calm env" "strings_given e" for c env e pc
  proof -
    obtain r s' where "call_steps env e (pc, s) (Over r, s')" using holder_finishes [OF inv *] by blast
    moreover have "\<forall>r. pc \<noteq> Over r" using *(2) by auto
    ultimately show ?thesis
      using parallel_steps [OF _ assms refl refl *(1)] by (fastforce simp: extend_def)
  qed
  ultimately show ?thesis
    using lock_holder [OF inv] leaving_serial [OF inv] over_in_history [OF assms] by blast
qed

theorem calls_serialise_witness:
  "\<exists>hist. serial (world sample_hash) sample_hash hist (REC_ON, [sample_entry], \<lambda>_. True)"
proof -
  obtain s where s: "sample_state REC_ON [sample_entry] True s" using sample_protecting ..
  then have "reachable (world sample_hash) sample_boot s" and inv: "monitor_inv sample_hash s"
    and v: "view_of s = (REC_ON, [sample_entry], \<lambda>_. True)"
    using sample_reachable_in(1) sample_inv by (auto simp: sample_state_def view_of_def fun_eq_iff)
  then obtain hist where "smp_run (world sample_hash) sample_boot s [] (\<lambda>_. None) hist"
    using reachable_interleaved interleaved_parallel by blast
  from calls_serialise [OF this] inv v show ?thesis by (auto simp: monitor_inv_def)
qed

text \<open>
  C12. Switching the probes is not atomic, and they take no notice of the lock. When kprobes arm and
  disarm as asked, the probes agree with the state while the lock is free; while a call switches
  them, those it has come to obey the new state and the others the old. So when root switches on a
  monitor that was off, there is a moment at which the state is \<open>ON\<close> and opens are checked, while
  the removal of a directory goes through unseen.
\<close>

theorem switch_window:
  assumes "smp_run (\<lambda>env. world h env \<and> arming_ok env) s0 s fl cs hist"
  shows "(\<not> spinlock_inst (the_inst s) \<longrightarrow> (\<forall>p. probe_enabled s p \<longleftrightarrow> is_on (the_inst s))) \<and>
    (\<forall>c env e on ps. cs c = Some (env, e, Switching on ps) \<longrightarrow>
       is_on (the_inst s) = on \<and> (\<exists>old. \<forall>p. probe_enabled s p = (if p \<in> set ps then old else on))) \<and>
    (\<forall>c env. \<not> spinlock_inst (the_inst s) \<and> \<not> is_on (the_inst s) \<and> cs c = None \<and>
       world h env \<and> arming_ok env \<and> euid env = 0 \<longrightarrow>
       (\<exists>s'. smp_run (\<lambda>env. world h env \<and> arming_ok env) s0 s' fl
           (cs(c \<mapsto> (env, Set_state (Some ''ON''), Switching True [krp_vfs_rmdir]))) hist \<and>
         state (the_inst s') = ON \<and> registry (the_inst s') = registry (the_inst s) \<and>
         probe_enabled s' = (\<lambda>p. p \<noteq> krp_vfs_rmdir) \<and>
         (\<forall>env n regs. enter_call env krp_vfs_rmdir n regs s' = Some (False, s'))))"
proof -
  have inv: "par_inv (\<lambda>env. world h env \<and> arming_ok env) h s cs hist" by (rule parallel_inv [OF assms]) simp
  have free: "monitor_inv h s \<and> (\<forall>p. probe_enabled s p \<longleftrightarrow> is_on (the_inst s))"
    if "\<not> spinlock_inst (the_inst s)"
    using inv [unfolded par_inv_free [OF that]]
      serial_probes [of "\<lambda>env. world h env \<and> arming_ok env" h hist "view_of s" s] by blast
  have unseen: "enter_call env krp_vfs_rmdir n regs s' = Some (False, s')"
    if "probe_enabled s' = (\<lambda>p. p \<noteq> krp_vfs_rmdir)" for env n regs and s' :: ksys
    using that by (simp add: enter_call_def)
  have "\<exists>s'. smp_run (\<lambda>env. world h env \<and> arming_ok env) s0 s' fl
        (cs(c \<mapsto> (env, Set_state (Some ''ON''), Switching True [krp_vfs_rmdir]))) hist \<and>
      state (the_inst s') = ON \<and> registry (the_inst s') = registry (the_inst s) \<and>
      probe_enabled s' = (\<lambda>p. p \<noteq> krp_vfs_rmdir) \<and>
      (\<forall>env n regs. enter_call env krp_vfs_rmdir n regs s' = Some (False, s'))"
    if *: "\<not> spinlock_inst (the_inst s)" "\<not> is_on (the_inst s)" "cs c = None" "world h env" "arming_ok env"
      "euid env = 0" for c env
    using switch_window_opens [where h = h, OF assms *(3,1) _ *(4-6)] *(2,4,5) free [OF *(1)] unseen by blast
  then show ?thesis using free switching_probes [OF inv] by blast
qed

theorem switch_window_witness:
  "\<exists>s :: ksys. state (the_inst s) = ON \<and> probe_enabled s krp_vfs_open \<and>
     (\<forall>env n regs. enter_call env krp_vfs_rmdir n regs s = Some (False, s))"
proof -
  obtain s where s: "sample_state OFF [] False s" using sample_start ..
  have w: "world sample_hash sample_env" "arming_ok sample_env" "euid sample_env = 0"
    using sample_world sample_arming by simp_all
  obtain hist where
    "smp_run (\<lambda>env. world sample_hash env \<and> arming_ok env) sample_boot s [] (\<lambda>_. None) hist"
    using s sample_reachable_in(3) reachable_interleaved interleaved_parallel
    unfolding sample_state_def by blast
  from switch_window [OF this] w s sample_inv show ?thesis
    by (fastforce simp: sample_state_def monitor_inv_def instance_tests)
qed

text \<open>
  A removal at the wrong moment crashes the search: in every state of the monitor whose first entry
  does not protect the path a probe asks for, the probe may stand on that entry when a call
  takes it off the list, and follows its link.
\<close>

theorem search_race_crash:
  assumes "reachable (world h) s0 s" and "represents sh s" and "linked sh = a # as"
    and "node_at sh a = Some e" and "\<not> protects env e p i" and "p \<noteq> ''''"
  shows "race env \<lparr>path = Some p, ino_no = i\<rparr> (REFMON_SEARCH_CRIT_ABSOLUTE_PATH OR
      REFMON_SEARCH_CRIT_ABSOLUTE_INO OR REFMON_SEARCH_CRIT_SUBDIR_CHECK)
    sh [sh, list_del a sh] (list_del a sh) Crashed"
proof -
  have "e \<in> set (entries sh)" using assms(3,4) by (simp add: entries_def)
  then have "e \<in> set (registry (the_inst s))" using assms(2) by (simp add: represents_def)
  then have "wf_entry e" using safety.always [OF assms(1)] by (simp add: monitor_inv_def)
  then have "rejected env \<lparr>path = Some p, ino_no = i\<rparr> 28 sh a"
    using entry_matches_eligible [of e env p i] assms(4,5) by (simp add: rejected_def)
  moreover have "searchable \<lparr>path = Some p, ino_no = i\<rparr> 28"
    using assms(6) by (simp add: searchable_def)
  ultimately show ?thesis
    unfolding eligible_criteria
    using removal_crashes [of sh a as] assms(2,3) by (simp add: represents_def)
qed

theorem search_race_crash_witness:
  "\<exists>s. represents sample_list s \<and> race sample_env \<lparr>path = Some ''/g'', ino_no = 7\<rparr> 28
     sample_list [sample_list, list_del 0 sample_list] (list_del 0 sample_list) Crashed"
proof -
  obtain s where s: "sample_state REC_ON [sample_entry] True s" using sample_protecting ..
  then have r: "reachable (world sample_hash) sample_boot s" "represents sample_list s"
    using sample_reachable_in(1) sample_list by (simp_all add: sample_state_def represents_def)
  from search_race_crash [OF r _ _ sample_rejects, of 0 "[]"] r(2)
  show ?thesis by (auto simp: sample_list_def)
qed

section \<open>The calls and their specification\<close>

text \<open>
  C13. With a working kernel, every system call computes what its specification says of the state and
  the table of registered paths: the return value and the new abstract state, on every branch.
\<close>

theorem calls_refine_spec:
  assumes "reachable (\<lambda>env. world h env \<and> calm env) s0 s" and "world h env" and "calm env"
    and "step env s e (Returned r) s'" and "spec_call env e (abs_monitor s) = Some out"
  shows "out = (r, abs_monitor s')"
  using step_spec [OF assms(2,3) _ _ assms(4,5)] unique.always [OF assms(1)] by blast

theorem calls_refine_spec_witness:
  "\<exists>s :: ksys. spec_call sample_env (Reconf_add (Some ''/f'') (Some ''ciao''))
     \<lparr>sp_state = REC_ON, sp_table = Map.empty\<rparr> = Some (0, abs_monitor s) \<and>
     sp_table (abs_monitor s) ''/f'' = Some sample_entry"
proof -
  obtain s1 where s1: "sample_state REC_ON [] True s1" using sample_on ..
  then obtain s where st: "step sample_env s1 (Reconf_add (Some ''/f'') (Some ''ciao'')) (Returned 0) s"
    and s: "sample_state REC_ON [sample_entry] True s"
    using sample_register by blast
  have r: "reachable (\<lambda>env. world sample_hash env \<and> calm env) sample_boot s1"
    using s1 sample_reachable_in(2) by (simp add: sample_state_def)
  have a: "abs_monitor s1 = \<lparr>sp_state = REC_ON, sp_table = Map.empty\<rparr>"
    using s1 by (simp add: abs_monitor_def sample_state_def lookup_reg_Nil)
  obtain out where "spec_call sample_env (Reconf_add (Some ''/f'') (Some ''ciao'')) (abs_monitor s1) =
      Some out" by simp
  moreover from calls_refine_spec [OF r sample_world sample_calm st this]
  have "out = (0, abs_monitor s)" .
  moreover have "sp_table (abs_monitor s) ''/f'' = Some sample_entry"
    using s by (simp add: abs_monitor_def sample_state_def lookup_reg_def sample_entry_def)
  ultimately show ?thesis using a by auto
qed

text \<open>C14. With a working kernel, every call with a specification returns, with that outcome.\<close>

theorem calls_return:
  assumes "reachable (\<lambda>env. world h env \<and> calm env) s0 s" and "world h env" and "calm env"
    and "spec_call env e (abs_monitor s) = Some out"
  shows "\<exists>s'. step env s e (Returned (fst out)) s' \<and> abs_monitor s' = snd out"
  using step_total [OF assms(2,3) _ _ assms(4)] unique.always [OF assms(1)] by blast

theorem calls_return_witness:
  "\<exists>s s' out. step sample_env s (Reconf_rm (Some ''/f'') (Some ''ciao'')) (Returned (fst out)) s' \<and>
     registry (the_inst s) = [sample_entry]"
proof -
  obtain s where s: "sample_state REC_ON [sample_entry] True s" using sample_protecting ..
  then have r: "reachable (\<lambda>env. world sample_hash env \<and> calm env) sample_boot s"
    using sample_reachable_in(2) by (simp add: sample_state_def)
  obtain out where "spec_call sample_env (Reconf_rm (Some ''/f'') (Some ''ciao'')) (abs_monitor s) =
      Some out" by simp
  from calls_return [OF r sample_world sample_calm this] show ?thesis
    using s by (auto simp: sample_state_def)
qed

text \<open>
  C15. The probes implement the abstract monitor: a probed call is replaced by \<open>-EACCES\<close> and recorded
  exactly if the monitor is on and an entry of its table protects the path looked up for the
  call, and leaves the abstract state as it is; and the search of the registry's list, for whatever
  path and inode number, answers the question to the table.
\<close>

theorem decision_refines_spec:
  assumes "reachable (\<lambda>env. world h env \<and> calm env \<and> arming_ok env) s0 s"
    and "in_use < 15" and "no_oom env"
    and "dentry_path_raw env (hook_dentry (entry_handler (kretprobe_of p)) env regs) = Some raw"
    and "exe_dentry env = Some d" and "dentry_path_raw env d = Some exe"
  shows "(\<exists>s'. probed_call env p in_use regs rv s =
      Some (if spec_blocks (entry_handler (kretprobe_of p)) env (abs_monitor s) regs then minus_EACCES
            else rv, s') \<and>
      works s' = works s @
        (if spec_blocks (entry_handler (kretprobe_of p)) env (abs_monitor s) regs
         then [blocked_work env exe] else []) \<and>
      abs_monitor s' = abs_monitor s) \<and>
    (\<forall>q i. q \<noteq> '''' \<longrightarrow> is_eligible env (registry (the_inst s)) \<lparr>path = Some q, ino_no = i\<rparr> =
      Some (if spec_denies env (sp_table (abs_monitor s)) q i then 1 else 0))"
proof
  let ?h = "entry_handler (kretprobe_of p)"
  have "reachable (\<lambda>env. world h env \<and> calm env) s0 s" "reachable (\<lambda>env. world h env \<and> arming_ok env) s0 s"
    by (rule reachable_mono [OF assms(1)], simp)+
  then have inv: "monitor_inv h s" "reg_inv (registry (the_inst s))"
    and on: "probe_enabled s p \<longleftrightarrow> is_on (the_inst s)"
    using unique.always probes.always by blast+
  note wf = inv(1) [unfolded monitor_inv_def]
  have same: "abs_monitor (s\<lparr>mem := m\<rparr>) = abs_monitor s"
    "abs_monitor (s\<lparr>mem := m, works := ws\<rparr>) = abs_monitor s" for m ws
    by (simp_all add: abs_monitor_def)
  show "\<exists>s'. probed_call env p in_use regs rv s =
      Some (if spec_blocks ?h env (abs_monitor s) regs then minus_EACCES else rv, s') \<and>
      works s' = works s @ (if spec_blocks ?h env (abs_monitor s) regs then [blocked_work env exe] else []) \<and>
      abs_monitor s' = abs_monitor s"
  proof (cases "is_on (the_inst s)")
    case False
    then have "probed_call env p in_use regs rv s = Some (rv, s)"
      using on by (simp add: probed_call_def enter_call_def)
    then show ?thesis using False spec_blocks_abs [OF inv] by simp
  next
    case True
    obtain m where "probed_call env p in_use regs rv s =
        (if hook_denied ?h env (registry (the_inst s)) regs
         then Some (minus_EACCES, s\<lparr>mem := m, works := works s @ [blocked_work env exe]\<rparr>)
         else Some (rv, s\<lparr>mem := m\<rparr>))"
      using probed_call_exact [OF _ _ assms(2) _ assms(3-6), of s rv] True on wf by auto
    then show ?thesis using True spec_blocks_abs [OF inv] same by simp
  qed
  show "\<forall>q i. q \<noteq> '''' \<longrightarrow> is_eligible env (registry (the_inst s)) \<lparr>path = Some q, ino_no = i\<rparr> =
      Some (if spec_denies env (sp_table (abs_monitor s)) q i then 1 else 0)"
    using wf by (simp add: is_eligible_iff abs_monitor_def denies_spec [OF inv(2), symmetric] denies_def)
qed

theorem decision_refines_spec_witness:
  "\<exists>s s' :: ksys. spec_blocks Hook_open sample_env (abs_monitor s) sample_open \<and>
     probed_call sample_env krp_vfs_open 3 sample_open 5 s = Some (minus_EACCES, s') \<and>
     is_eligible sample_env (registry (the_inst s)) \<lparr>path = Some ''/g'', ino_no = 7\<rparr> = Some 0"
proof -
  obtain s where s: "sample_state REC_ON [sample_entry] True s" using sample_protecting ..
  then have "sample_reachable s" and reg: "registry (the_inst s) = [sample_entry]"
    by (simp_all add: sample_state_def)
  then have r: "reachable (\<lambda>env. world sample_hash env \<and> calm env \<and> arming_ok env) sample_boot s"
    by (auto intro: reachable_mono simp: sample_world sample_calm sample_arming)
  have raw: "dentry_path_raw sample_env
      (hook_dentry (entry_handler (kretprobe_of krp_vfs_open)) sample_env sample_open) = Some ''/f''"
    by (simp add: sample_open_def)
  have x: "exe_dentry sample_env = Some 20" "dentry_path_raw sample_env 20 = Some ''/bin/vi''" by simp_all
  note d = decision_refines_spec [OF r _ sample_no_oom raw x, of 3 5]
  have b: "spec_blocks Hook_open sample_env (abs_monitor s) sample_open"
    using spec_blocks_abs [OF sample_inv sample_unique] s sample_open_denied
    by (simp add: sample_state_def instance_tests)
  have "\<not> spec_denies sample_env (sp_table (abs_monitor s)) ''/g'' 7"
    using sample_rejects by (auto simp: spec_denies_def abs_monitor_def reg dest!: lookup_reg_Some(1))
  then show ?thesis using d b by auto
qed

text \<open>C16. With a working kernel no two entries of the registry have the same registered path.\<close>

theorem registered_paths_unique:
  assumes "reachable (\<lambda>env. world h env \<and> calm env) s0 s"
  shows "distinct (map (\<lambda>e. path (registered e)) (registry (the_inst s)))"
proof -
  have *: "wf_entries (registry (the_inst s))" "distinct (map entry_key (registry (the_inst s)))"
    using unique.always [OF assms] by (auto simp: reg_inv_def)
  have "inj_on (\<lambda>e. path (registered e)) (set (registry (the_inst s)))"
    using * by (auto simp: distinct_map inj_on_def entry_key_def)
  then show ?thesis using *(2) by (simp add: distinct_map)
qed

theorem registered_paths_unique_witness:
  "\<exists>s :: ksys. registry (the_inst s) = [sample_entry] \<and>
     distinct (map (\<lambda>e. path (registered e)) (registry (the_inst s)))"
proof -
  obtain s where s: "sample_state REC_ON [sample_entry] True s" using sample_protecting ..
  then have "reachable (\<lambda>env. world sample_hash env \<and> calm env) sample_boot s"
    using sample_reachable_in(2) by (simp add: sample_state_def)
  from registered_paths_unique [OF this] s show ?thesis by (auto simp: sample_state_def)
qed

text \<open>
  C17. When kprobes arm and disarm as asked, every probe is enabled exactly while the state is
  \<open>ON\<close> or \<open>REC-ON\<close>.
\<close>

theorem probes_follow_state:
  assumes "reachable (\<lambda>env. world h env \<and> arming_ok env) s0 s"
  shows "probe_enabled s p \<longleftrightarrow> state (the_inst s) \<in> {ON, REC_ON}"
proof -
  have "monitor_inv h s" "probe_enabled s p \<longleftrightarrow> is_on (the_inst s)"
    using probes.always [OF assms] by auto
  then show ?thesis using is_on_iff by (simp add: monitor_inv_def)
qed

theorem probes_follow_state_witness:
  "\<exists>s :: ksys. state (the_inst s) = OFF \<and> \<not> probe_enabled s krp_vfs_unlink"
proof -
  obtain s where s: "sample_state OFF [] False s" using sample_start ..
  then have "reachable (\<lambda>env. world sample_hash env \<and> arming_ok env) sample_boot s"
    using sample_reachable_in(3) by (simp add: sample_state_def)
  from probes_follow_state [OF this, of krp_vfs_unlink] s show ?thesis
    by (intro exI [of _ s]) (simp add: sample_state_def)
qed


section \<open>Loading and unloading\<close>

text \<open>
  C18. Loading, any run of the module, and unloading: the system call table (with the memory around
  it), the write protection and the files under \<open>/proc\<close> are as before the load, and no probe is
  left.
\<close>

theorem load_run_unload:
  assumes "reachable (world h) s0 s" and "the_syscall_table env \<noteq> 0"
  shows "\<exists>u. cleanup_module env s = Some u \<and> sct u = sct s0 \<and> hw_cr0 u = hw_cr0 s0 \<and>
    proc_files u = proc_files s0 \<and> (\<forall>p. \<not> probe_registered u p \<and> \<not> probe_enabled u p)"
proof -
  obtain env0 slots ni m where "just_loaded s0" "unused_slots s0 slots"
    "\<And>k. k \<in> set slots \<Longrightarrow> sct s0 k = ni" "same_install (ready_state env0 slots ni m s0) s"
    using install.always [OF assms(1)] unfolding installed_in_def by blast
  from load_unload [OF this assms(2)] show ?thesis by fastforce
qed

theorem load_run_unload_witness:
  "\<exists>s u. registry (the_inst s) = [sample_entry] \<and> cleanup_module sample_env s = Some u \<and>
     sct u = sct sample_boot \<and> proc_files u = [''cpuinfo'']"
proof -
  obtain s where s: "sample_state REC_ON [sample_entry] True s" using sample_protecting ..
  then have "reachable (world sample_hash) sample_boot s"
    using sample_reachable_in(1) by (simp add: sample_state_def)
  from load_run_unload [OF this, of sample_env] obtain u where
    "cleanup_module sample_env s = Some u" "sct u = sct sample_boot"
    "proc_files u = proc_files sample_boot" by auto
  then have "registry (the_inst s) = [sample_entry] \<and> cleanup_module sample_env s = Some u \<and>
     sct u = sct sample_boot \<and> proc_files u = [''cpuinfo'']"
    using s by (simp add: sample_state_def sample_boot_def)
  then show ?thesis by blast
qed

text \<open>
  C19. A load that returns 0 has installed everything: an empty registry in state \<open>OFF\<close>, the hashed
  password, four unused entries of the table with the four calls, the files, and all probes
  registered and disabled. One that returns an error has left nothing behind, except that it may
  have overwritten the word in front of the table.
\<close>

theorem init_module_outcome:
  assumes "init_module env s = Some (ret, s')" and "just_loaded s"
    and "kprobes_ok env" and "\<And>x. length (sha256 env x) = 32"
  shows "ret = 0 \<and> (\<exists>slots ni m. unused_slots s slots \<and> (\<forall>k\<in>set slots. sct s k = ni) \<and>
      s' = ready_state env slots ni m s) \<or>
    ret \<noteq> 0 \<and> (\<forall>k. k \<noteq> - 1 \<longrightarrow> sct s' k = sct s k) \<and> hw_cr0 s' = hw_cr0 s \<and>
      proc_files s' = proc_files s \<and> probe_registered s' = (\<lambda>_. False)"
  using assms
proof (cases rule: init_module_cases)
  case (ready slots ni m)
  then show ?thesis by blast
next
  case aborted
  then show ?thesis by (simp add: unloaded_def)
qed

theorem init_module_outcome_witness:
  "\<exists>s' slots ni m. init_module sample_env sample_boot = Some (0, s') \<and> unused_slots sample_boot slots \<and>
     s' = ready_state sample_env slots ni m sample_boot"
proof -
  obtain s' where s': "init_module sample_env sample_boot = Some (0, s')" using sample_loads ..
  have "kprobes_ok sample_env" "\<And>x. length (sha256 sample_env x) = 32"
    by (simp_all add: kprobes_ok_def)
  from init_module_outcome [OF s' sample_just_loaded this] show ?thesis using s' by auto
qed

text \<open>
  C20. With memory, crypto, free names under \<open>/proc\<close>, probes that register, and four entries of the
  table that share the first repeated address, loading succeeds.
\<close>

theorem init_module_loads:
  assumes "no_oom env" and "crypto_ok env" and "\<And>f. proc_create_ok env f"
    and "\<And>p. register_ret env p = 0" and "the_syscall_table env \<noteq> 0"
    and "first_shared (\<lambda>i. sct s (int i)) = Some i"
    and "4 \<le> length (sharing (\<lambda>i. sct s (int i)) i)"
  shows "\<exists>s'. init_module env s = Some (0, s')"
  by (rule init_module_ok) (use assms in auto)

theorem init_module_loads_witness: "\<exists>s'. init_module sample_env sample_boot = Some (0, s')"
proof (rule init_module_loads [OF sample_no_oom sample_crypto])
  show "first_shared (\<lambda>i. sct sample_boot (int i)) = Some 0"
    by (simp add: sample_boot_def first_shared_const)
  show "4 \<le> length (sharing (\<lambda>i. sct sample_boot (int i)) 0)"
    by (simp add: sample_boot_def sharing_const)
qed simp_all

text \<open>
  A load without the address of the system call table never returns an error: its cleanup
  writes to address 0.
\<close>

theorem no_table_crash:
  assumes "the_syscall_table env = 0" and "just_loaded s" and "kprobes_ok env"
    and "\<And>x. length (sha256 env x) = 32"
  shows "init_module env s = None"
  by (rule init_module_no_table) (use assms in auto)

theorem no_table_crash_witness:
  "init_module (sample_env\<lparr>the_syscall_table := 0\<rparr>) sample_boot = None"
  by (rule no_table_crash) (simp_all add: sample_just_loaded kprobes_ok_def)

text \<open>
  C21. What an installation does to the table: each printed number is an entry that shared its
  address with others and now holds its call; no other entry changed, and the protection is back.
\<close>

theorem calls_in_table:
  assumes "init_syscalls env s = Some (0, s')" and "length (restore s) = 4"
  shows "sct s' (sc_code_set_state (syscall_codes s')) = sc_addr_set_state env \<and>
    sct s' (sc_code_reconf_add (syscall_codes s')) = sc_addr_reconf_add env \<and>
    sct s' (sc_code_reconf_rm (syscall_codes s')) = sc_addr_reconf_rm env \<and>
    sct s' (sc_code_flush (syscall_codes s')) = sc_addr_flush env \<and>
    (\<forall>k. sct s' k = sct s k \<or> k \<in> set (restore s') \<and> 0 \<le> k \<and> k < 256 \<and>
       sct s k = the_ni_syscall s') \<and>
    hw_cr0 s' = hw_cr0 s"
  using assms
proof (cases rule: init_syscalls_cases)
  case (installed slots ni)
  note table = installed_state_table [OF installed(3,5)]
  have "restore s' = slots" "the_ni_syscall s' = ni"
    using installed(5) by (simp_all add: installed_state_def)
  then show ?thesis
    using table installed(3,4) by (auto simp: unused_slots_def)
qed simp_all

theorem calls_in_table_witness:
  "\<exists>s'. init_syscalls sample_env sample_boot = Some (0, s') \<and>
     sct s' (sc_code_flush (syscall_codes s')) = 104"
proof -
  have *: "first_shared (\<lambda>i. sct sample_boot (int i)) = Some 0"
    "4 \<le> length (sharing (\<lambda>i. sct sample_boot (int i)) 0)"
    by (simp_all add: sample_boot_def first_shared_const sharing_const)
  obtain s' where s': "init_syscalls sample_env sample_boot = Some (0, s')"
    using init_syscalls_ok [OF _ *, of sample_env] by auto
  have "length (restore sample_boot) = 4" by (simp add: sample_boot_def)
  from calls_in_table [OF s' this] s' show ?thesis by (auto simp: sample_env_def)
qed

text \<open>
  C22. The search for unused entries: it returns the number of entries asked for, and then they are
  increasing, distinct, inside the table, and all hold the address it reports, which is repeated; or
  it returns -1 and writes nothing.
\<close>

theorem get_entries_correct:
  assumes "get_entries entry_ids num_acquires p ni = (ret, ids, addr)"
    and "length entry_ids = nat num_acquires"
  shows "ret = - 1 \<and> ids = entry_ids \<and> addr = ni \<or>
    ret = num_acquires \<and> length ids = nat num_acquires \<and> sorted ids \<and> distinct ids \<and>
    (\<forall>k\<in>set ids. 0 \<le> k \<and> k < 256 \<and> p (nat k) = addr) \<and>
    (\<exists>i<256. \<exists>j<256. i \<noteq> j \<and> p i = addr \<and> p j = addr)"
proof (cases "ret = - 1")
  case True
  then have "ids = entry_ids \<and> addr = ni"
    using assms(1) by (auto simp: get_entries_def Let_def split: if_splits option.splits)
  with True show ?thesis by simp
next
  case False
  from assms(1) False assms(2) show ?thesis
    by (rule get_entries_success) (auto simp: sorted_map distinct_map)
qed

theorem get_entries_correct_witness:
  "get_entries [0, 0] 2 (\<lambda>_. 77) 0 = (2, [0, 1], 77) \<and> sorted [0, 1 :: int]"
proof -
  have g: "get_entries [0, 0] 2 (\<lambda>_. 77) 0 = (2, [0, 1], 77)"
    by (simp add: get_entries_eq first_shared_const sharing_const)
  from get_entries_correct [OF this] g show ?thesis by simp
qed


section \<open>Checks and handlers\<close>

text \<open>
  C23. The checks of the reconfiguring calls, when memory and crypto do not fail, as a table: root
  first, then the state, then an empty password, then a wrong one.
\<close>

theorem safety_checks_decide:
  assumes "no_oom env" and "crypto_ok env" and "user_ok env" and "password r = Some stored"
  shows "\<exists>m'. safety_checks env
      (REFMON_SAFETY_CHECK_ROOT OR REFMON_SAFETY_CHECK_RECONF OR REFMON_SAFETY_CHECK_PASSWORD)
      (Some w) r m =
    Some (if euid env \<noteq> 0 then - EACCES
          else if state r \<notin> {REC_OFF, REC_ON} then - EPERM
          else if w = '''' then - EINVAL
          else if stored \<noteq> hex_string (sha256 env w) then - EACCES
          else 0, m')"
proof -
  have v: "(if euid env \<noteq> 0 then - EACCES
      else if state r \<notin> {REC_OFF, REC_ON} then - EPERM
      else if w = '''' then - EINVAL
      else if stored \<noteq> hex_string (sha256 env w) then - EACCES else 0) = safety_verdict env w r"
    using assms(4) by (simp add: safety_verdict_def is_reconf_def digest_of_def)
  show ?thesis unfolding v by (rule safety_checks_verdict [OF assms(1-3)]) (simp add: assms(4))
qed

theorem safety_checks_decide_witness:
  "\<exists>m'. safety_checks sample_env 7 (Some ''ciao'')
     \<lparr>state = REC_ON, registry = [], password = Some (hex_string (sample_hash ''pippo'')),
      spinlock_inst = True, spinlock_probing = False\<rparr> (mem sample_boot) = Some (- EACCES, m')"
proof -
  have "user_ok sample_env" using sample_calm by (simp add: calm_def)
  from safety_checks_decide [OF sample_no_oom sample_crypto this,
      of "\<lparr>state = REC_ON, registry = [], password = Some (hex_string (sample_hash ''pippo'')),
        spinlock_inst = True, spinlock_probing = False\<rparr>" "hex_string (sample_hash ''pippo'')"
        "''ciao''" "mem sample_boot"]
  show ?thesis by (simp add: sample_hash_def)
qed

text \<open>
  Whatever fails, the checks only pass for root, in a reconfigurable state, with a password
  whose digest is the stored one.
\<close>

theorem safety_checks_pass:
  assumes "safety_checks env
      (REFMON_SAFETY_CHECK_ROOT OR REFMON_SAFETY_CHECK_RECONF OR REFMON_SAFETY_CHECK_PASSWORD)
      arg r m = Some (0, m')"
    and "\<And>x. length (sha256 env x) = 32"
  shows "euid env = 0 \<and> state r \<in> {REC_OFF, REC_ON} \<and>
    (\<exists>input pw. arg = Some input \<and> copy_from_user env input = Some pw \<and>
       password r = Some (hex_string (sha256 env pw)))"
  using safety_checks_granted [OF assms] by (auto simp: is_reconf_def digest_of_def)

theorem safety_checks_pass_witness:
  "\<exists>r m'. safety_checks sample_env 7 (Some ''ciao'') r (mem sample_boot) = Some (0, m') \<and>
     state r \<in> {REC_OFF, REC_ON} \<and> euid sample_env = 0"
proof -
  let ?r = "\<lparr>state = REC_ON, registry = [], password = Some (digest_of sample_env ''ciao''),
      spinlock_inst = True, spinlock_probing = False\<rparr>"
  have "user_ok sample_env" using sample_calm by (simp add: calm_def)
  then obtain m' where c: "safety_checks sample_env RECONF_CHECKS (Some ''ciao'') ?r (mem sample_boot) =
      Some (0, m')"
    using safety_checks_verdict [OF sample_no_oom sample_crypto, of ?r "''ciao''" "mem sample_boot"]
    by (auto simp: safety_verdict_def is_reconf_def)
  from safety_checks_pass [OF c] have "state ?r \<in> {REC_OFF, REC_ON} \<and> euid sample_env = 0" by simp
  then show ?thesis using c by (intro exI [of _ ?r] exI [of _ m']) simp
qed

text \<open>
  C24. \<open>set_state\<close> on every branch: refused to anyone but root, a crash on NULL, an error on a string
  that names no state; otherwise the state is set and each registered probe switched as far as the
  kernel arms it. The return value does not depend on that.
\<close>

theorem set_state_function:
  assumes "\<not> spinlock_inst (the_inst s)"
  shows "do_set_state env new_state s =
    (if euid env \<noteq> 0 then Some (- EACCES, s)
     else case new_state of
       None \<Rightarrow> None
     | Some str \<Rightarrow>
         (case read_state str of
            None \<Rightarrow> Some (- EINVAL, s)
          | Some st \<Rightarrow> Some (0, s\<lparr>the_inst := (the_inst s)\<lparr>state := st\<rparr>,
              probe_enabled := (\<lambda>p.
                if probe_registered s p \<and>
                   (if st \<in> {ON, REC_ON} then enable_ret env p = 0 else disable_ret env p = 0)
                then st \<in> {ON, REC_ON} else probe_enabled s p)\<rparr>)))"
proof -
  have "probes_after env (is_on ((the_inst s)\<lparr>state := st\<rparr>)) s = (\<lambda>p.
      if probe_registered s p \<and>
         (if st \<in> {ON, REC_ON} then enable_ret env p = 0 else disable_ret env p = 0)
      then st \<in> {ON, REC_ON} else probe_enabled s p)" if "read_state str = Some st" for str st
    using is_on_iff [of "(the_inst s)\<lparr>state := st\<rparr>"] read_state_enumerator [OF that]
    by (auto simp: probes_after_def fun_eq_iff)
  then show ?thesis
    unfolding do_set_state_eq [OF assms] by (simp split: option.split)
qed

theorem set_state_function_witness:
  "do_set_state sample_env (Some ''ON'') sample_boot =
     Some (0, sample_boot\<lparr>the_inst := (the_inst sample_boot)\<lparr>state := ON\<rparr>\<rparr>)"
proof -
  have "\<not> spinlock_inst (the_inst sample_boot)" by (simp add: sample_boot_def)
  from set_state_function [OF this, of sample_env "Some ''ON''"] show ?thesis
    by (simp add: read_state_def is_state_valid_def) (simp add: sample_boot_def)
qed

text \<open>
  C25. A system call that returns an error has changed neither the state, nor the registry, nor a
  probe, nor the password.
\<close>

theorem failed_call_changes_nothing:
  assumes "reachable (world h) s0 s" and "step env s e (Returned r) s'" and "r \<noteq> 0"
  shows "state (the_inst s') = state (the_inst s) \<and> registry (the_inst s') = registry (the_inst s) \<and>
    probe_enabled s' = probe_enabled s \<and> password (the_inst s') = password (the_inst s)"
proof -
  have wf: "wf_entries (registry (the_inst s))"
    using safety.always [OF assms(1)] by (simp add: monitor_inv_def)
  have pw: "password (the_inst s') = password (the_inst s)" by (rule step_frame(3) [OF assms(2) wf])
  from assms(2) show ?thesis
  proof cases
    case (set_state u)
    then have "s' = s" using set_state_cases assms(3) by blast
    then show ?thesis by simp
  next
    case (reconf_add u w)
    note call = reconf_add(2) [unfolded sys_calls]
    show ?thesis
      using reg_frame_fields [OF call_frames(1) [OF call]] reconf_add.call_error [OF call assms(3)]
      by simp
  next
    case (reconf_rm u w)
    note call = reconf_rm(2) [unfolded sys_calls]
    show ?thesis
      using reg_frame_fields [OF call_frames(2) [OF call]] reconf_rm.call_error [OF call assms(3)]
      by simp
  next
    case (flush w)
    note call = flush(2) [unfolded sys_calls]
    show ?thesis
      using reg_frame_fields [OF call_frames(3) [OF call]] reconf_flush.call_error [OF call assms(3)]
      by simp
  qed
qed

theorem failed_call_changes_nothing_witness:
  "\<exists>s s' :: ksys. step sample_env s (Set_state (Some ''BOH'')) (Returned (- EINVAL)) s' \<and>
     state (the_inst s') = REC_ON"
proof -
  obtain s where s: "sample_state REC_ON [] True s" using sample_on ..
  then have r: "reachable (world sample_hash) sample_boot s" "sample_reachable s"
    using sample_reachable_in(1) by (simp_all add: sample_state_def)
  have "\<not> spinlock_inst (the_inst s)" using sample_inv [OF r(2)] by (simp add: monitor_inv_def)
  then have st: "step sample_env s (Set_state (Some ''BOH'')) (Returned (- EINVAL)) s"
    by (intro step.set_state) (simp add: sys_calls do_set_state_eq read_state_def is_state_valid_def)
  have "state (the_inst s) = REC_ON"
    using failed_call_changes_nothing [OF r(1) st] s by (simp add: sample_state_def)
  with st show ?thesis by blast
qed

text \<open>
  C26. A path that was added can be removed with the same string, and the table of registered paths
  is then the one before.
\<close>

theorem add_then_remove:
  assumes "reachable (\<lambda>env. world h env \<and> calm env) s0 s" and "world h env" and "calm env"
    and "step env s (Reconf_add (Some p) (Some w)) (Returned 0) s1"
    and "step env s1 (Reconf_rm (Some p) (Some w)) (Returned r) s2"
  shows "r = 0 \<and> lookup_reg (registry (the_inst s2)) = lookup_reg (registry (the_inst s))"
proof -
  note inv = unique.always [OF assms(1)]
  have inv1: "monitor_inv h s1 \<and> reg_inv (registry (the_inst s1))"
    using unique.step assms(2,3,4) inv by blast
  define t where "t = sp_table (abs_monitor s)"
  have a: "spec_guarded env w (if p = '''' then (- EINVAL, t) else spec_add env p t) (abs_monitor s) =
      (0, abs_monitor s1)"
    using step_spec [OF assms(2,3) _ _ assms(4) spec_call.simps(2)] inv unfolding t_def by blast
  then have v: "spec_verdict env w (abs_monitor s) = 0" "p \<noteq> ''''"
    by (auto simp: spec_guarded_def split: if_splits)
  with a have s1: "fst (spec_add env p t) = 0"
    "abs_monitor s1 = (abs_monitor s)\<lparr>sp_table := snd (spec_add env p t)\<rparr>"
    by (auto simp: spec_guarded_def)
  then obtain rp e where rp: "resolve_path env (Some p) 2 = Some rp" "rp \<notin> dom t"
    "snd (spec_add env p t) = t(rp \<mapsto> e)"
    by (auto simp: spec_add_def split: option.splits if_splits)
  have "spec_verdict env w ((abs_monitor s)\<lparr>sp_table := u\<rparr>) = spec_verdict env w (abs_monitor s)" for u
    by (simp add: spec_verdict_def)
  then have "spec_verdict env w (abs_monitor s1) = 0" using v(1) s1(2) by simp
  moreover have "spec_rm env p (t(rp \<mapsto> e)) = (0, t)"
    using rp by (auto simp: spec_rm_def domIff)
  moreover have "spec_guarded env w (spec_rm env p (sp_table (abs_monitor s1))) (abs_monitor s1) =
      (r, abs_monitor s2)"
    using step_spec [OF assms(2,3) _ _ assms(5)] inv1 v(2) by simp
  ultimately have "r = 0" and "abs_monitor s2 = (abs_monitor s)\<lparr>sp_table := t\<rparr>"
    using s1(2) rp(3) by (auto simp: spec_guarded_def)
  then have "sp_table (abs_monitor s2) = t" by simp
  with \<open>r = 0\<close> show ?thesis by (simp add: abs_monitor_def t_def)
qed

theorem add_then_remove_witness:
  "\<exists>s1 s2. step sample_env s1 (Reconf_rm (Some ''/f'') (Some ''ciao'')) (Returned 0) s2 \<and>
     registry (the_inst s1) = [sample_entry] \<and> lookup_reg (registry (the_inst s2)) = Map.empty"
proof -
  obtain s where s: "sample_state REC_ON [] True s" using sample_on ..
  then have r: "reachable (\<lambda>env. world sample_hash env \<and> calm env) sample_boot s"
    using sample_reachable_in(2) by (simp add: sample_state_def)
  obtain s1 where st: "step sample_env s (Reconf_add (Some ''/f'') (Some ''ciao'')) (Returned 0) s1"
    and s1: "sample_state REC_ON [sample_entry] True s1"
    using sample_register [OF s] by blast
  have "sample_reachable s1" using s1 by (simp add: sample_state_def)
  note inv = sample_inv [OF this] sample_unique [OF this]
  obtain out where "spec_call sample_env (Reconf_rm (Some ''/f'') (Some ''ciao'')) (abs_monitor s1) =
      Some out" by simp
  then obtain s2 where
    "step sample_env s1 (Reconf_rm (Some ''/f'') (Some ''ciao'')) (Returned (fst out)) s2"
    using step_total [OF sample_world sample_calm inv] by blast
  with add_then_remove [OF r sample_world sample_calm st this] s s1 show ?thesis
    by (auto simp: sample_state_def lookup_reg_Nil)
qed

section \<open>The log\<close>

text \<open>
  C27. Accountability: in every run of the module, each scheduled work and each line written to the
  log go back to a call of a probed function that was blocked in the run, with the program and the
  identifiers of its caller; a line has at most 515 bytes.
\<close>

theorem log_accountable:
  assumes "run (world h) s0 tr s"
  shows "(\<forall>w\<in>set (works s). blocked_in tr w) \<and>
    (\<exists>xs. log_file s = log_file s0 @ xs \<and> (\<forall>x\<in>set xs. logged_in tr x \<and> length x \<le> 515))"
  by (rule run_audit [OF assms])

theorem log_accountable_witness:
  "\<exists>tr (s :: ksys) x. log_file s = log_file sample_boot @ [x] \<and> logged_in tr x \<and> length x \<le> 515"
proof -
  obtain tr s x where r: "run (world sample_hash) sample_boot tr s" "log_file s = [x]"
    "log_file sample_boot = []" using sample_run by blast
  from log_accountable [OF r(1)] r(2,3) have "logged_in tr x \<and> length x \<le> 515" by auto
  then show ?thesis using r by auto
qed

text \<open>
  C28. The log on the disk: the file system is made and mounted, the log looked up in it, and the
  lines of a run are appended. Reading the file to its end gives the first line the maker wrote and
  then the lines of the run, each whole and in order, with NULs only in front of a line that was
  moved to a new block. The device has to have room for twice the lines.
\<close>

theorem log_on_disk:
  assumes "run (world h) s0 tr s" and "log_file s0 = []"
    and "mkfs_ok menv" and "dev_pos d = 0" and "set (bytes d) \<subseteq> {NUL}"
    and "mount_ok env" and "\<And>k. uncopied env k = 0"
    and "fits env (31 + 2 * length (concat (log_file s)))"
    and "f_inode f = 1" and "0 < len" and "len \<le> 2 ^ 32"
  shows "\<exists>fs fs' ks. open_log env (image_block (bytes (snd (mkfs_main menv 2 d)))) = Some fs \<and>
    put_all (append_record env f) (log_file s) fs = Some fs' \<and> length ks = length (log_file s) \<and>
    read_all env f (int len) 0 fs' =
      Some (file_body @ concat (map2 (\<lambda>k x. replicate k NUL @ x) ks (log_file s)))"
proof -
  obtain ret d' where m: "mkfs_main menv 2 d = (ret, d')" by force
  note made = mkfs_made [OF assms(3-5) m]
  have "\<forall>x\<in>set (log_file s). length x \<le> 4096" using run_audit [OF assms(1)] assms(2) by fastforce
  from log_on_device [OF _ _ assms(6-8) this assms(9-11), of "image_block (bytes d')"] made
  show ?thesis unfolding m snd_conv by blast
qed

theorem log_on_disk_witness:
  "\<exists>x fs fs' k. open_log sample_fsenv sample_disk = Some fs \<and>
     append_record sample_fsenv sample_file x fs = Some fs' \<and>
     read_all sample_fsenv sample_file 100 0 fs' = Some (file_body @ replicate k NUL @ x)"
proof -
  obtain tr s x where r: "run (world sample_hash) sample_boot tr s" "log_file s = [x]"
    "log_file sample_boot = []" "length x \<le> 515" using sample_run by auto
  have "fits sample_fsenv (31 + 2 * length (concat (log_file s)))"
    by (rule sample_fits) (use r in simp)
  from log_on_disk [OF r(1,3) sample_mkfs_ok sample_dev sample_mount _ this, of sample_file 100]
  obtain fs fs' ks where "open_log sample_fsenv sample_disk = Some fs"
    "put_all (append_record sample_fsenv sample_file) [x] fs = Some fs'" "length ks = 1"
    "read_all sample_fsenv sample_file 100 0 fs' =
       Some (file_body @ concat (map2 (\<lambda>k x. replicate k NUL @ x) ks [x]))"
    using r(2) by (auto simp: sample_disk_def)
  moreover obtain k where "ks = [k]" using \<open>length ks = 1\<close> by (cases ks) auto
  ultimately show ?thesis by (auto simp: bind_eq_Some_conv)
qed

text \<open>
  C29. The log does not survive an unmount: the size of the file is only changed in memory, so after
  mounting the device again a reader finds the maker's first line and nothing else.
\<close>

theorem log_lost_on_remount:
  assumes "made dev" and "\<forall>k\<ge>31. file_byte dev k = NUL" and "mount_ok env"
    and "\<And>k. uncopied env k = 0" and "fits env (31 + 2 * length (concat xs))"
    and "\<forall>x\<in>set xs. length x \<le> 4096" and "f_inode f = 1" and "0 < len" and "len \<le> 2 ^ 32"
  shows "\<exists>fs fs' fs2. open_log env dev = Some fs \<and> put_all (append_record env f) xs fs = Some fs' \<and>
    open_log env (device fs') = Some fs2 \<and> read_all env f (int len) 0 fs2 = Some file_body"
proof -
  obtain fs fs' where fs: "open_log env dev = Some fs" "put_all (append_record env f) xs fs = Some fs'"
    and made: "made (device fs')"
    using log_on_device [OF assms] by blast
  obtain fs2 where fs2: "open_log env (device fs') = Some fs2" "device fs2 = device fs'"
    "\<not> refmonfs_mutex fs2" "file_text 1 fs2 = file_body"
    "icache fs2 1 = Some \<lparr>i_size = 31, i_mode = S_IFREG + REFMONFS_PERMISSIONS, i_new = False\<rparr>"
    using open_log_made [OF made assms(3)] by blast
  have "fits env 31" by (rule fits_mono [OF assms(5)]) simp
  moreover have "wf_device (device fs2)" using fs2(2) made by (simp add: made_def)
  ultimately have "read_all env f (int len) (int 0) fs2 = Some (file_bytes (device fs2) 0 31)"
    by (intro read_all_from [where ino = "\<lparr>i_size = 31, i_mode = S_IFREG + REFMONFS_PERMISSIONS, i_new = False\<rparr>"]) (use fs2 assms in simp_all)
  then show ?thesis using fs fs2 by (auto simp: file_text_def)
qed

theorem log_lost_on_remount_witness:
  "\<exists>fs fs' fs2. open_log sample_fsenv sample_disk = Some fs \<and>
     put_all (append_record sample_fsenv sample_file) [''a line''] fs = Some fs' \<and>
     open_log sample_fsenv (device fs') = Some fs2 \<and>
     read_all sample_fsenv sample_file 64 0 fs2 = Some file_body"
proof -
  have "fits sample_fsenv (31 + 2 * length (concat [''a line'']))" by (rule sample_fits) simp
  from log_lost_on_remount [OF sample_made sample_mount _ this, of sample_file 64] show ?thesis
    by simp
qed

text \<open>
  C30. One read of the log's file: nothing at or after the end of the file, otherwise the bytes of the
  file from the offset on, cut at the end of the file and of the block, as far as they could be
  copied; the offset advances by as many.
\<close>

theorem read_function:
  assumes "icache s (f_inode f) = Some ino" and "i_size ino = int n" and "\<not> refmonfs_mutex s"
    and "wf_device (device s)" and "fits env n" and "off + len < 2 ^ 64"
    and "\<And>k. uncopied env k \<le> nat k"
  shows "onefilefs_read env (Some f) (int len) (int off) s =
    Some (if n \<le> off then (0, [], int off, s)
          else let k = min (min len (n - off)) (4096 - off mod 4096); c = k - uncopied env (int k) in
            (int c, take c (drop off (file_text (f_inode f) s)), int (off + c), s))"
proof -
  have "take c (drop off (file_text (f_inode f) s)) = file_bytes (device s) off (off + c)"
    if "off < n" "c \<le> n - off" for c
  proof -
    have "file_text (f_inode f) s = file_bytes (device s) 0 off @ file_bytes (device s) off n"
      using assms(1,2) file_bytes_append [of 0 off n "device s"] that(1) by (simp add: file_text_def)
    moreover have "min n (off + c) = off + c" using that by simp
    ultimately show ?thesis by (simp add: file_bytes_take)
  qed
  moreover have "min (min len (n - off)) k - u \<le> n - off" for k u by simp
  ultimately show ?thesis
    unfolding onefilefs_read_ok [OF assms] read_len_def Let_def by (cases "n \<le> off") simp_all
qed

theorem read_function_witness:
  "\<exists>s. onefilefs_read sample_fsenv (Some sample_file) 4 5 s = Some (4, ''tid'' @ [CHR 0x09], 9, s)"
proof -
  obtain s where s: "file_text 1 s = file_body" "device s = sample_disk" "\<not> refmonfs_mutex s"
    "icache s 1 = Some \<lparr>i_size = 31, i_mode = S_IFREG + REFMONFS_PERMISSIONS, i_new = False\<rparr>"
    using sample_mounted by blast
  have "wf_device (device s)" using s(2) sample_made(1) by (simp add: made_def)
  moreover have "fits sample_fsenv 31" by (rule sample_fits) simp
  ultimately have "onefilefs_read sample_fsenv (Some sample_file) (int 4) (int 5) s =
    Some (if 31 \<le> (5 :: nat) then (0, [], int 5, s)
          else let k = min (min 4 (31 - 5)) (4096 - 5 mod 4096); c = k - uncopied sample_fsenv (int k) in
            (int c, take c (drop 5 (file_text (f_inode sample_file) s)), int (5 + c), s))"
    by (intro read_function [where ino = "\<lparr>i_size = 31, i_mode = S_IFREG + REFMONFS_PERMISSIONS, i_new = False\<rparr>"]) (use s in simp_all)
  then show ?thesis using s(1) by (intro exI [of _ s]) (simp add: file_body_def)
qed

text \<open>
  C31. A reader that asks for any positive number of bytes again and again comes to the end of the
  file, and has then read it all.
\<close>

theorem read_whole_file:
  assumes "icache s (f_inode f) = Some ino" and "i_size ino = int n" and "\<not> refmonfs_mutex s"
    and "wf_device (device s)" and "fits env n" and "\<And>k. uncopied env k = 0"
    and "0 < len" and "len \<le> 2 ^ 32"
  shows "read_all env f (int len) 0 s = Some (file_text (f_inode f) s)"
  using read_all_from [OF assms, of 0] assms(1,2) by (simp add: file_text_def)

theorem read_whole_file_witness:
  "\<exists>s. read_all sample_fsenv sample_file 7 0 s = Some file_body"
proof -
  obtain s where s: "file_text 1 s = file_body" "device s = sample_disk" "\<not> refmonfs_mutex s"
    "icache s 1 = Some \<lparr>i_size = 31, i_mode = S_IFREG + REFMONFS_PERMISSIONS, i_new = False\<rparr>"
    using sample_mounted by blast
  have "wf_device (device s)" using s(2) sample_made(1) by (simp add: made_def)
  moreover have "fits sample_fsenv 31" by (rule sample_fits) simp
  ultimately have "read_all sample_fsenv sample_file (int 7) 0 s = Some (file_text (f_inode sample_file) s)"
    by (intro read_whole_file [where ino = "\<lparr>i_size = 31, i_mode = S_IFREG + REFMONFS_PERMISSIONS, i_new = False\<rparr>"]) (use s in simp_all)
  then show ?thesis using s(1) by auto
qed


text \<open>
  C32. One write to the log's file: the bytes go to the end of the file, or to the start of the next
  block if the rest of the block is not larger than they are, so that they lie in one block; what
  was there between the old end and that place becomes part of the file. No other block changes.
  The value returned is that of a variable the code does not set.
\<close>

theorem write_function:
  assumes "icache s (f_inode f) = Some ino" and "i_size ino = int n" and "\<not> refmonfs_mutex s"
    and "wf_device (device s)" and "length x \<le> 4096" and "fits env (n + 2 * length x)"
  shows "\<exists>f' s' off. onefilefs_write_async env (Some f) \<lparr>iov_base = x, iov_len = int (length x)\<rparr> s =
      Some (out_size env, f', s') \<and>
    off = (if 4096 - n mod 4096 \<le> length x then n + (4096 - n mod 4096) else n) \<and>
    f_pos f' = int off \<and> off mod 4096 + length x \<le> 4096 \<and>
    file_text (f_inode f) s' = file_text (f_inode f) s @ file_bytes (device s) n off @ x \<and>
    (\<forall>b. b \<noteq> int (off div 4096) + 2 \<longrightarrow> device s' b = device s b)"
proof -
  define off where "off = write_offset n (length x)"
  have off: "n \<le> off" "off \<le> n + length x" "off mod 4096 + length x \<le> 4096"
    using write_offset_bounds(1,2) write_offset_bounds(3) [OF assms(5)] by (simp_all add: off_def)
  have "fits env (off + length x)" by (rule fits_mono [OF assms(6)]) (use off in simp)
  note w = onefilefs_write_ok [OF assms(1-5), of env, folded off_def, OF this]
  let ?s' = "s\<lparr>device := with_bytes (device s) off x,
    icache := (icache s)(f_inode f \<mapsto> ino\<lparr>i_size := int (off + length x)\<rparr>)\<rparr>"
  have "file_text (f_inode f) ?s' = file_text (f_inode f) s @ file_bytes (device s) n off @ x"
    using stored_bytes [OF assms(4) off(3)] file_bytes_append [of 0 n off "device s"] off(1) assms(1,2)
    by (simp add: file_text_def del: of_nat_add)
  moreover have "\<forall>b. b \<noteq> int (off div 4096) + 2 \<longrightarrow> device ?s' b = device s b"
    by (simp add: with_bytes_def Let_def)
  moreover have "off = (if 4096 - n mod 4096 \<le> length x then n + (4096 - n mod 4096) else n)"
    by (simp add: off_def write_offset_def)
  ultimately show ?thesis
    using w off(3) by (intro exI [of _ "f\<lparr>f_pos := int off\<rparr>"] exI [of _ ?s'] exI [of _ off]) simp
qed

theorem write_function_witness:
  "\<exists>s f' s'. onefilefs_write_async sample_fsenv (Some sample_file) \<lparr>iov_base = ''x'', iov_len = 1\<rparr> s =
      Some (7, f', s') \<and> f_pos f' = 31 \<and> file_text 1 s' = file_body @ ''x''"
proof -
  obtain s where s: "file_text 1 s = file_body" "device s = sample_disk" "\<not> refmonfs_mutex s"
    "icache s 1 = Some \<lparr>i_size = 31, i_mode = S_IFREG + REFMONFS_PERMISSIONS, i_new = False\<rparr>"
    using sample_mounted by blast
  have d: "wf_device (device s)" using s(2) sample_made(1) by (simp add: made_def)
  have "fits sample_fsenv (31 + 2 * length ''x'')" by (rule sample_fits) simp
  from write_function [of s sample_file "\<lparr>i_size = 31, i_mode = S_IFREG + REFMONFS_PERMISSIONS,
      i_new = False\<rparr>" 31 "''x''" sample_fsenv, OF _ _ s(3) d _ this] s
  show ?thesis by (auto simp: file_bytes_def intro!: exI [of _ s])
qed



text \<open>
  A write of more than a block runs past the end of the block's data, whatever the state of the
  file. (The lines of the log have at most 515 bytes, C27.)
\<close>

theorem large_write_crash:
  assumes "icache s (f_inode f) = Some ino" and "i_size ino = int n" and "wf_device (device s)"
    and "4096 < length x" and "fits env (n + 4096)"
  shows "onefilefs_write_async env (Some f) \<lparr>iov_base = x, iov_len = int (length x)\<rparr> s = None"
  by (rule onefilefs_write_overflow [OF assms])

theorem large_write_crash_witness:
  "\<exists>s :: onefs. file_text 1 s = file_body \<and>
     (\<forall>x. length x = Suc 4096 \<longrightarrow>
       onefilefs_write_async sample_fsenv (Some sample_file) \<lparr>iov_base = x, iov_len = int (length x)\<rparr> s =
         None)"
proof -
  obtain s where s: "file_text 1 s = file_body" "device s = sample_disk"
    "icache s 1 = Some \<lparr>i_size = 31, i_mode = S_IFREG + REFMONFS_PERMISSIONS, i_new = False\<rparr>"
    using sample_mounted by blast
  have d: "wf_device (device s)" using s(2) sample_made(1) by (simp add: made_def)
  have fits: "fits sample_fsenv (31 + 4096)" by (rule sample_fits) simp
  have "onefilefs_write_async sample_fsenv (Some sample_file) \<lparr>iov_base = x, iov_len = int (length x)\<rparr> s =
      None" if "length x = Suc 4096" for x
    by (rule large_write_crash [where ino = "\<lparr>i_size = 31, i_mode = S_IFREG + REFMONFS_PERMISSIONS,
          i_new = False\<rparr>", OF _ _ d _ fits]) (use s that in simp_all)
  then show ?thesis using s(1) by blast
qed

text \<open>
  What the maker writes can be mounted: the superblock passes the check, and the file looked up
  in the root has the first line as its text.
\<close>

theorem mkfs_then_mount:
  assumes "mkfs_ok menv" and "dev_pos d = 0" and "set (bytes d) \<subseteq> {NUL}" and "mount_ok env"
  shows "\<exists>d' s. mkfs_main menv 2 d = (0, d') \<and> open_log env (image_block (bytes d')) = Some s \<and>
    file_text 1 s = file_body"
proof -
  obtain ret d' where m: "mkfs_main menv 2 d = (ret, d')" by force
  have "ret = 0" "made (image_block (bytes d'))" using mkfs_made [OF assms(1-3) m] by simp_all
  then show ?thesis using open_log_made [OF _ assms(4)] m by blast
qed

theorem mkfs_then_mount_witness:
  "\<exists>d' s. mkfs_main sample_mkfs 2 sample_dev = (0, d') \<and>
     open_log sample_fsenv (image_block (bytes d')) = Some s \<and> file_text 1 s = file_body"
  by (rule mkfs_then_mount [OF sample_mkfs_ok sample_dev sample_mount])

text \<open>
  C34. Listing the directory: wherever the reader's buffer cuts the calls, the entries come in order
  and each once, and a call only stops early at an entry that was not accepted.
\<close>

theorem dir_listing:
  assumes "onefilefs_iterate accept ctx = (ret, ctx')" and "0 \<le> ctx_pos ctx" and "ctx_pos ctx \<le> 3"
    and "emitted ctx = take (nat (ctx_pos ctx)) dir_entries"
  shows "ret = 0 \<and> ctx_pos ctx \<le> ctx_pos ctx' \<and> ctx_pos ctx' \<le> 3 \<and>
    emitted ctx' = take (nat (ctx_pos ctx')) dir_entries \<and> (ctx_pos ctx' < 3 \<longrightarrow> \<not> accept (ctx_pos ctx'))"
  by (rule onefilefs_iterate_emits [OF assms])

theorem dir_listing_witness:
  "\<exists>ctx. onefilefs_iterate (\<lambda>_. True) \<lparr>ctx_pos = 1, emitted = [(''.'', 255, 10)]\<rparr> = (0, ctx) \<and>
     emitted ctx = dir_entries"
proof -
  obtain ret ctx where c: "onefilefs_iterate (\<lambda>_. True) \<lparr>ctx_pos = 1, emitted = [(''.'', 255, 10)]\<rparr> =
    (ret, ctx)" by force
  from dir_listing [OF c] have "ret = 0 \<and> \<not> ctx_pos ctx < 3 \<and> ctx_pos ctx \<le> 3 \<and>
      emitted ctx = take (nat (ctx_pos ctx)) dir_entries"
    by (simp add: dir_entries_def)
  moreover from this have "ctx_pos ctx = 3" by simp
  ultimately show ?thesis using c by (simp add: dir_entries_def)
qed

text \<open>
  C35. A lookup of the log that finds no inode in memory and cannot read the inode's block fails with
  \<open>-EIO\<close> and gives its new inode back with \<open>iput\<close>, without failing or unlocking it. If the kernel then
  drops the inode the file system is as before. If it keeps it, as it does with an inode that has a
  link, the inode stays locked: whatever is done to the mounted file system afterwards, no
  lookup of the log ever returns, also when the device can be read again.
\<close>

theorem failed_lookup_hangs:
  assumes "icache s 1 = None" and "iget_ok env" and "\<not> bread_ok env 1"
  shows "\<exists>s'. onefilefs_lookup env REFMON_FILE_LOG child s = Some (Err_ptr (- EIO), child, s') \<and>
    (if iput_keeps env
     then \<forall>later. fs_step\<^sup>*\<^sup>* s' later \<longrightarrow>
       (\<forall>env' child'. onefilefs_lookup env' REFMON_FILE_LOG child' later = None)
     else s' = s)"
proof -
  let ?ino = "\<lparr>i_size = 0, i_mode = S_IFREG + REFMONFS_PERMISSIONS, i_new = True\<rparr>"
  have "onefilefs_lookup env REFMON_FILE_LOG child s =
      Some (Err_ptr (- EIO), child, iput_new env 1 ?ino s)"
    using assms by (simp add: onefilefs_lookup_def iget_locked_def sb_bread_def fs_constants)
  moreover have "log_locked (iput_new env 1 ?ino s)" if "iput_keeps env"
    using that by (simp add: log_locked_def iput_new_def)
  moreover have "iput_new env 1 ?ino s = s" if "\<not> iput_keeps env"
    using that assms(1) by (simp add: iput_new_def fun_upd_idem)
  ultimately show ?thesis using log_locked_for_ever log_locked_lookup by auto
qed

theorem failed_lookup_hangs_witness:
  "\<exists>s ret sb' later. onefilefs_lookup (sample_fsenv\<lparr>bread_ok := (\<lambda>b. b \<noteq> 1)\<rparr>) REFMON_FILE_LOG None
       (fresh_mount sample_disk) = Some (Err_ptr (- EIO), None, s) \<and>
     singlefilefs_fill_super sample_fsenv \<lparr>s_magic = 0, s_root = None\<rparr> s = Some (ret, sb', later) \<and>
     onefilefs_lookup sample_fsenv REFMON_FILE_LOG None later = None"
proof -
  let ?broken = "sample_fsenv\<lparr>bread_ok := (\<lambda>b. b \<noteq> 1)\<rparr>"
  have "icache (fresh_mount sample_disk) 1 = None" "iget_ok ?broken" "\<not> bread_ok ?broken 1" "iput_keeps ?broken"
    by (simp_all add: fresh_mount_def)
  from failed_lookup_hangs [OF this(1-3), of None] this(4) obtain s where
    s: "onefilefs_lookup ?broken REFMON_FILE_LOG None (fresh_mount sample_disk) = Some (Err_ptr (- EIO), None, s)"
    "\<And>later env' child'. fs_step\<^sup>*\<^sup>* s later \<Longrightarrow> onefilefs_lookup env' REFMON_FILE_LOG child' later = None"
    by auto
  have "icache s 10 = None"
    using s(1) by (auto simp: onefilefs_lookup_def iget_locked_def fresh_mount_def sb_bread_def iput_new_def
        fs_constants)
  then obtain ret sb' later where
    f: "singlefilefs_fill_super sample_fsenv \<lparr>s_magic = 0, s_root = None\<rparr> s = Some (ret, sb', later)"
    using singlefilefs_fill_super_cases [of s sample_fsenv "\<lparr>s_magic = 0, s_root = None\<rparr>"]
    by (simp add: Let_def split: if_splits)
  have "onefilefs_lookup sample_fsenv REFMON_FILE_LOG None later = None"
    by (rule s(2)) (rule r_into_rtranclp [where r = fs_step, OF fs_step.fill [OF f]])
  then show ?thesis using s(1) f by blast
qed


section \<open>Hashes, failures and files under /proc\<close>

text \<open>
  The decision of the registry search is that of its specification: some entry protects the path
  or the inode number, or is a directory the path lies below.
\<close>

theorem eligibility:
  assumes "wf_entries reg" and "p \<noteq> ''''"
  shows "is_eligible env reg \<lparr>path = Some p, ino_no = i\<rparr> =
    Some (if \<exists>e\<in>set reg. path (resolved e) = Some p \<or> ino_no (resolved e) = i \<or>
        (\<exists>base. path (resolved e) = Some base \<and> is_dir env base \<noteq> 0 \<and> is_subpath base p = Some True)
      then 1 else 0)"
  using is_eligible_iff [OF assms] by (simp add: protects_def below_def)

theorem eligibility_witness:
  "is_eligible sample_env [sample_entry] \<lparr>path = Some ''/f'', ino_no = 0\<rparr> = Some 1"
proof -
  have "wf_entries [sample_entry]" by (simp add: wf_entry_def sample_entry_def is_resolved_def char_at_def)
  from eligibility [OF this, of "''/f''" sample_env 0] show ?thesis by (simp add: sample_entry_def)
qed

text \<open>
  A path lies below a base when it is the base or the base followed by a slash. So a base that
  itself ends with a slash has nothing below it that is written with single slashes.
\<close>

theorem subpath_function:
  assumes "nul_free p"
  shows "is_subpath base p = Some (p = base \<or> (\<exists>rest. p = base @ ''/'' @ rest))"
  using below_iff [OF assms, of base] is_subpath_below by (simp add: is_subpath_below)

theorem subpath_function_witness:
  "is_subpath ''/d'' ''/d/f'' = Some True \<and> is_subpath ''/d/'' ''/d/f'' = Some False"
  using subpath_function [of "''/d/f''" "''/d''"] subpath_function [of "''/d/f''" "''/d/''"] by simp

text \<open>
  Resolving a path in allocated buffers computes the resolution of the specification, or fails;
  it only fails by itself when there is no memory.
\<close>

theorem resolution:
  assumes "resolve_path_alloc env input_path flags m = (r, m')"
  shows "(r = None \<or> r = resolve_path env input_path flags) \<and>
    (no_oom env \<longrightarrow> r = resolve_path env input_path flags)"
  using resolve_path_alloc_sound [OF assms] resolve_path_alloc_no_oom [OF _ assms] by blast

theorem resolution_witness:
  "fst (resolve_path_alloc sample_env (Some ''/f'') 1 (mem sample_boot)) = Some ''/f''"
proof -
  obtain r m' where r: "resolve_path_alloc sample_env (Some ''/f'') 1 (mem sample_boot) = (r, m')" by force
  from resolution [OF this] sample_no_oom have "r = resolve_path sample_env (Some ''/f'') 1" by blast
  then show ?thesis by (simp add: r resolve_path_def has_flag_def)
qed

text \<open>
  C36. The hash of a file is the hash of its contents, in whatever pieces it was read, and comes after
  finitely many reads; the buffer of the result is the only one left.
\<close>

theorem hash_of_file:
  assumes "no_oom env" and "crypto_ok env" and "file_holds env p c"
  shows "\<exists>m'. hashgen_filecont env p m = Some (Some (hex_string (sha256 env c)), m') \<and>
    live m' = live m + 1 \<and> preempt m' = preempt m"
  using hashgen_filecont_ok [OF assms, of m] by (auto simp: digest_of_def)

theorem hash_of_file_witness:
  "\<exists>m'. hashgen_filecont sample_env ''/bin/vi'' (mem sample_boot) =
     Some (Some (hex_string (sample_hash ''ELF'')), m')"
  using hash_of_file [OF sample_no_oom sample_crypto sample_file_holds, of "''/bin/vi''" "mem sample_boot"]
  by auto

text \<open>
  C37. A kernel thread that is blocked crashes: it has no executable to record. Among them is the worker
  that writes the log, so a registry that protects the log's file crashes the kernel with the next
  operation that is put on record.
\<close>

theorem kernel_thread_crash:
  assumes "reachable (world h) s0 s" and "probe_enabled s p" and "in_use < 15"
    and "no_oom env" and "exe_dentry env = None"
    and "dentry_path_raw env (hook_dentry (entry_handler (kretprobe_of p)) env regs) = Some q"
    and "hook_denied (entry_handler (kretprobe_of p)) env (registry (the_inst s)) regs"
  shows "probed_call env p in_use regs rv s = None"
proof -
  have "wf_entries (registry (the_inst s))"
    using safety.always [OF assms(1)] by (simp add: monitor_inv_def)
  from enter_call_exact [OF this assms(4,6), of in_use] assms(2,3,7)
  obtain m where "enter_call env p in_use regs s = Some (True, s\<lparr>mem := m\<rparr>)" by auto
  then show ?thesis using leave_call_kernel_thread [OF assms(4,5)] by (simp add: probed_call_def)
qed

theorem kernel_thread_crash_witness:
  "\<exists>s :: ksys. registry (the_inst s) = [sample_entry] \<and>
     probed_call sample_worker krp_vfs_open 0 sample_open 3 s = None"
proof -
  obtain s where s: "sample_state REC_ON [sample_entry] True s" using sample_protecting ..
  then have r: "reachable (world sample_hash) sample_boot s" "probe_enabled s krp_vfs_open"
    "registry (the_inst s) = [sample_entry]"
    using sample_reachable_in(1) by (simp_all add: sample_state_def)
  have "probed_call sample_worker krp_vfs_open 0 sample_open 3 s = None"
    by (rule kernel_thread_crash [OF r(1,2) _ sample_worker(1,2)])
      (use sample_worker(3,4) r(3) in \<open>simp_all del: hook_denied.simps hook_dentry.simps\<close>)
  then show ?thesis using r(3) by blast
qed

text \<open>
  Failing open: if the first allocation of a probe's entry handler fails, the call goes through,
  and nothing is recorded, whatever is registered.
\<close>

theorem oom_lets_through:
  assumes "reachable (world h) s0 s" and "\<not> kmalloc_ok env (allocs (mem s))"
  shows "\<exists>m. probed_call env p in_use regs rv s = Some (rv, s\<lparr>mem := m\<rparr>)"
proof -
  have "wf_entries (registry (the_inst s))"
    using safety.always [OF assms(1)] by (simp add: monitor_inv_def)
  then obtain m where "enter_call env p in_use regs s = Some (False, s\<lparr>mem := m\<rparr>)"
    using enter_call_oom assms(2) by blast
  then show ?thesis by (auto simp: probed_call_def)
qed

theorem oom_lets_through_witness:
  "\<exists>(s :: ksys) m. registry (the_inst s) = [sample_entry] \<and> is_on (the_inst s) \<and>
     probed_call (sample_env\<lparr>kmalloc_ok := (\<lambda>_. False)\<rparr>) krp_vfs_open 0 sample_open 0 s =
       Some (0, s\<lparr>mem := m\<rparr>)"
proof -
  obtain s where s: "sample_state REC_ON [sample_entry] True s" using sample_protecting ..
  then have r: "reachable (world sample_hash) sample_boot s" "registry (the_inst s) = [sample_entry]"
    "is_on (the_inst s)"
    using sample_reachable_in(1) by (simp_all add: sample_state_def instance_tests)
  have "\<not> kmalloc_ok (sample_env\<lparr>kmalloc_ok := (\<lambda>_. False)\<rparr>) (allocs (mem s))" by simp
  from oom_lets_through [OF r(1) this] r(2,3) show ?thesis by blast
qed

text \<open>
  C38. The registry under \<open>/proc\<close>: a read gives whole lines, those of the first entries of the
  registry, and all of them unless the next line would not fit into a page.
\<close>

theorem registry_listing:
  assumes "reachable (world h) s0 s" and "copy_to_user_ok env"
  shows "\<exists>n t. n \<le> length (registry (the_inst s)) \<and>
    t = concat (map registry_line (take n (registry (the_inst s)))) \<and> length t < 4096 \<and>
    read_proc_list env 4096 0 s = Some ((int (length t), t, int (length t)), s) \<and>
    (n = length (registry (the_inst s)) \<or>
     4096 \<le> length (concat (map registry_line (take (Suc n) (registry (the_inst s))))))"
proof -
  have "\<not> spinlock_inst (the_inst s)"
    using safety.always [OF assms(1)] by (simp add: monitor_inv_def)
  note r = read_proc_list_eq [OF this, of env 4096 0]
  obtain n where n: "n \<le> length (registry (the_inst s))"
    "list_text (registry (the_inst s)) = lines_of (take n (registry (the_inst s)))"
    "length (list_text (registry (the_inst s))) < 4096"
    "n = length (registry (the_inst s)) \<or>
       4096 \<le> length (lines_of (take (Suc n) (registry (the_inst s))))"
    by (rule list_text_lines)
  then show ?thesis
    using r assms(2)
    by (intro exI [of _ n] exI [of _ "list_text (registry (the_inst s))"])
      (simp add: read_result_def lines_of_def)
qed

theorem registry_listing_witness:
  "\<exists>s :: ksys. registry (the_inst s) = [sample_entry] \<and>
     read_proc_list sample_env 4096 0 s = Some ((17, ''- 10 /f -> 10 /f'' @ [CHR 0x0A], 17), s)"
proof -
  obtain s where s: "sample_state REC_ON [sample_entry] True s" using sample_protecting ..
  then have r: "reachable (world sample_hash) sample_boot s" "registry (the_inst s) = [sample_entry]"
    using sample_reachable_in(1) by (simp_all add: sample_state_def)
  have line: "registry_line sample_entry = ''- 10 /f -> 10 /f'' @ [CHR 0x0A]"
    by (simp add: registry_line_def sample_entry_def str_arg_def dec_nat.simps digit_char_def char_of_def
        bit_0)
  have "copy_to_user_ok sample_env" by simp
  from registry_listing [OF r(1) this] obtain n t where n: "n \<le> 1"
    "t = concat (map registry_line (take n [sample_entry]))"
    "read_proc_list sample_env 4096 0 s = Some ((int (length t), t, int (length t)), s)"
    "n = 1 \<or> 4096 \<le> length (concat (map registry_line (take (Suc n) [sample_entry])))"
    unfolding r(2) by auto
  have "n = 1" using n(1,4) line by (cases n) simp_all
  then have "t = ''- 10 /f -> 10 /f'' @ [CHR 0x0A]" using n(2) line by simp
  then show ?thesis using n(3) r(2) by (intro exI [of _ s]) simp
qed

text \<open>
  The numbers of the system calls, printed under \<open>/proc\<close>, are read back by the command line
  program as they were.
\<close>

theorem codes_roundtrip:
  assumes "int_codes (syscall_codes s)" and "copy_to_user_ok env"
  shows "\<exists>t. read_proc_syscalls env 4096 0 s = Some ((int (length t), t, int (length t)), s) \<and>
    get_syscall_index (Some t) 0 = sc_code_set_state (syscall_codes s) \<and>
    get_syscall_index (Some t) 1 = sc_code_reconf_add (syscall_codes s) \<and>
    get_syscall_index (Some t) 2 = sc_code_reconf_rm (syscall_codes s) \<and>
    get_syscall_index (Some t) 3 = sc_code_flush (syscall_codes s)"
  using read_proc_syscalls_eq [OF assms(1), of env 4096 0] length_codes_text [OF assms(1)] assms(2)
  by (intro exI [of _ "codes_text (syscall_codes s)"])
    (simp add: get_syscall_index_text [unfolded One_nat_def] read_result_def)

theorem codes_roundtrip_witness:
  "\<exists>t s. read_proc_syscalls sample_env 4096 0 s = Some ((int (length t), t, int (length t)), s) \<and>
     get_syscall_index (Some t) 2 = 177"
proof -
  let ?s = "sample_boot\<lparr>syscall_codes := \<lparr>sc_code_set_state = 134, sc_code_reconf_add = 174,
    sc_code_reconf_rm = 177, sc_code_flush = 178\<rparr>\<rparr>"
  have "int_codes (syscall_codes ?s)" "copy_to_user_ok sample_env" by (simp_all add: int_codes_def)
  from codes_roundtrip [OF this] show ?thesis by auto
qed

text \<open>
  C39. A documented command line is its system call: in every state the module reaches, a program that
  is given such a line and reads the numbers the module prints does to the module what the call
  does, and its exit code is the call's. After a call that succeeded the exit code is the negated
  \<open>errno\<close> from before, so a stale one is reported as a failure.
\<close>

theorem program_is_call:
  assumes "reachable (\<lambda>env. linked_at addrs h env \<and> distinct addrs) s0 s" and "linked_at addrs h env"
    and "codes_read s t" and "command_line u argv = Some e"
    and "step env s e (Returned raw) s'" and "- 4096 < raw" and "raw \<le> 0"
  shows "\<exists>msgs. user_main env other u (Some t) argv s =
    Some ((if raw = 0 then - u_errno u else raw, msgs), s')"
proof -
  have "calls_installed env s"
    using calls.always [OF assms(1)] assms(2) by (simp add: linked_at_def)
  note t = codes_read_text [OF this assms(3)]
  note main = user_main_command [OF assms(4)]
  from command_is_call [OF assms(1,2) main(1) assms(5-7)] show ?thesis
    unfolding main(2) t after_text_def by fastforce
qed

theorem program_is_call_witness:
  "\<exists>s t msgs s'. user_main sample_env (\<lambda>_ t. Some (0, t)) sample_user (Some t) [''refmon'', ''--recon''] s =
     Some ((0, msgs), s') \<and> state (the_inst s) = OFF \<and> state (the_inst s') = REC_ON"
proof -
  obtain s where s: "sample_state OFF [] False s" using sample_start ..
  then obtain s' where st: "step sample_env s (Set_state (Some ''REC-ON'')) (Returned 0) s'"
    and s': "sample_state REC_ON [] True s'"
    using sample_switch by blast
  obtain t where t: "codes_read s t" using sample_codes_read [OF s] ..
  have "command_line sample_user [''refmon'', ''--recon''] = Some (Set_state (Some ''REC-ON''))"
    by (simp add: set_state_line_def sample_user_def)
  from program_is_call [OF sample_linked [OF s] t this st, of "\<lambda>_ t. Some (0, t)"]
  obtain msgs where "user_main sample_env (\<lambda>_ t. Some (0, t)) sample_user (Some t) [''refmon'', ''--recon''] s =
      Some ((0, msgs), s')" by (auto simp: sample_user_def)
  then show ?thesis using s s'
    by (intro exI [of _ s] exI [of _ t] exI [of _ msgs] exI [of _ s']) (simp add: sample_state_def)
qed

text \<open>
  C40. Any command line: the program makes the call that the first option of its command line asks for,
  exactly that one, once, and it reports the call's result; if that option asks for none
  (unknown, ambiguous, without its argument, with a wrong number of words, for a listing or for help),
  or the password cannot be read, the program returns and the module is as before. What follows the
  first option is ignored.
\<close>

theorem program_one_call:
  assumes "reachable (\<lambda>env. linked_at addrs h env \<and> distinct addrs) s0 s" and "linked_at addrs h env"
    and "codes_read s t"
  shows "case asked_call u argv of
      None \<Rightarrow> \<exists>r. user_main env other u (Some t) argv s = Some (r, s)
    | Some e \<Rightarrow>
        (\<forall>r s'. user_main env other u (Some t) argv s = Some (r, s') \<longrightarrow>
           (\<exists>raw. step env s e (Returned raw) s')) \<and>
        (\<forall>raw s'. step env s e (Returned raw) s' \<and> - 4096 < raw \<and> raw \<le> 0 \<longrightarrow>
           (\<exists>msgs. user_main env other u (Some t) argv s =
              Some ((if raw = 0 then - u_errno u else raw, msgs), s')))"
  by (rule program_run [OF assms])

theorem program_one_call_witness:
  "\<exists>s t msgs s'. state (the_inst s) = OFF \<and>
     user_main sample_env (\<lambda>_ t. Some (0, t)) sample_user (Some t)
       [''refmon'', ''file'', ''--recon'', ''--off''] s = Some ((0, msgs), s') \<and>
     state (the_inst s') = REC_ON"
proof -
  obtain s where s: "sample_state OFF [] False s" using sample_start ..
  then obtain s' where st: "step sample_env s (Set_state (Some ''REC-ON'')) (Returned 0) s'"
    and s': "sample_state REC_ON [] True s'"
    using sample_switch by blast
  obtain t where t: "codes_read s t" using sample_codes_read [OF s] ..
  note run = program_one_call [OF sample_linked [OF s] t, where argv = sample_line and u = sample_user
      and other = "\<lambda>_ t. Some (0, t)", unfolded sample_asked option.case]
  have "\<exists>msgs. user_main sample_env (\<lambda>_ t. Some (0, t)) sample_user (Some t) sample_line s =
      Some ((if (0 :: int) = 0 then - u_errno sample_user else 0, msgs), s')"
    by (rule conjunct2 [OF run, rule_format]) (use st in simp)
  then obtain msgs where "user_main sample_env (\<lambda>_ t. Some (0, t)) sample_user (Some t) sample_line s =
      Some ((0, msgs), s')" by (auto simp: sample_user_def)
  then show ?thesis using s s' unfolding sample_line_def by (auto simp: sample_state_def)
qed

end
